(* ===== verification/Go_Prelude.thy ===== *)
theory Go_Prelude
  imports Main "HOL-Library.Word" "HOL-Library.Signed_Division"
begin

text \<open>
  What the components share: the Go machine integers that the program computes with
  (\<^verbatim>\<open>int\<close>, \<^verbatim>\<open>int64\<close>, \<^verbatim>\<open>int32\<close>, written as mathematical integers with the wrap-around
  made explicit), byte strings, error values and \<^verbatim>\<open>errors.Is\<close>, the status of a context, and
  the generic lemmas and collections the component proofs use.

  A Go \<^verbatim>\<open>string\<close> and a \<^verbatim>\<open>[]byte\<close> are both sequences of bytes and conversions between
  them copy the bytes, so both are \<^typ>\<open>char list\<close> here (a \<^typ>\<open>char\<close> is one byte).
\<close>

named_theorems go_int \<comment> \<open>range and wrap-around facts of the fixed-width integers\<close>
named_theorems go_err \<comment> \<open>evaluation of error values\<close>

section \<open>Definitions\<close>

type_synonym bytes = "char list"

text \<open>Two's complement wrap-around of a 64-bit and a 32-bit signed integer.\<close>

definition is_i64 :: "int \<Rightarrow> bool" where
  "is_i64 x \<longleftrightarrow> - (2 ^ 63) \<le> x \<and> x < 2 ^ 63"

definition i64 :: "int \<Rightarrow> int" where
  "i64 x = (x + 2 ^ 63) mod 2 ^ 64 - 2 ^ 63"

definition is_i32 :: "int \<Rightarrow> bool" where
  "is_i32 x \<longleftrightarrow> - (2 ^ 31) \<le> x \<and> x < 2 ^ 31"

definition i32 :: "int \<Rightarrow> int" where
  "i32 x = (x + 2 ^ 31) mod 2 ^ 32 - 2 ^ 31"

text \<open>
  Error values. The constructors are the ones the program creates or tests for:
  \<^verbatim>\<open>os.ErrNotExist\<close>, the two context errors, an error that is only a text
  (\<^verbatim>\<open>errors.New\<close>, \<^verbatim>\<open>fmt.Errorf\<close> without \<^verbatim>\<open>%w\<close>, and the opaque errors of the
  libraries), one that wraps another (\<^verbatim>\<open>fmt.Errorf\<close> with \<^verbatim>\<open>%w\<close>, \<^verbatim>\<open>errors.Wrapf\<close>),
  an HTTP error response with its status code and its text (\<^verbatim>\<open>minio.ErrorResponse\<close>), a
  Kubernetes \<^verbatim>\<open>StatusError\<close> whose reason is "not found", a \<^verbatim>\<open>net.DNSError\<close> with
  its text and its flag \<^verbatim>\<open>IsNotFound\<close>, and an error variable of the program, which is
  compared by identity and so differs from every other error with the same text.
\<close>

datatype go_error =
    ErrNotExist
  | Canceled
  | DeadlineExceeded
  | ErrText string
  | ErrWrap string go_error
  | ErrResponse int string
  | ErrStatusNotFound string
  | ErrDNS string bool
  | ErrSentinel string

text \<open>\<^verbatim>\<open>errors.Is\<close>: the error itself or one it wraps is the target.\<close>

fun errors_Is :: "go_error \<Rightarrow> go_error \<Rightarrow> bool" where
  "errors_Is (ErrWrap m e) t = (ErrWrap m e = t \<or> errors_Is e t)"
| "errors_Is e t = (e = t)"

text \<open>A call that can panic.\<close>

datatype 'a outcome = Panic string | Ok 'a

primrec bind_ok :: "'a outcome \<Rightarrow> ('a \<Rightarrow> 'b outcome) \<Rightarrow> 'b outcome" where
  "bind_ok (Panic m) f = Panic m"
| "bind_ok (Ok x) f = f x"

text \<open>The combination of two errors by the package \<^verbatim>\<open>multierr\<close> is a parameter of this type.\<close>

type_synonym multierr = "go_error option \<Rightarrow> go_error option \<Rightarrow> go_error option"

text \<open>
  A context, seen at the moment it is consulted: \<^verbatim>\<open>ctx.Err()\<close>, with \<open>None\<close> while
  its \<^verbatim>\<open>Done\<close> channel is open. \<^verbatim>\<open>context.TODO()\<close> is never done.
\<close>

type_synonym ctx = "go_error option"

definition context_TODO :: ctx where
  "context_TODO = None"

section \<open>Machine integers\<close>

lemma i64_id [go_int]: "is_i64 x \<Longrightarrow> i64 x = x"
  by (simp add: is_i64_def i64_def)

lemma is_i64_i64 [go_int]: "is_i64 (i64 x)"
proof -
  have "0 \<le> (x + 2 ^ 63) mod 2 ^ 64" and "(x + 2 ^ 63) mod 2 ^ 64 < (2 ^ 64 :: int)"
    by simp_all
  then show ?thesis by (simp add: is_i64_def i64_def)
qed

lemma i64_idem [simp]: "i64 (i64 x) = i64 x"
  by (rule i64_id) (rule is_i64_i64)

lemma i32_id [go_int]: "is_i32 x \<Longrightarrow> i32 x = x"
  by (simp add: is_i32_def i32_def)

lemma is_i32_i32 [go_int]: "is_i32 (i32 x)"
proof -
  have "0 \<le> (x + 2 ^ 31) mod 2 ^ 32" and "(x + 2 ^ 31) mod 2 ^ 32 < (2 ^ 32 :: int)"
    by simp_all
  then show ?thesis by (simp add: is_i32_def i32_def)
qed

lemma is_i32_is_i64 [go_int]: "is_i32 x \<Longrightarrow> is_i64 x"
  by (simp add: is_i32_def is_i64_def)

lemma is_i64_small [go_int]: "0 \<le> x \<Longrightarrow> x \<le> y \<Longrightarrow> is_i64 y \<Longrightarrow> is_i64 x"
  by (simp add: is_i64_def)

lemma i64_cong: "x mod 2 ^ 64 = y mod 2 ^ 64 \<Longrightarrow> i64 x = i64 y"
  unfolding i64_def by (metis mod_add_cong)

text \<open>Go's integer division truncates; on non-negative operands it is \<open>div\<close>.\<close>

lemma sdiv_nonneg [go_int]: "0 \<le> (a::int) \<Longrightarrow> 0 < b \<Longrightarrow> a sdiv b = a div b"
  by (cases "a = 0") (simp_all add: signed_divide_int_def)

section \<open>Errors\<close>

lemma errors_Is_refl [simp]: "errors_Is e e"
  by (cases e) simp_all

lemma errors_Is_ErrNotExist_wrap [go_err]:
  "errors_Is (ErrWrap m e) ErrNotExist = errors_Is e ErrNotExist"
  by simp

section \<open>Panics, lists and options\<close>

lemma bind_ok_Ok [simp]: "bind_ok x f = Ok y \<longleftrightarrow> (\<exists>z. x = Ok z \<and> f z = Ok y)"
  by (cases x) simp_all

lemma takeWhile_append_stop:
  "\<forall>x \<in> set xs. P x \<Longrightarrow> \<not> P y \<Longrightarrow> takeWhile P (xs @ y # ys) = xs"
  by (simp add: takeWhile_append)

lemma case_option_pair_eq:
  "(case p of (None, s) \<Rightarrow> f s | (Some e, s) \<Rightarrow> g e s) =
   (case fst p of None \<Rightarrow> f (snd p) | Some e \<Rightarrow> g e (snd p))"
  by (cases p) (auto split: option.splits)

end
