(* ===== verification/Go_Time.thy ===== *)
theory Go_Time
  imports Go_Prelude
begin

text \<open>
  \<^verbatim>\<open>time.Time\<close> and \<^verbatim>\<open>time.Duration\<close> as far as the program uses them. A time has a
  wall-clock reading (nanoseconds since the Unix epoch) and, when it comes from
  \<^verbatim>\<open>time.Now\<close>, a monotonic reading; comparisons and differences use the monotonic readings
  when both times have one. Durations are 64-bit nanosecond counts. A clock is the sequence of
  the readings that successive calls of \<^verbatim>\<open>Now\<close> return.
\<close>

named_theorems go_time \<comment> \<open>evaluation of times and clocks\<close>

section \<open>Definitions\<close>

record go_time =
  wall :: int
  monotonic :: "int option"

definition Millisecond :: int where
  "Millisecond = 1000000"

definition Second :: int where
  "Second = 1000000000"

text \<open>The zero \<^verbatim>\<open>Time\<close>: January 1, year 1, with no monotonic reading.\<close>

definition zero_time :: go_time where
  "zero_time = \<lparr>wall = - (62135596800 * 1000000000), monotonic = None\<rparr>"

text \<open>\<^verbatim>\<open>t.Add(d)\<close>; a monotonic reading that would overflow is dropped.\<close>

definition time_Add :: "go_time \<Rightarrow> int \<Rightarrow> go_time" where
  "time_Add t d =
     \<lparr>wall = wall t + d,
      monotonic = (case monotonic t of None \<Rightarrow> None
              | Some m \<Rightarrow> if is_i64 (m + d) then Some (m + d) else None)\<rparr>"

definition time_After :: "go_time \<Rightarrow> go_time \<Rightarrow> bool" where
  "time_After t u =
     (case (monotonic t, monotonic u) of
        (Some a, Some b) \<Rightarrow> b < a
      | _ \<Rightarrow> wall u < wall t)"

definition time_Before :: "go_time \<Rightarrow> go_time \<Rightarrow> bool" where
  "time_Before t u =
     (case (monotonic t, monotonic u) of
        (Some a, Some b) \<Rightarrow> a < b
      | _ \<Rightarrow> wall t < wall u)"

text \<open>\<^verbatim>\<open>t.Sub(u)\<close> saturates at the ends of the duration range.\<close>

definition sat64 :: "int \<Rightarrow> int" where
  "sat64 x = max (- (2 ^ 63)) (min (2 ^ 63 - 1) x)"

definition time_Sub :: "go_time \<Rightarrow> go_time \<Rightarrow> int" where
  "time_Sub t u =
     (case (monotonic t, monotonic u) of
        (Some a, Some b) \<Rightarrow> sat64 (a - b)
      | _ \<Rightarrow> sat64 (wall t - wall u))"

text \<open>\<^verbatim>\<open>t.UnixMilli()\<close> and \<^verbatim>\<open>time.UnixMilli(ms)\<close>; the latter has no monotonic reading.\<close>

definition UnixMilli :: "go_time \<Rightarrow> int" where
  "UnixMilli t = i64 (wall t div 1000000)"

definition time_UnixMilli :: "int \<Rightarrow> go_time" where
  "time_UnixMilli ms = \<lparr>wall = ms * 1000000, monotonic = None\<rparr>"

text \<open>\<^verbatim>\<open>t.Truncate(time.Millisecond)\<close> rounds down and drops the monotonic reading.\<close>

definition Truncate_ms :: "go_time \<Rightarrow> go_time" where
  "Truncate_ms t = \<lparr>wall = wall t - wall t mod 1000000, monotonic = None\<rparr>"

record clock =
  readings :: "nat \<Rightarrow> go_time"
  tick :: nat

definition clock_Now :: "clock \<Rightarrow> go_time \<times> clock" where
  "clock_Now c = (readings c (tick c), c\<lparr>tick := Suc (tick c)\<rparr>)"

definition clock_Since :: "clock \<Rightarrow> go_time \<Rightarrow> int \<times> clock" where
  "clock_Since c t = (let (now, c') = clock_Now c in (time_Sub now t, c'))"

text \<open>
  What \<^verbatim>\<open>time.Now\<close> documents: every reading has a monotonic part, and the monotonic
  parts of successive readings do not decrease.
\<close>

definition mono_of :: "go_time \<Rightarrow> int" where
  "mono_of t = (case monotonic t of Some m \<Rightarrow> m | None \<Rightarrow> 0)"

definition real_clock :: "clock \<Rightarrow> bool" where
  "real_clock c \<longleftrightarrow>
     (\<forall>n. monotonic (readings c n) \<noteq> None) \<and>
     (\<forall>m n. m \<le> n \<longrightarrow> mono_of (readings c m) \<le> mono_of (readings c n))"

section \<open>Lemmas\<close>

lemma time_Add_sel [simp, go_time]: "wall (time_Add t d) = wall t + d"
  by (simp add: time_Add_def)

lemma mono_time_Add [go_time]:
  "monotonic t = Some m \<Longrightarrow> is_i64 (m + d) \<Longrightarrow> monotonic (time_Add t d) = Some (m + d)"
  by (simp add: time_Add_def)

lemma time_After_mono [go_time]:
  "monotonic t = Some a \<Longrightarrow> monotonic u = Some b \<Longrightarrow> time_After t u = (b < a)"
  by (simp add: time_After_def)

lemma time_Before_wall [go_time]:
  "monotonic t = None \<Longrightarrow> time_Before t u = (wall t < wall u)"
  by (simp add: time_Before_def)

lemma time_After_Add_mono:
  assumes "monotonic t = Some a" and "monotonic u = Some b" and "is_i64 (a + d)"
  shows "time_After (time_Add t d) u = (b < a + d)"
  using assms by (simp add: go_time)

lemma clock_Now_sel [simp, go_time]:
  "fst (clock_Now c) = readings c (tick c)"
  "readings (snd (clock_Now c)) = readings c"
  "tick (snd (clock_Now c)) = Suc (tick c)"
  by (simp_all add: clock_Now_def)

lemma UnixMilli_time_UnixMilli [simp]: "is_i64 ms \<Longrightarrow> UnixMilli (time_UnixMilli ms) = ms"
  by (simp add: UnixMilli_def time_UnixMilli_def go_int)

lemma time_UnixMilli_UnixMilli:
  assumes "monotonic t = None" and "wall t mod 1000000 = 0" and "is_i64 (wall t div 1000000)"
  shows "time_UnixMilli (UnixMilli t) = t"
proof -
  have "wall t div 1000000 * 1000000 = wall t"
    using assms(2) div_mult_mod_eq [of "wall t" 1000000] by simp
  then show ?thesis
    using assms by (simp add: UnixMilli_def time_UnixMilli_def i64_id)
qed

lemma Truncate_ms_mod [simp]: "wall (Truncate_ms t) mod 1000000 = 0"
  by (simp add: Truncate_ms_def mod_diff_eq [symmetric])

lemma mono_Truncate_ms [simp]: "monotonic (Truncate_ms t) = None"
  by (simp add: Truncate_ms_def)

lemma wall_div_Truncate_ms [simp]: "wall (Truncate_ms t) div 1000000 = wall t div 1000000"
  by (simp add: Truncate_ms_def minus_mod_eq_mult_div)

lemma sat64_id: "is_i64 x \<Longrightarrow> sat64 x = x"
  by (simp add: sat64_def is_i64_def)

lemma sat64_less: "x < sat64 d \<Longrightarrow> - (2 ^ 63) \<le> x \<Longrightarrow> x < d"
  by (simp add: sat64_def max_def min_def split: if_splits)

lemma real_clock_mono: "real_clock c \<Longrightarrow> \<exists>m. monotonic (readings c n) = Some m"
  by (auto simp: real_clock_def)

lemma real_clock_le: "real_clock c \<Longrightarrow> m \<le> n \<Longrightarrow>
    mono_of (readings c m) \<le> mono_of (readings c n)"
  by (simp add: real_clock_def)

lemma real_clock_tick [simp]: "real_clock (snd (clock_Now c)) = real_clock c"
  by (simp add: real_clock_def)

end
