(* ===== verification/Lock_Interface.thy ===== *)
theory Lock_Interface
  imports Go_Time
begin

text \<open>
  \<^verbatim>\<open>interface.go\<close>: the election record and the \<^verbatim>\<open>Lock\<close> interface. An interface value
  is the record of its methods over the state behind it; a method returns its results and
  the new state. On success \<^verbatim>\<open>Get\<close> returns a record and the raw bytes it was stored as.

  The locales state what the elector relies on. \<open>lock_identity\<close>: no operation changes the
  identity. \<open>lock_store\<close> adds the sequential contract of a store: a record that was created
  or updated without an error is what the next \<^verbatim>\<open>Get\<close> returns, as far as the storage
  format represents it (\<open>view\<close>).
\<close>

section \<open>Definitions\<close>

record Record =
  HolderIdentity :: string
  LeaseDurationMilliSeconds :: int
  AcquireTime :: int
  RenewTime :: int
  LeaderTransitions :: int

definition zero_Record :: Record where
  "zero_Record =
     \<lparr>HolderIdentity = [], LeaseDurationMilliSeconds = 0, AcquireTime = 0, RenewTime = 0,
      LeaderTransitions = 0\<rparr>"

text \<open>The value ranges of the record's fields (Go's 64-bit \<^verbatim>\<open>int\<close> and \<^verbatim>\<open>int64\<close>).\<close>

definition wf_Record :: "Record \<Rightarrow> bool" where
  "wf_Record r \<longleftrightarrow>
     is_i64 (LeaseDurationMilliSeconds r) \<and> is_i64 (AcquireTime r) \<and> is_i64 (RenewTime r) \<and>
     is_i64 (LeaderTransitions r)"

record 's Lock =
  Get :: "ctx \<Rightarrow> 's \<Rightarrow> (go_error + Record \<times> bytes) \<times> 's"
  Create :: "ctx \<Rightarrow> Record \<Rightarrow> 's \<Rightarrow> go_error option \<times> 's"
  Update :: "ctx \<Rightarrow> Record \<Rightarrow> 's \<Rightarrow> go_error option \<times> 's"
  RecordEvent :: "string \<Rightarrow> 's \<Rightarrow> 's"
  Identity :: "'s \<Rightarrow> string"
  Describe :: "'s \<Rightarrow> string"

section \<open>Contracts\<close>

locale lock_identity =
  fixes L :: "'s Lock"
  assumes Identity_Get: "Identity L (snd (Get L c s)) = Identity L s"
    and Identity_Create: "Identity L (snd (Create L c r s)) = Identity L s"
    and Identity_Update: "Identity L (snd (Update L c r s)) = Identity L s"
    and Identity_RecordEvent: "Identity L (RecordEvent L m s) = Identity L s"
begin

lemmas identity_laws = Identity_Get Identity_Create Identity_Update Identity_RecordEvent

end

locale lock_store = lock_identity L for L :: "'s Lock" +
  fixes view :: "Record \<Rightarrow> Record"
    and good :: "Record \<Rightarrow> bool"
    and ready :: "'s \<Rightarrow> bool"
  assumes Create_Get:
      "ready s \<Longrightarrow> good r \<Longrightarrow> Create L c r s = (None, s') \<Longrightarrow>
       \<exists>raw s''. Get L c' s' = (Inr (view r, raw), s'')"
    and Update_Get:
      "ready s \<Longrightarrow> good r \<Longrightarrow> Update L c r s = (None, s') \<Longrightarrow>
       \<exists>raw s''. Get L c' s' = (Inr (view r, raw), s'')"
    and view_holder: "HolderIdentity (view r) = HolderIdentity r"
begin

text \<open>A successful write is observed by the next read, with the writer as the holder.\<close>

lemma write_then_read_holder:
  assumes "ready s" and "good r"
    and "Create L c r s = (None, s') \<or> Update L c r s = (None, s')"
  shows "\<exists>old raw s''. Get L c' s' = (Inr (old, raw), s'') \<and>
           HolderIdentity old = HolderIdentity r"
  using assms Create_Get [of s r c s' c'] Update_Get [of s r c s' c'] view_holder [of r] by auto

end

end
