(* ===== verification/Metrics.thy ===== *)
theory Metrics
  imports Go_Prelude
begin

text \<open>
  \<^verbatim>\<open>metrics.go\<close>: the adapter through which the elector switches a "leader" gauge on and
  off, and the global factory whose provider can be set once. A provider and the metrics it
  creates are the user's code: a provider is identified by a number, and \<open>mk\<close> gives the
  metric its \<^verbatim>\<open>NewLeaderMetric\<close> creates. What a call does to a user's metric is the call
  itself, a \<open>metric_call\<close>.
\<close>

section \<open>Definitions\<close>

datatype metric_call = On nat string | Off nat string

datatype SwitchMetric = noopMetric | ExtMetric nat

fun SwitchMetric_On :: "SwitchMetric \<Rightarrow> string \<Rightarrow> metric_call list" where
  "SwitchMetric_On noopMetric name = []"
| "SwitchMetric_On (ExtMetric i) name = [On i name]"

fun SwitchMetric_Off :: "SwitchMetric \<Rightarrow> string \<Rightarrow> metric_call list" where
  "SwitchMetric_Off noopMetric name = []"
| "SwitchMetric_Off (ExtMetric i) name = [Off i name]"

text \<open>
  The two implementations of the adapter; \<open>defaultLeaderMetrics None\<close> is the nil pointer,
  which both methods accept.
\<close>

datatype leaderMetricsAdapter = noMetrics | defaultLeaderMetrics "SwitchMetric option"

fun leaderOn :: "leaderMetricsAdapter \<Rightarrow> string \<Rightarrow> metric_call list" where
  "leaderOn noMetrics name = []"
| "leaderOn (defaultLeaderMetrics None) name = []"
| "leaderOn (defaultLeaderMetrics (Some m)) name = SwitchMetric_On m name"

fun leaderOff :: "leaderMetricsAdapter \<Rightarrow> string \<Rightarrow> metric_call list" where
  "leaderOff noMetrics name = []"
| "leaderOff (defaultLeaderMetrics None) name = []"
| "leaderOff (defaultLeaderMetrics (Some m)) name = SwitchMetric_Off m name"

datatype MetricsProvider = noopMetricsProvider | ExtProvider nat

fun NewLeaderMetric :: "(nat \<Rightarrow> SwitchMetric) \<Rightarrow> MetricsProvider \<Rightarrow> SwitchMetric" where
  "NewLeaderMetric mk noopMetricsProvider = noopMetric"
| "NewLeaderMetric mk (ExtProvider i) = mk i"

record leaderMetricsFactory =
  metricsProvider :: MetricsProvider
  onlyOnce :: bool

definition globalMetricsFactory :: leaderMetricsFactory where
  "globalMetricsFactory = \<lparr>metricsProvider = noopMetricsProvider, onlyOnce = False\<rparr>"

text \<open>\<^verbatim>\<open>sync.Once.Do\<close> runs its argument on the first call only.\<close>

definition setProvider :: "MetricsProvider \<Rightarrow> leaderMetricsFactory \<Rightarrow> leaderMetricsFactory" where
  "setProvider mp f =
     (if onlyOnce f then f else f\<lparr>metricsProvider := mp, onlyOnce := True\<rparr>)"

definition newLeaderMetrics ::
    "(nat \<Rightarrow> SwitchMetric) \<Rightarrow> leaderMetricsFactory \<Rightarrow> leaderMetricsAdapter" where
  "newLeaderMetrics mk f =
     (let mp = metricsProvider f
      in if mp = noopMetricsProvider then noMetrics
         else defaultLeaderMetrics (Some (NewLeaderMetric mk mp)))"

text \<open>A sequence of \<^verbatim>\<open>SetProvider\<close> calls on the global factory.\<close>

definition SetProvider :: "leaderMetricsFactory \<Rightarrow> MetricsProvider \<Rightarrow> leaderMetricsFactory" where
  "SetProvider f mp = setProvider mp f"

section \<open>Lemmas\<close>

lemma setProvider_again [simp]: "setProvider q (setProvider p f) = setProvider p f"
  by (simp add: setProvider_def)

lemma foldl_SetProvider_set:
  "onlyOnce f \<Longrightarrow> foldl SetProvider f ps = f"
  by (induction ps) (simp_all add: SetProvider_def setProvider_def)

lemma onlyOnce_setProvider [simp]: "onlyOnce (setProvider p f)"
  by (simp add: setProvider_def)

end
