(* ===== verification/Go_Float.thy ===== *)
theory Go_Float
  imports Go_Prelude
begin

text \<open>
  The one place where the program computes in \<^verbatim>\<open>float64\<close>: the product of a duration and
  the constant \<^verbatim>\<open>JitterFactor = 1.2\<close>, converted back to a duration. IEEE 754 binary64
  rounds to 53 significant bits, ties to even. The products that occur are far from the
  subnormal and overflow ranges, so a float is modelled as a signed integer magnitude over a
  fixed power of two, rounded to 53 bits.
\<close>

section \<open>Definitions\<close>

fun bitlen :: "nat \<Rightarrow> nat" where
  "bitlen n = (if n = 0 then 0 else Suc (bitlen (n div 2)))"

declare bitlen.simps [simp del]

text \<open>\<open>rne k n\<close>: \<open>n / 2 ^ k\<close> rounded to the nearest integer, ties to even.\<close>

definition rne :: "nat \<Rightarrow> nat \<Rightarrow> nat" where
  "rne k n =
     (let q = n div 2 ^ k; r = n mod 2 ^ k
      in if 2 * r < 2 ^ k then q
         else if 2 * r > 2 ^ k then Suc q
         else if even q then q else Suc q)"

text \<open>Rounding a magnitude to 53 significant bits.\<close>

definition round53 :: "nat \<Rightarrow> nat" where
  "round53 n =
     (if bitlen n \<le> 53 then n
      else rne (bitlen n - 53) n * 2 ^ (bitlen n - 53))"

text \<open>The \<^verbatim>\<open>float64\<close> nearest to 1.2 is \<open>5404319552844595 / 2 ^ 52\<close>.\<close>

definition jitter_mantissa :: nat where
  "jitter_mantissa = 5404319552844595"

text \<open>
  \<^verbatim>\<open>time.Duration(1.2 * float64(d))\<close>: the conversion to \<^verbatim>\<open>float64\<close> rounds, the product
  rounds, the conversion back truncates towards zero. A product outside the 64-bit range
  converts to a value that the Go specification leaves to the implementation: \<open>oor\<close>.
\<close>

definition jitter_duration :: "int \<Rightarrow> int \<Rightarrow> int" where
  "jitter_duration oor d =
     (let f = round53 (nat \<bar>d\<bar>);
          p = round53 (jitter_mantissa * f);
          v = sgn d * int (p div 2 ^ 52)
      in if is_i64 v then v else oor)"

section \<open>Lemmas\<close>

lemma bitlen_le: "n \<noteq> 0 \<Longrightarrow> 2 ^ (bitlen n - 1) \<le> n"
proof (induction n rule: bitlen.induct)
  case (1 n)
  show ?case
  proof (cases "n div 2 = 0")
    case True
    then have "n = 1" using "1.prems" by linarith
    then show ?thesis by (simp add: bitlen.simps)
  next
    case False
    then have pos: "0 < bitlen (n div 2)" by (simp add: bitlen.simps [of "n div 2"])
    have "2 ^ (bitlen (n div 2) - 1) \<le> n div 2" using "1.IH" "1.prems" False by blast
    then have "2 * 2 ^ (bitlen (n div 2) - 1) \<le> n" by linarith
    moreover have "2 * 2 ^ (bitlen (n div 2) - 1) = (2::nat) ^ bitlen (n div 2)"
      using pos by (metis Suc_diff_1 power_Suc)
    ultimately show ?thesis using "1.prems" by (simp add: bitlen.simps [of n])
  qed
qed

text \<open>Rounding to nearest is off by at most half a unit.\<close>

lemma rne_error:
  "2 * n \<le> 2 * (rne k n * 2 ^ k) + 2 ^ k"
  "2 * (rne k n * 2 ^ k) \<le> 2 * n + 2 ^ k"
proof -
  define q r where "q = n div 2 ^ k" and "r = n mod 2 ^ k"
  have n: "n = q * 2 ^ k + r" by (simp only: q_def r_def div_mult_mod_eq)
  have r: "r < 2 ^ k" by (simp add: r_def)
  have rne: "rne k n = q \<and> 2 * r \<le> 2 ^ k \<or> rne k n = Suc q \<and> 2 ^ k \<le> 2 * r"
    unfolding rne_def Let_def q_def [symmetric] r_def [symmetric] by auto
  show "2 * n \<le> 2 * (rne k n * 2 ^ k) + 2 ^ k" using rne n r by auto
  show "2 * (rne k n * 2 ^ k) \<le> 2 * n + 2 ^ k" using rne n r by auto
qed

text \<open>So rounding to 53 bits changes a value by at most one part in \<open>2 ^ 53\<close>.\<close>

lemma round53_ulp:
  assumes "\<not> bitlen n \<le> 53"
  shows "2 ^ 52 * 2 ^ (bitlen n - 53) \<le> n"
proof -
  have "bitlen 0 = 0" by (simp add: bitlen.simps)
  then have "n \<noteq> 0" using assms by (cases n) auto
  then have "2 ^ (bitlen n - 1) \<le> n" by (rule bitlen_le)
  moreover have "bitlen n - 1 = 52 + (bitlen n - 53)" using assms by simp
  ultimately show ?thesis by (simp only: power_add)
qed

lemma round53_error:
  "(2 ^ 53 - 1) * n \<le> 2 ^ 53 * round53 n"
  "2 ^ 53 * round53 n \<le> (2 ^ 53 + 1) * n"
proof -
  have "(2 ^ 53 - 1) * n \<le> 2 ^ 53 * round53 n \<and> 2 ^ 53 * round53 n \<le> (2 ^ 53 + 1) * n"
  proof (cases "bitlen n \<le> 53")
    case False
    then show ?thesis
      using rne_error(1) [of n "bitlen n - 53"] rne_error(2) [of "bitlen n - 53" n] round53_ulp [OF False] by (simp add: round53_def)
  qed (simp add: round53_def)
  then show "(2 ^ 53 - 1) * n \<le> 2 ^ 53 * round53 n" "2 ^ 53 * round53 n \<le> (2 ^ 53 + 1) * n"
    by blast+
qed

text \<open>
  A positive duration below \<open>2 ^ 62\<close> ns has a representable product, at least the duration
  itself.
\<close>

lemma jitter_duration_ge:
  assumes "0 < d" and "d < 2 ^ 62"
  shows "d \<le> jitter_duration oor d"
proof -
  define n where "n = nat d"
  define f where "f = round53 n"
  define p where "p = round53 (jitter_mantissa * f)"
  have n: "n < 2 ^ 62" using assms by (simp add: n_def nat_less_iff)
  note f = round53_error [of n, folded f_def]
  note p = round53_error [of "jitter_mantissa * f", folded p_def]
  have "2 ^ 52 * n \<le> p"
    using f(1) p(1) by (simp add: jitter_mantissa_def)
  then have "n \<le> p div 2 ^ 52"
    by (simp add: less_eq_div_iff_mult_less_eq mult.commute)
  then have lower: "d \<le> int (p div 2 ^ 52)" using assms by (simp add: n_def)
  have "p < 2 ^ 63 * 2 ^ 52"
    using f(2) p(2) n by (simp add: jitter_mantissa_def)
  then have "p div 2 ^ 52 < 2 ^ 63"
    by (rule less_mult_imp_div_less)
  then have "int (p div 2 ^ 52) < 2 ^ 63" by (metis of_nat_less_iff of_nat_numeral of_nat_power)
  with lower assms show ?thesis
    by (simp add: jitter_duration_def Let_def p_def f_def n_def is_i64_def)
qed

end
