(* ===== verification/Elector.thy ===== *)
theory Elector
  imports Lock_Interface Metrics Go_Float
begin

text \<open>
  \<^verbatim>\<open>leaderelection.go\<close>, the elector itself: the configuration and its validation
  (\<^verbatim>\<open>New\<close>), the bookkeeping of the observed record, one attempt to acquire or renew the
  lease (\<^verbatim>\<open>tryAcquireOrRenew\<close>), giving it up (\<^verbatim>\<open>release\<close>), reporting a new leader
  (\<^verbatim>\<open>maybeReportTransition\<close>) and the health check (\<^verbatim>\<open>Check\<close>). The loops around them
  are in \<open>Election_Loop\<close>.

  The elector's fields are those of the Go struct. Two more hold what the struct points to:
  the state behind the \<^verbatim>\<open>Lock\<close> interface, and the calls made so far to the user's
  callbacks and metrics, in order. A callback is the user's code and is only named (by a
  number); \<^verbatim>\<open>nil\<close> is \<open>None\<close>. Each operation that the mutex protects is one function.
\<close>

named_theorems elector_defs \<comment> \<open>the definitions of the elector's operations\<close>

section \<open>Configuration and state\<close>

datatype event =
    StartedLeading nat
  | StoppedLeading nat
  | NewLeader nat string
  | Metric metric_call
  | CancelCtx

record Callbacks =
  OnStartedLeading :: "nat option"
  OnStoppedLeading :: "nat option"
  OnNewLeader :: "nat option"

record 's Config =
  cLock :: "'s Lock option"
  LeaseDuration :: int
  RenewDeadline :: int
  RetryPeriod :: int
  cCallbacks :: Callbacks
  WatchDog :: "nat option"
  ReleaseOnCancel :: bool
  Name :: string

record 's LeaderElector =
  config :: "'s Config"
  observedRecord :: Record
  observedRawRecord :: bytes
  observedTime :: go_time
  reportedLeader :: string
  le_clock :: clock
  metrics :: leaderMetricsAdapter
  lockState :: 's
  effects :: "event list"

section \<open>Operations\<close>

text \<open>The elector's lock. \<^verbatim>\<open>New\<close> refuses a nil one, so an elector has one.\<close>

definition lock :: "'s LeaderElector \<Rightarrow> 's Lock" where
  "lock le = the (cLock (config le))"

definition emit :: "event list \<Rightarrow> 's LeaderElector \<Rightarrow> 's LeaderElector" where
  "emit es le = le\<lparr>effects := effects le @ es\<rparr>"

text \<open>
  \<^verbatim>\<open>New\<close>: the checks in the order of the source. \<open>oor\<close> is the platform's result of an
  out-of-range float conversion, \<open>mk\<close> and \<open>fac\<close> the metrics factory, \<open>clk\<close> the real
  clock and \<open>s\<close> the state behind the lock.
\<close>

definition New ::
    "int \<Rightarrow> (nat \<Rightarrow> SwitchMetric) \<Rightarrow> leaderMetricsFactory \<Rightarrow> clock \<Rightarrow> 's \<Rightarrow> 's Config \<Rightarrow>
     go_error + 's LeaderElector" where
  "New oor mk fac clk s lec =
     (if LeaseDuration lec \<le> RenewDeadline lec
      then Inl (ErrText ''leaseDuration must be greater than renewDeadline'')
      else if RenewDeadline lec \<le> jitter_duration oor (RetryPeriod lec)
      then Inl (ErrText ''renewDeadline must be greater than retryPeriod*JitterFactor'')
      else if LeaseDuration lec < 1
      then Inl (ErrText ''leaseDuration must be greater than zero'')
      else if RenewDeadline lec < 1
      then Inl (ErrText ''renewDeadline must be greater than zero'')
      else if RetryPeriod lec < 1
      then Inl (ErrText ''retryPeriod must be greater than zero'')
      else if OnStartedLeading (cCallbacks lec) = None
      then Inl (ErrText ''OnStartedLeading callback must not be nil'')
      else if OnStoppedLeading (cCallbacks lec) = None
      then Inl (ErrText ''OnStoppedLeading callback must not be nil'')
      else if cLock lec = None
      then Inl (ErrText ''Lock must not be nil.'')
      else
        let m = newLeaderMetrics mk fac
        in Inr \<lparr>config = lec, observedRecord = zero_Record, observedRawRecord = [],
                observedTime = zero_time, reportedLeader = [], le_clock = clk, metrics = m,
                lockState = s, effects = map Metric (leaderOff m (Name lec))\<rparr>)"

definition le_Now :: "'s LeaderElector \<Rightarrow> go_time \<times> 's LeaderElector" where
  "le_Now le = (let (t, c) = clock_Now (le_clock le) in (t, le\<lparr>le_clock := c\<rparr>))"

definition setObservedRecord :: "Record \<Rightarrow> 's LeaderElector \<Rightarrow> 's LeaderElector" where
  "setObservedRecord r le =
     (let (t, le') = le_Now (le\<lparr>observedRecord := r\<rparr>) in le'\<lparr>observedTime := t\<rparr>)"

definition getObservedRecord :: "'s LeaderElector \<Rightarrow> Record" where
  "getObservedRecord le = observedRecord le"

definition GetLeader :: "'s LeaderElector \<Rightarrow> string" where
  "GetLeader le = HolderIdentity (getObservedRecord le)"

definition IsLeader :: "'s LeaderElector \<Rightarrow> bool" where
  "IsLeader le \<longleftrightarrow> HolderIdentity (getObservedRecord le) = Identity (lock le) (lockState le)"

text \<open>
  The parts of \<^verbatim>\<open>tryAcquireOrRenew\<close>: the record it starts from, the observation of the
  record that \<^verbatim>\<open>Get\<close> returned, the guard that leaves an unexpired lease of another client
  alone, and the correction of the record before the update.
\<close>

definition defaultRecord :: "'s LeaderElector \<Rightarrow> go_time \<Rightarrow> Record" where
  "defaultRecord le now =
     \<lparr>HolderIdentity = Identity (lock le) (lockState le),
      LeaseDurationMilliSeconds = LeaseDuration (config le) sdiv Millisecond,
      AcquireTime = UnixMilli now, RenewTime = UnixMilli now, LeaderTransitions = 0\<rparr>"

definition observe :: "Record \<Rightarrow> bytes \<Rightarrow> 's LeaderElector \<Rightarrow> 's LeaderElector" where
  "observe old raw le =
     (if observedRawRecord le \<noteq> raw
      then (setObservedRecord old le)\<lparr>observedRawRecord := raw\<rparr>
      else le)"

definition leaseRunning :: "Record \<Rightarrow> go_time \<Rightarrow> 's LeaderElector \<Rightarrow> bool" where
  "leaseRunning old now le \<longleftrightarrow>
     time_After (time_Add (observedTime le) (i64 (Millisecond * LeaseDurationMilliSeconds old)))
       now"

definition heldByOther :: "Record \<Rightarrow> go_time \<Rightarrow> 's LeaderElector \<Rightarrow> bool" where
  "heldByOther old now le \<longleftrightarrow>
     0 < length (HolderIdentity old) \<and> leaseRunning old now le \<and> \<not> IsLeader le"

definition correctRecord :: "Record \<Rightarrow> 's LeaderElector \<Rightarrow> Record \<Rightarrow> Record" where
  "correctRecord old le r =
     (if IsLeader le
      then r\<lparr>AcquireTime := AcquireTime old, LeaderTransitions := LeaderTransitions old\<rparr>
      else r\<lparr>LeaderTransitions := i64 (LeaderTransitions old + 1)\<rparr>)"

definition tryAcquireOrRenew ::
    "ctx \<Rightarrow> 's LeaderElector \<Rightarrow> bool \<times> 's LeaderElector" where
  "tryAcquireOrRenew c le0 =
     (let L = lock le0;
          (now, le1) = le_Now le0;
          r = defaultRecord le1 now;
          (got, s1) = Get L c (lockState le1);
          le2 = le1\<lparr>lockState := s1\<rparr>
      in case got of
           Inl err \<Rightarrow>
             if \<not> errors_Is err ErrNotExist then (False, le2)
             else (case Create L c r (lockState le2) of
                     (Some e, s2) \<Rightarrow> (False, le2\<lparr>lockState := s2\<rparr>)
                   | (None, s2) \<Rightarrow> (True, setObservedRecord r (le2\<lparr>lockState := s2\<rparr>)))
         | Inr (old, raw) \<Rightarrow>
             let le3 = observe old raw le2
             in if heldByOther old now le3 then (False, le3)
                else
                  let r' = correctRecord old le3 r
                  in (case Update L c r' (lockState le3) of
                        (Some e, s2) \<Rightarrow> (False, le3\<lparr>lockState := s2\<rparr>)
                      | (None, s2) \<Rightarrow> (True, setObservedRecord r' (le3\<lparr>lockState := s2\<rparr>))))"

definition releaseRecord :: "'s LeaderElector \<Rightarrow> go_time \<Rightarrow> Record" where
  "releaseRecord le now =
     \<lparr>HolderIdentity = HolderIdentity (observedRecord le),
      LeaseDurationMilliSeconds = 1,
      AcquireTime = UnixMilli now, RenewTime = UnixMilli now,
      LeaderTransitions = LeaderTransitions (observedRecord le)\<rparr>"

definition release :: "'s LeaderElector \<Rightarrow> bool \<times> 's LeaderElector" where
  "release le0 =
     (if \<not> IsLeader le0 then (True, le0)
      else
        let (now, le1) = le_Now le0;
            r = releaseRecord le1 now
        in (case Update (lock le1) context_TODO r (lockState le1) of
              (Some e, s) \<Rightarrow> (False, le1\<lparr>lockState := s\<rparr>)
            | (None, s) \<Rightarrow> (True, setObservedRecord r (le1\<lparr>lockState := s\<rparr>))))"

definition maybeReportTransition :: "'s LeaderElector \<Rightarrow> 's LeaderElector" where
  "maybeReportTransition le =
     (if HolderIdentity (observedRecord le) = reportedLeader le then le
      else
        let le' = le\<lparr>reportedLeader := HolderIdentity (observedRecord le)\<rparr>
        in (case OnNewLeader (cCallbacks (config le')) of
              None \<Rightarrow> le'
            | Some f \<Rightarrow> emit [NewLeader f (reportedLeader le')] le'))"

definition Check :: "int \<Rightarrow> 's LeaderElector \<Rightarrow> go_error option \<times> 's LeaderElector" where
  "Check maxTolerableExpiredLease le =
     (if \<not> IsLeader le then (None, le)
      else
        let (d, c) = clock_Since (le_clock le) (observedTime le);
            le' = le\<lparr>le_clock := c\<rparr>
        in if i64 (LeaseDuration (config le') + maxTolerableExpiredLease) < d
           then (Some (ErrText (''failed election to renew leadership on lease '' @
                   Name (config le'))), le')
           else (None, le'))"

lemmas [elector_defs] = lock_def emit_def le_Now_def setObservedRecord_def getObservedRecord_def
  GetLeader_def IsLeader_def defaultRecord_def observe_def leaseRunning_def heldByOther_def
  correctRecord_def releaseRecord_def

section \<open>Bookkeeping\<close>

named_theorems elector_frame \<comment> \<open>what an operation leaves alone\<close>

lemma le_Now_simps [simp]:
  "fst (le_Now le) = readings (le_clock le) (tick (le_clock le))"
  "config (snd (le_Now le)) = config le"
  "lock (snd (le_Now le)) = lock le"
  "lockState (snd (le_Now le)) = lockState le"
  "observedRecord (snd (le_Now le)) = observedRecord le"
  "observedRawRecord (snd (le_Now le)) = observedRawRecord le"
  "observedTime (snd (le_Now le)) = observedTime le"
  "reportedLeader (snd (le_Now le)) = reportedLeader le"
  "effects (snd (le_Now le)) = effects le"
  "readings (le_clock (snd (le_Now le))) = readings (le_clock le)"
  "tick (le_clock (snd (le_Now le))) = Suc (tick (le_clock le))"
  by (simp_all add: le_Now_def clock_Now_def lock_def)

lemma setObservedRecord_simps [simp]:
  "observedRecord (setObservedRecord r le) = r"
  "observedTime (setObservedRecord r le) = readings (le_clock le) (tick (le_clock le))"
  "config (setObservedRecord r le) = config le"
  "lock (setObservedRecord r le) = lock le"
  "lockState (setObservedRecord r le) = lockState le"
  "observedRawRecord (setObservedRecord r le) = observedRawRecord le"
  "reportedLeader (setObservedRecord r le) = reportedLeader le"
  "effects (setObservedRecord r le) = effects le"
  "readings (le_clock (setObservedRecord r le)) = readings (le_clock le)"
  "tick (le_clock (setObservedRecord r le)) = Suc (tick (le_clock le))"
  by (simp_all add: setObservedRecord_def le_Now_def clock_Now_def lock_def)

lemma lock_cong_simps [simp]:
  "lock (le\<lparr>lockState := s\<rparr>) = lock le"
  "lock (le\<lparr>observedRawRecord := raw\<rparr>) = lock le"
  by (simp_all add: lock_def)

lemma observe_simps [simp]:
  "config (observe old raw le) = config le"
  "lock (observe old raw le) = lock le"
  "lockState (observe old raw le) = lockState le"
  "observedRawRecord (observe old raw le) = raw"
  "reportedLeader (observe old raw le) = reportedLeader le"
  "effects (observe old raw le) = effects le"
  "readings (le_clock (observe old raw le)) = readings (le_clock le)"
  by (simp_all add: observe_def)

lemma observe_changed:
  "observedRawRecord le \<noteq> raw \<Longrightarrow> observedRecord (observe old raw le) = old"
  "observedRawRecord le \<noteq> raw \<Longrightarrow>
   observedTime (observe old raw le) = readings (le_clock le) (tick (le_clock le))"
  by (simp_all add: observe_def)

lemma observe_unchanged: "observedRawRecord le = raw \<Longrightarrow> observe old raw le = le"
  by (simp add: observe_def)

lemma defaultRecord_simps [simp]:
  "HolderIdentity (defaultRecord le now) = Identity (lock le) (lockState le)"
  "AcquireTime (defaultRecord le now) = UnixMilli now"
  "RenewTime (defaultRecord le now) = UnixMilli now"
  "LeaderTransitions (defaultRecord le now) = 0"
  "LeaseDurationMilliSeconds (defaultRecord le now) = LeaseDuration (config le) sdiv Millisecond"
  by (simp_all add: defaultRecord_def)

lemma correctRecord_simps [simp]:
  "HolderIdentity (correctRecord old le r) = HolderIdentity r"
  "LeaseDurationMilliSeconds (correctRecord old le r) = LeaseDurationMilliSeconds r"
  "RenewTime (correctRecord old le r) = RenewTime r"
  by (simp_all add: correctRecord_def)

lemma IsLeader_iff:
  "IsLeader le \<longleftrightarrow> HolderIdentity (observedRecord le) = Identity (lock le) (lockState le)"
  by (simp add: IsLeader_def getObservedRecord_def)

section \<open>The branches of an attempt\<close>

text \<open>The elector after the clock reading and the \<^verbatim>\<open>Get\<close> of an attempt.\<close>

definition after_Get :: "'s \<Rightarrow> 's LeaderElector \<Rightarrow> 's LeaderElector" where
  "after_Get s1 le = (snd (le_Now le))\<lparr>lockState := s1\<rparr>"

definition attempt_time :: "'s LeaderElector \<Rightarrow> go_time" where
  "attempt_time le = fst (le_Now le)"

lemma after_Get_simps [simp]:
  "config (after_Get s le) = config le"
  "lock (after_Get s le) = lock le"
  "lockState (after_Get s le) = s"
  "observedRecord (after_Get s le) = observedRecord le"
  "observedRawRecord (after_Get s le) = observedRawRecord le"
  "observedTime (after_Get s le) = observedTime le"
  "reportedLeader (after_Get s le) = reportedLeader le"
  "effects (after_Get s le) = effects le"
  "readings (le_clock (after_Get s le)) = readings (le_clock le)"
  "tick (le_clock (after_Get s le)) = Suc (tick (le_clock le))"
  by (simp_all add: after_Get_def)

text \<open>The record an attempt writes.\<close>

definition freshRecord :: "'s LeaderElector \<Rightarrow> Record" where
  "freshRecord le = defaultRecord (snd (le_Now le)) (attempt_time le)"

lemma freshRecord_simps [simp]:
  "HolderIdentity (freshRecord le) = Identity (lock le) (lockState le)"
  "AcquireTime (freshRecord le) = UnixMilli (attempt_time le)"
  "RenewTime (freshRecord le) = UnixMilli (attempt_time le)"
  "LeaderTransitions (freshRecord le) = 0"
  "LeaseDurationMilliSeconds (freshRecord le) = LeaseDuration (config le) sdiv Millisecond"
  by (simp_all add: freshRecord_def)

lemma tryAcquireOrRenew_unfold:
  "tryAcquireOrRenew c le =
     (case Get (lock le) c (lockState le) of
        (Inl err, s1) \<Rightarrow>
          if \<not> errors_Is err ErrNotExist then (False, after_Get s1 le)
          else (case Create (lock le) c (freshRecord le) s1 of
                  (Some e, s2) \<Rightarrow> (False, (after_Get s1 le)\<lparr>lockState := s2\<rparr>)
                | (None, s2) \<Rightarrow>
                    (True, setObservedRecord (freshRecord le) ((after_Get s1 le)\<lparr>lockState := s2\<rparr>)))
      | (Inr (old, raw), s1) \<Rightarrow>
          let le3 = observe old raw (after_Get s1 le)
          in if heldByOther old (attempt_time le) le3 then (False, le3)
             else
               let r' = correctRecord old le3 (freshRecord le)
               in (case Update (lock le) c r' s1 of
                     (Some e, s2) \<Rightarrow> (False, le3\<lparr>lockState := s2\<rparr>)
                   | (None, s2) \<Rightarrow> (True, setObservedRecord r' (le3\<lparr>lockState := s2\<rparr>))))"
  by (simp add: tryAcquireOrRenew_def freshRecord_def attempt_time_def after_Get_def
      split_beta Let_def split: sum.splits option.splits prod.splits)

lemma tryAcquireOrRenew_cases:
  assumes "tryAcquireOrRenew c le = (b, le')"
  obtains
    (GetError) err s1 where "Get (lock le) c (lockState le) = (Inl err, s1)"
      and "\<not> errors_Is err ErrNotExist" and "\<not> b" and "le' = after_Get s1 le"
  | (CreateError) err s1 e s2 where "Get (lock le) c (lockState le) = (Inl err, s1)"
      and "errors_Is err ErrNotExist" and "Create (lock le) c (freshRecord le) s1 = (Some e, s2)"
      and "\<not> b" and "le' = (after_Get s1 le)\<lparr>lockState := s2\<rparr>"
  | (Created) err s1 s2 where "Get (lock le) c (lockState le) = (Inl err, s1)"
      and "errors_Is err ErrNotExist" and "Create (lock le) c (freshRecord le) s1 = (None, s2)"
      and "b" and "le' = setObservedRecord (freshRecord le) ((after_Get s1 le)\<lparr>lockState := s2\<rparr>)"
  | (Held) old raw s1 where "Get (lock le) c (lockState le) = (Inr (old, raw), s1)"
      and "heldByOther old (attempt_time le) (observe old raw (after_Get s1 le))"
      and "\<not> b" and "le' = observe old raw (after_Get s1 le)"
  | (UpdateError) old raw s1 e s2 where "Get (lock le) c (lockState le) = (Inr (old, raw), s1)"
      and "\<not> heldByOther old (attempt_time le) (observe old raw (after_Get s1 le))"
      and "Update (lock le) c
             (correctRecord old (observe old raw (after_Get s1 le)) (freshRecord le)) s1 =
             (Some e, s2)"
      and "\<not> b" and "le' = (observe old raw (after_Get s1 le))\<lparr>lockState := s2\<rparr>"
  | (Updated) old raw s1 s2 where "Get (lock le) c (lockState le) = (Inr (old, raw), s1)"
      and "\<not> heldByOther old (attempt_time le) (observe old raw (after_Get s1 le))"
      and "Update (lock le) c
             (correctRecord old (observe old raw (after_Get s1 le)) (freshRecord le)) s1 =
             (None, s2)"
      and "b"
      and "le' = setObservedRecord
             (correctRecord old (observe old raw (after_Get s1 le)) (freshRecord le))
             ((observe old raw (after_Get s1 le))\<lparr>lockState := s2\<rparr>)"
  using assms unfolding tryAcquireOrRenew_unfold Let_def
  by (auto split: prod.splits sum.splits option.splits if_splits)

lemma tryAcquireOrRenew_frame [elector_frame]:
  assumes "tryAcquireOrRenew c le = (b, le')"
  shows "config le' = config le" and "lock le' = lock le"
    and "reportedLeader le' = reportedLeader le" and "effects le' = effects le"
    and "readings (le_clock le') = readings (le_clock le)"
  using assms by (auto elim!: tryAcquireOrRenew_cases)

end
