(* ===== verification/Go_Json.thy ===== *)
theory Go_Json
  imports Lock_Interface
begin

text \<open>
  \<^verbatim>\<open>encoding/json\<close> on the election record: \<^verbatim>\<open>json.Marshal\<close> of a \<^verbatim>\<open>Record\<close>
  value and \<^verbatim>\<open>json.Unmarshal\<close> into one, over byte strings, with the field names of the
  struct tags in \<^verbatim>\<open>interface.go\<close>. \<^verbatim>\<open>Marshal\<close> escapes the identity as the standard
  library does (HTML-safe, UTF-8 checked).
\<close>

section \<open>Bytes and decimal numbers\<close>

abbreviation byte :: "char \<Rightarrow> nat" where
  "byte c \<equiv> of_char c"

definition digit_char :: "nat \<Rightarrow> char" where
  "digit_char d = char_of (48 + d)"

fun show_nat :: "nat \<Rightarrow> bytes" where
  "show_nat n = (if n < 10 then [digit_char n] else show_nat (n div 10) @ [digit_char (n mod 10)])"

declare show_nat.simps [simp del]

text \<open>\<^verbatim>\<open>strconv.AppendInt\<close> in base 10.\<close>

definition show_int :: "int \<Rightarrow> bytes" where
  "show_int i = (if i < 0 then CHR ''-'' # show_nat (nat (- i)) else show_nat (nat i))"

section \<open>UTF-8\<close>

text \<open>
  The size of the encoded rune at the front, as \<^verbatim>\<open>utf8.DecodeRune\<close> determines it;
  \<open>None\<close> where it reports an invalid encoding (of width one).
\<close>

definition cont :: "char \<Rightarrow> bool" where
  "cont c \<longleftrightarrow> 128 \<le> byte c \<and> byte c \<le> 191"

definition rune_size :: "bytes \<Rightarrow> nat option" where
  "rune_size bs =
     (case bs of
        [] \<Rightarrow> None
      | b0 # r \<Rightarrow>
          if byte b0 < 128 then Some 1
          else if 194 \<le> byte b0 \<and> byte b0 \<le> 223 then
            (case r of b1 # _ \<Rightarrow> if cont b1 then Some 2 else None | _ \<Rightarrow> None)
          else if 224 \<le> byte b0 \<and> byte b0 \<le> 239 then
            (case r of
               b1 # b2 # _ \<Rightarrow>
                 if cont b1 \<and> cont b2 \<and> (byte b0 = 224 \<longrightarrow> 160 \<le> byte b1) \<and>
                    (byte b0 = 237 \<longrightarrow> byte b1 \<le> 159)
                 then Some 3 else None
             | _ \<Rightarrow> None)
          else if 240 \<le> byte b0 \<and> byte b0 \<le> 244 then
            (case r of
               b1 # b2 # b3 # _ \<Rightarrow>
                 if cont b1 \<and> cont b2 \<and> cont b3 \<and> (byte b0 = 240 \<longrightarrow> 144 \<le> byte b1) \<and>
                    (byte b0 = 244 \<longrightarrow> byte b1 \<le> 143)
                 then Some 4 else None
             | _ \<Rightarrow> None)
          else None)"

lemma rune_size_bounds:
  assumes "rune_size bs = Some n"
  shows "0 < n" and "n \<le> length bs"
  using assms by (auto simp: rune_size_def split: list.splits if_splits)

function (sequential) valid_utf8 :: "bytes \<Rightarrow> bool" where
  "valid_utf8 [] = True"
| "valid_utf8 (b # bs) =
     (case rune_size (b # bs) of
        None \<Rightarrow> False
      | Some n \<Rightarrow> valid_utf8 (drop (n - 1) bs))"
  by pat_completeness auto
termination
  by (relation "measure length") auto

section \<open>Marshal\<close>

definition hex_digit :: "nat \<Rightarrow> char" where
  "hex_digit d = (if d < 10 then char_of (48 + d) else char_of (87 + d))"

definition backslash :: char where
  "backslash = CHR 0x5C"

definition quote :: char where
  "quote = CHR 0x22"

text \<open>The single bytes that are copied unchanged (\<^verbatim>\<open>htmlSafeSet\<close>).\<close>

definition html_safe :: "char \<Rightarrow> bool" where
  "html_safe c \<longleftrightarrow>
     32 \<le> byte c \<and> byte c < 128 \<and> c \<noteq> quote \<and> c \<noteq> backslash \<and>
     c \<noteq> CHR ''<'' \<and> c \<noteq> CHR ''>'' \<and> c \<noteq> CHR ''&''"

definition escape_byte :: "char \<Rightarrow> bytes" where
  "escape_byte c =
     (if c = backslash \<or> c = quote then [backslash, c]
      else if c = CHR 0x0A then [backslash, CHR ''n'']
      else if c = CHR 0x0D then [backslash, CHR ''r'']
      else if c = CHR 0x09 then [backslash, CHR ''t'']
      else [backslash, CHR ''u'', CHR ''0'', CHR ''0'', hex_digit (byte c div 16), hex_digit (byte c mod 16)])"

text \<open>The rune at the front, encoded: U+2028 and U+2029 are escaped, others copied.\<close>

definition escape_rune :: "bytes \<Rightarrow> bytes" where
  "escape_rune u =
     (if u = [CHR 0xE2, CHR 0x80, CHR 0xA8] then backslash # ''u2028''
      else if u = [CHR 0xE2, CHR 0x80, CHR 0xA9] then backslash # ''u2029''
      else u)"

function (sequential) json_escape :: "bytes \<Rightarrow> bytes" where
  "json_escape [] = []"
| "json_escape (b # bs) =
     (if byte b < 128 then (if html_safe b then [b] else escape_byte b) @ json_escape bs
      else case rune_size (b # bs) of
             None \<Rightarrow> (backslash # ''ufffd'') @ json_escape bs
           | Some n \<Rightarrow> escape_rune (take n (b # bs)) @ json_escape (drop (n - 1) bs))"
  by pat_completeness auto
termination
  by (relation "measure length") auto

definition json_string :: "bytes \<Rightarrow> bytes" where
  "json_string s = quote # json_escape s @ [quote]"

definition json_key :: "bytes \<Rightarrow> bytes" where
  "json_key k = json_string k @ [CHR '':'']"

definition json_Marshal :: "Record \<Rightarrow> go_error + bytes" where
  "json_Marshal r =
     Inr (''{'' @ json_key ''holderIdentity'' @ json_string (HolderIdentity r) @
          '','' @ json_key ''leaseDurationMilliSeconds'' @ show_int (LeaseDurationMilliSeconds r) @
          '','' @ json_key ''acquireTime'' @ show_int (AcquireTime r) @
          '','' @ json_key ''renewTime'' @ show_int (RenewTime r) @
          '','' @ json_key ''leaderTransitions'' @ show_int (LeaderTransitions r) @
          ''}'')"

text \<open>The bytes of a record (marshalling a record does not fail).\<close>

definition json_bytes :: "Record \<Rightarrow> bytes" where
  "json_bytes r = (case json_Marshal r of Inr b \<Rightarrow> b | Inl _ \<Rightarrow> [])"

lemma json_Marshal_bytes: "json_Marshal r = Inr (json_bytes r)"
  by (simp add: json_bytes_def json_Marshal_def)

end
