(* ===== verification/Go_Json_Decode.thy ===== *)
theory Go_Json_Decode
  imports Go_Json
begin

text \<open>
  \<^verbatim>\<open>json.Unmarshal\<close> into an election record: the JSON grammar over bytes (with the
  nesting limit of the standard library), the unquoting of string literals, and the storing
  of the members of an object into the fields of the record (names compared without case,
  unknown names ignored, \<^verbatim>\<open>null\<close> leaving a field alone, a value of another type or an
  integer out of range reported as an error). The main result is that \<^verbatim>\<open>Unmarshal\<close>
  inverts \<^verbatim>\<open>Marshal\<close>.
\<close>

section \<open>Scanning\<close>

definition is_ws :: "char \<Rightarrow> bool" where
  "is_ws c \<longleftrightarrow> c = CHR '' '' \<or> c = CHR 0x09 \<or> c = CHR 0x0A \<or> c = CHR 0x0D"

definition skip_ws :: "bytes \<Rightarrow> bytes" where
  "skip_ws bs = dropWhile is_ws bs"

definition is_digit :: "char \<Rightarrow> bool" where
  "is_digit c \<longleftrightarrow> 48 \<le> byte c \<and> byte c \<le> 57"

definition is_hex :: "char \<Rightarrow> bool" where
  "is_hex c \<longleftrightarrow> is_digit c \<or> 97 \<le> byte c \<and> byte c \<le> 102 \<or> 65 \<le> byte c \<and> byte c \<le> 70"

definition hex_val :: "char \<Rightarrow> nat" where
  "hex_val c = (if is_digit c then byte c - 48 else if 97 \<le> byte c then byte c - 87 else byte c - 55)"

text \<open>The escape characters after a backslash, other than the \<^verbatim>\<open>u\<close> of a hex escape.\<close>

definition simple_escape :: "char \<Rightarrow> bool" where
  "simple_escape c \<longleftrightarrow> c \<in> set (quote # backslash # ''/bfnrt'')"

text \<open>
  A string literal after its opening quote: the raw text up to the closing quote, and what
  follows.
\<close>

fun scan_string :: "bytes \<Rightarrow> (bytes \<times> bytes) option" where
  "scan_string [] = None"
| "scan_string (c # cs) =
     (if c = quote then Some ([], cs)
      else if c = backslash then
        (case cs of
           e # r \<Rightarrow>
             if simple_escape e then map_option (\<lambda>(x, y). (c # e # x, y)) (scan_string r)
             else if e = CHR ''u'' then
               (case r of
                  h1 # h2 # h3 # h4 # r' \<Rightarrow>
                    if is_hex h1 \<and> is_hex h2 \<and> is_hex h3 \<and> is_hex h4
                    then map_option (\<lambda>(x, y). (c # e # h1 # h2 # h3 # h4 # x, y)) (scan_string r')
                    else None
                | _ \<Rightarrow> None)
             else None
         | [] \<Rightarrow> None)
      else if byte c < 32 then None
      else map_option (\<lambda>(x, y). (c # x, y)) (scan_string cs))"

text \<open>The UTF-8 encoding of a code point.\<close>

definition encode_rune :: "nat \<Rightarrow> bytes" where
  "encode_rune r =
     (if r < 128 then [char_of r]
      else if r < 2048 then [char_of (192 + r div 64), char_of (128 + r mod 64)]
      else if r < 65536 then
        [char_of (224 + r div 4096), char_of (128 + r div 64 mod 64), char_of (128 + r mod 64)]
      else
        [char_of (240 + r div 262144), char_of (128 + r div 4096 mod 64),
         char_of (128 + r div 64 mod 64), char_of (128 + r mod 64)])"

definition hex4 :: "bytes \<Rightarrow> nat" where
  "hex4 hs = foldl (\<lambda>a h. a * 16 + hex_val h) 0 (take 4 hs)"

text \<open>\<^verbatim>\<open>\uXXXX\<close> at the front (\<^verbatim>\<open>getu4\<close>).\<close>

definition getu4 :: "bytes \<Rightarrow> nat option" where
  "getu4 bs =
     (case bs of
        b # u # h1 # h2 # h3 # h4 # _ \<Rightarrow>
          if b = backslash \<and> u = CHR ''u'' \<and> is_hex h1 \<and> is_hex h2 \<and> is_hex h3 \<and> is_hex h4
          then Some (hex4 [h1, h2, h3, h4]) else None
      | _ \<Rightarrow> None)"

definition unescape :: "char \<Rightarrow> char" where
  "unescape e =
     (if e = CHR ''b'' then CHR 0x08 else if e = CHR ''f'' then CHR 0x0C
      else if e = CHR ''n'' then CHR 0x0A else if e = CHR ''r'' then CHR 0x0D
      else if e = CHR ''t'' then CHR 0x09 else e)"

text \<open>
  The text of a scanned literal. A surrogate pair is one rune; a lone surrogate and an
  invalid byte become U+FFFD.
\<close>

function (sequential) unquote :: "bytes \<Rightarrow> bytes" where
  "unquote [] = []"
| "unquote (c # cs) =
     (if c = backslash then
        (case getu4 (c # cs) of
           Some rr \<Rightarrow>
             if 55296 \<le> rr \<and> rr < 57344 then
               (case getu4 (drop 5 cs) of
                  Some rr1 \<Rightarrow>
                    if rr < 56320 \<and> 56320 \<le> rr1 \<and> rr1 < 57344
                    then encode_rune ((rr - 55296) * 1024 + (rr1 - 56320) + 65536) @
                           unquote (drop 11 cs)
                    else encode_rune 65533 @ unquote (drop 5 cs)
                | None \<Rightarrow> encode_rune 65533 @ unquote (drop 5 cs))
             else encode_rune rr @ unquote (drop 5 cs)
         | None \<Rightarrow> (case cs of [] \<Rightarrow> [] | e # r \<Rightarrow> unescape e # unquote r))
      else if byte c < 128 then c # unquote cs
      else case rune_size (c # cs) of
             None \<Rightarrow> encode_rune 65533 @ unquote cs
           | Some n \<Rightarrow> take n (c # cs) @ unquote (drop (n - 1) cs))"
  by pat_completeness auto
termination
  by (relation "measure length") auto

text \<open>A number literal: the literal and what follows.\<close>

definition scan_digits :: "bytes \<Rightarrow> (bytes \<times> bytes) option" where
  "scan_digits bs =
     (if takeWhile is_digit bs = [] then None
      else Some (takeWhile is_digit bs, dropWhile is_digit bs))"

definition scan_frac :: "bytes \<Rightarrow> (bytes \<times> bytes) option" where
  "scan_frac bs =
     (case bs of
        c # r \<Rightarrow>
          if c = CHR ''.'' then map_option (\<lambda>(d, r'). (c # d, r')) (scan_digits r)
          else Some ([], bs)
      | [] \<Rightarrow> Some ([], bs))"

definition scan_exp :: "bytes \<Rightarrow> (bytes \<times> bytes) option" where
  "scan_exp bs =
     (case bs of
        c # r \<Rightarrow>
          if c = CHR ''e'' \<or> c = CHR ''E'' then
            (case r of
               s # r1 \<Rightarrow>
                 if s = CHR ''+'' \<or> s = CHR ''-''
                 then map_option (\<lambda>(d, r'). (c # s # d, r')) (scan_digits r1)
                 else map_option (\<lambda>(d, r'). (c # d, r')) (scan_digits r)
             | [] \<Rightarrow> None)
          else Some ([], bs)
      | [] \<Rightarrow> Some ([], bs))"

definition scan_int :: "bytes \<Rightarrow> (bytes \<times> bytes) option" where
  "scan_int bs =
     (case bs of
        c # r \<Rightarrow> if c = CHR ''0'' then Some ([c], r) else scan_digits bs
      | [] \<Rightarrow> None)"

definition scan_sign :: "bytes \<Rightarrow> bytes \<times> bytes" where
  "scan_sign bs =
     (case bs of c # r \<Rightarrow> if c = CHR ''-'' then ([c], r) else ([], bs) | [] \<Rightarrow> ([], []))"

definition scan_number :: "bytes \<Rightarrow> (bytes \<times> bytes) option" where
  "scan_number bs =
     (let (sg, r0) = scan_sign bs
      in case scan_int r0 of None \<Rightarrow> None | Some (i, r1) \<Rightarrow>
         (case scan_frac r1 of None \<Rightarrow> None | Some (f, r2) \<Rightarrow>
          (case scan_exp r2 of None \<Rightarrow> None | Some (e, r3) \<Rightarrow> Some (sg @ i @ f @ e, r3))))"

section \<open>Values\<close>

datatype json =
    JNull
  | JBool bool
  | JNum bytes
  | JStr bytes
  | JArr "json list"
  | JObj "(bytes \<times> json) list"

definition max_depth :: nat where
  "max_depth = 10000"

definition literal :: "bytes \<Rightarrow> json \<Rightarrow> bytes \<Rightarrow> (json \<times> bytes) option" where
  "literal w v bs = (if take (length w) bs = w then Some (v, drop (length w) bs) else None)"

text \<open>
  The grammar by recursive descent. At most two nested calls start at the same byte, so a fuel
  above twice the length of the input is never used up (\<open>p_value_fuel\<close> of \<open>Go_Json_Fuel\<close>).
\<close>

fun p_value :: "nat \<Rightarrow> nat \<Rightarrow> bytes \<Rightarrow> (json \<times> bytes) option"
  and p_members :: "nat \<Rightarrow> nat \<Rightarrow> bytes \<Rightarrow> ((bytes \<times> json) list \<times> bytes) option"
  and p_elements :: "nat \<Rightarrow> nat \<Rightarrow> bytes \<Rightarrow> (json list \<times> bytes) option" where
  "p_value 0 d bs = None"
| "p_value (Suc n) d bs =
     (case skip_ws bs of
        [] \<Rightarrow> None
      | c # cs \<Rightarrow>
          if c = CHR ''{'' then
            (if max_depth \<le> d then None
             else case skip_ws cs of
                    [] \<Rightarrow> None
                  | x # r \<Rightarrow> if x = CHR ''}'' then Some (JObj [], r)
                             else map_option (\<lambda>(ms, r'). (JObj ms, r')) (p_members n (Suc d) (x # r)))
          else if c = CHR ''['' then
            (if max_depth \<le> d then None
             else case skip_ws cs of
                    [] \<Rightarrow> None
                  | x # r \<Rightarrow> if x = CHR '']'' then Some (JArr [], r)
                             else map_option (\<lambda>(vs, r'). (JArr vs, r')) (p_elements n (Suc d) (x # r)))
          else if c = quote then map_option (\<lambda>(t, r). (JStr (unquote t), r)) (scan_string cs)
          else if c = CHR ''t'' then literal ''true'' (JBool True) (c # cs)
          else if c = CHR ''f'' then literal ''false'' (JBool False) (c # cs)
          else if c = CHR ''n'' then literal ''null'' JNull (c # cs)
          else map_option (\<lambda>(t, r). (JNum t, r)) (scan_number (c # cs)))"
| "p_members 0 d bs = None"
| "p_members (Suc n) d bs =
     (case skip_ws bs of
        [] \<Rightarrow> None
      | q # cs \<Rightarrow>
          if q \<noteq> quote then None
          else case scan_string cs of None \<Rightarrow> None | Some (k, r1) \<Rightarrow>
            (case skip_ws r1 of [] \<Rightarrow> None | x # r2 \<Rightarrow>
              if x \<noteq> CHR '':'' then None
              else case p_value n d r2 of None \<Rightarrow> None | Some (v, r3) \<Rightarrow>
                (case skip_ws r3 of [] \<Rightarrow> None | y # r4 \<Rightarrow>
                  if y = CHR ''}'' then Some ([(unquote k, v)], r4)
                  else if y = CHR '','' then
                    map_option (\<lambda>(ms, r'). ((unquote k, v) # ms, r')) (p_members n d r4)
                  else None)))"
| "p_elements 0 d bs = None"
| "p_elements (Suc n) d bs =
     (case p_value n d bs of None \<Rightarrow> None | Some (v, r1) \<Rightarrow>
        (case skip_ws r1 of [] \<Rightarrow> None | y # r2 \<Rightarrow>
          if y = CHR '']'' then Some ([v], r2)
          else if y = CHR '','' then map_option (\<lambda>(vs, r'). (v # vs, r')) (p_elements n d r2)
          else None))"

declare p_value.simps [simp del] p_members.simps [simp del] p_elements.simps [simp del]

definition parse_json :: "bytes \<Rightarrow> json option" where
  "parse_json bs =
     (case p_value (2 * length bs + 1) 0 bs of
        Some (v, r) \<Rightarrow> if skip_ws r = [] then Some v else None
      | None \<Rightarrow> None)"

section \<open>Unmarshal\<close>

definition parse_nat :: "bytes \<Rightarrow> nat" where
  "parse_nat ds = foldl (\<lambda>a c. a * 10 + (byte c - 48)) 0 ds"

text \<open>\<^verbatim>\<open>strconv.ParseInt\<close> of a number literal, in base 10 and 64 bits.\<close>

definition parse_int :: "bytes \<Rightarrow> int option" where
  "parse_int bs =
     (let (sg, ds) = scan_sign bs;
          v = (if sg = [] then int (parse_nat ds) else - int (parse_nat ds))
      in if ds \<noteq> [] \<and> list_all is_digit ds \<and> is_i64 v then Some v else None)"

text \<open>
  Names are compared without case; the Kelvin sign and the long s fold to \<^verbatim>\<open>k\<close> and
  \<^verbatim>\<open>s\<close>.
\<close>

fun fold_name :: "bytes \<Rightarrow> bytes" where
  "fold_name [] = []"
| "fold_name (c # cs) =
     (if c = CHR 0xE2 \<and> take 2 cs = [CHR 0x84, CHR 0xAA] then CHR ''k'' # fold_name (drop 2 cs)
      else if c = CHR 0xC5 \<and> take 1 cs = [CHR 0xBF] then CHR ''s'' # fold_name (drop 1 cs)
      else (if 65 \<le> byte c \<and> byte c \<le> 90 then char_of (byte c + 32) else c) # fold_name cs)"

text \<open>Storing one member; the first component says that no type error was seen so far.\<close>

definition store_int :: "((int \<Rightarrow> int) \<Rightarrow> Record \<Rightarrow> Record) \<Rightarrow> json \<Rightarrow> bool \<times> Record \<Rightarrow> bool \<times> Record" where
  "store_int upd v s =
     (case v of
        JNull \<Rightarrow> s
      | JNum t \<Rightarrow> (case parse_int t of
                    Some i \<Rightarrow> (fst s, upd (\<lambda>_. i) (snd s))
                  | None \<Rightarrow> (False, snd s))
      | _ \<Rightarrow> (False, snd s))"

definition store_string :: "json \<Rightarrow> bool \<times> Record \<Rightarrow> bool \<times> Record" where
  "store_string v s =
     (case v of
        JNull \<Rightarrow> s
      | JStr t \<Rightarrow> (fst s, (snd s)\<lparr>HolderIdentity := t\<rparr>)
      | _ \<Rightarrow> (False, snd s))"

definition store_member :: "bool \<times> Record \<Rightarrow> bytes \<times> json \<Rightarrow> bool \<times> Record" where
  "store_member s m =
     (let k = fold_name (fst m); v = snd m
      in if k = ''holderidentity'' then store_string v s
         else if k = ''leasedurationmilliseconds''
         then store_int LeaseDurationMilliSeconds_update v s
         else if k = ''acquiretime'' then store_int AcquireTime_update v s
         else if k = ''renewtime'' then store_int RenewTime_update v s
         else if k = ''leadertransitions'' then store_int LeaderTransitions_update v s
         else s)"

definition json_Unmarshal :: "bytes \<Rightarrow> Record \<Rightarrow> go_error + Record" where
  "json_Unmarshal bs r0 =
     (case parse_json bs of
        None \<Rightarrow> Inl (ErrText ''json: syntax error'')
      | Some JNull \<Rightarrow> Inr r0
      | Some (JObj ms) \<Rightarrow>
          (case foldl store_member (True, r0) ms of
             (ok, r) \<Rightarrow> if ok then Inr r else Inl (ErrText ''json: cannot unmarshal into field''))
      | Some _ \<Rightarrow> Inl (ErrText ''json: cannot unmarshal into Record''))"

section \<open>Strings round trip\<close>

lemma byte_less [simp]: "byte c < 256"
  by (rule nat_of_char_less_256)

text \<open>The four shapes of an encoded rune.\<close>

lemma rune_size_cases:
  assumes "rune_size bs = Some n"
  obtains
    b0 r where "bs = b0 # r" and "n = 1" and "byte b0 < 128"
  | b0 b1 r where "bs = b0 # b1 # r" and "n = 2" and "194 \<le> byte b0" and "byte b0 \<le> 223"
      and "cont b1"
  | b0 b1 b2 r where "bs = b0 # b1 # b2 # r" and "n = 3" and "224 \<le> byte b0" and "byte b0 \<le> 239"
      and "cont b1" and "cont b2" and "byte b0 = 224 \<longrightarrow> 160 \<le> byte b1"
      and "byte b0 = 237 \<longrightarrow> byte b1 \<le> 159"
  | b0 b1 b2 b3 r where "bs = b0 # b1 # b2 # b3 # r" and "n = 4" and "240 \<le> byte b0"
      and "byte b0 \<le> 244" and "cont b1" and "cont b2" and "cont b3"
      and "byte b0 = 240 \<longrightarrow> 144 \<le> byte b1" and "byte b0 = 244 \<longrightarrow> byte b1 \<le> 143"
  using assms by (auto simp: rune_size_def split: list.splits if_splits)

lemma rune_size_take:
  "rune_size bs = Some n \<Longrightarrow> rune_size (take n bs @ rest) = Some n"
  by (erule rune_size_cases) (simp_all add: rune_size_def numeral_eq_Suc)

lemma rune_size_high:
  "rune_size (b # bs) = Some n \<Longrightarrow> \<not> byte b < 128 \<Longrightarrow> \<forall>c \<in> set (take n (b # bs)). 128 \<le> byte c"
  by (erule rune_size_cases) (auto simp: cont_def numeral_eq_Suc)

lemma byte_quote [simp]: "byte quote = 34" "byte backslash = 92" "quote \<noteq> backslash" "backslash \<noteq> quote"
  by (simp_all add: quote_def backslash_def)

lemma scan_string_plain:
  assumes "\<forall>c \<in> set u. 32 \<le> byte c \<and> c \<noteq> quote \<and> c \<noteq> backslash"
    and "scan_string rest = Some (x, y)"
  shows "scan_string (u @ rest) = Some (u @ x, y)"
  using assms by (induction u) auto

lemma is_hex_hex_digit [simp]: "d < 16 \<Longrightarrow> is_hex (hex_digit d)"
  by (auto simp: is_hex_def is_digit_def hex_digit_def)

lemma hex_val_hex_digit [simp]: "d < 16 \<Longrightarrow> hex_val (hex_digit d) = d"
  by (auto simp: hex_val_def is_digit_def hex_digit_def)

lemma hex_0 [simp]: "is_hex CHR ''0''" "hex_val CHR ''0'' = 0"
  by (simp_all add: is_hex_def hex_val_def is_digit_def)

lemma simple_escape_simps [simp]:
  "simple_escape quote" "simple_escape backslash" "simple_escape CHR ''n''"
  "simple_escape CHR ''r''" "simple_escape CHR ''t''" "\<not> simple_escape CHR ''u''"
  by (simp_all add: simple_escape_def quote_def backslash_def)

lemma byte_div_16 [simp]: "byte c div 16 < 16"
  using byte_less [of c] by linarith

lemma scan_string_escape_byte:
  "scan_string rest = Some (x, y) \<Longrightarrow>
   scan_string (escape_byte c @ rest) = Some (escape_byte c @ x, y)"
  by (auto simp: escape_byte_def)

lemma scan_string_u:
  assumes "is_hex h1" "is_hex h2" "is_hex h3" "is_hex h4" "scan_string rest = Some (x, y)"
  shows "scan_string (backslash # CHR ''u'' # h1 # h2 # h3 # h4 # rest) =
           Some (backslash # CHR ''u'' # h1 # h2 # h3 # h4 # x, y)"
  using assms by simp

lemma is_hex_chars [simp]:
  "is_hex CHR ''2''" "is_hex CHR ''8''" "is_hex CHR ''9''" "is_hex CHR ''f''" "is_hex CHR ''d''"
  by (simp_all add: is_hex_def is_digit_def)

lemma scan_string_escape_rune:
  assumes "\<forall>c \<in> set u. 128 \<le> byte c" and "scan_string rest = Some (x, y)"
  shows "scan_string (escape_rune u @ rest) = Some (escape_rune u @ x, y)"
proof -
  have "\<forall>c \<in> set u. 32 \<le> byte c \<and> c \<noteq> quote \<and> c \<noteq> backslash"
    using assms(1) by (auto simp: quote_def backslash_def)
  from scan_string_plain [OF this assms(2)] show ?thesis
    using assms(2) by (simp add: escape_rune_def scan_string_u)
qed

lemma scan_string_json_escape: "scan_string (json_escape s @ quote # rest) = Some (json_escape s, rest)"
proof (induction s rule: json_escape.induct)
  case 1
  then show ?case by simp
next
  case (2 b bs)
  show ?case
  proof (cases "byte b < 128")
    case True
    note IH = "2.IH"(1) [OF True]
    show ?thesis
    proof (cases "html_safe b")
      case True
      then have "scan_string (b # json_escape bs @ quote # rest) = Some (b # json_escape bs, rest)"
        using scan_string_plain [OF _ IH, of "[b]"] by (simp add: html_safe_def)
      with \<open>byte b < 128\<close> True show ?thesis by simp
    next
      case False
      with \<open>byte b < 128\<close> show ?thesis using scan_string_escape_byte [OF IH, of b] by simp
    qed
  next
    case False
    show ?thesis
    proof (cases "rune_size (b # bs)")
      case None
      then show ?thesis using False "2.IH"(2) [OF False None] by (simp add: scan_string_u)
    next
      case (Some n)
      have "\<forall>c \<in> set (take n (b # bs)). 128 \<le> byte c" by (rule rune_size_high [OF Some False])
      from scan_string_escape_rune [OF this "2.IH"(3) [OF False Some]] show ?thesis
        using False Some by simp
    qed
  qed
qed

lemma encode_rune_ascii: "byte c < 128 \<Longrightarrow> encode_rune (byte c) = [c]"
  by (simp add: encode_rune_def)

lemma getu4_byte:
  "getu4 (backslash # CHR ''u'' # CHR ''0'' # CHR ''0'' # hex_digit (byte c div 16) #
          hex_digit (byte c mod 16) # rest) = Some (byte c)"
  by (simp add: getu4_def hex4_def)

lemma getu4_simple: "e \<noteq> CHR ''u'' \<Longrightarrow> getu4 (backslash # e # r) = None"
  by (simp add: getu4_def split: list.splits)

lemma unescape_simps [simp]:
  "unescape backslash = backslash" "unescape quote = quote" "unescape CHR ''n'' = CHR 0x0A"
  "unescape CHR ''r'' = CHR 0x0D" "unescape CHR ''t'' = CHR 0x09"
  by (simp_all add: unescape_def backslash_def quote_def)

lemma unquote_escape_byte:
  assumes "byte c < 128"
  shows "unquote (escape_byte c @ rest) = c # unquote rest"
proof -
  have q: "quote \<noteq> CHR ''u''" "backslash \<noteq> CHR ''u''"
    by (simp_all add: quote_def backslash_def)
  show ?thesis
    using assms q by (auto simp: escape_byte_def getu4_byte getu4_simple encode_rune_ascii)
qed

lemma unquote_rune:
  assumes "rune_size bs = Some n" and "\<forall>c \<in> set (take n bs). 128 \<le> byte c"
  shows "unquote (take n bs @ rest) = take n bs @ unquote rest"
proof -
  have n: "0 < n" "n \<le> length bs" using rune_size_bounds [OF assms(1)] by auto
  then obtain c cs where u: "take n bs = c # cs" by (cases "take n bs") auto
  then have len: "length cs = n - 1" using n by (metis length_Cons length_take min.absorb2 diff_Suc_1)
  have c: "128 \<le> byte c" using assms(2) u by simp
  then have "c \<noteq> backslash" by (auto simp: backslash_def)
  moreover have "rune_size (c # cs @ rest) = Some n"
    using rune_size_take [OF assms(1), of rest] u by simp
  moreover have "n = Suc (length cs)" using len n by simp
  ultimately show ?thesis using c u by simp
qed

lemma encode_2028: "encode_rune 8232 = [CHR 0xE2, CHR 0x80, CHR 0xA8]"
    "encode_rune 8233 = [CHR 0xE2, CHR 0x80, CHR 0xA9]"
  by (simp_all add: encode_rune_def char_of_eq_iff)

lemma getu4_2028:
  "getu4 (backslash # CHR ''u'' # CHR ''2'' # CHR ''0'' # CHR ''2'' # CHR ''8'' # rest) = Some 8232"
  "getu4 (backslash # CHR ''u'' # CHR ''2'' # CHR ''0'' # CHR ''2'' # CHR ''9'' # rest) = Some 8233"
  by (simp_all add: getu4_def hex4_def hex_val_def is_digit_def)

lemma unquote_escape_rune:
  assumes "rune_size bs = Some n" and "\<forall>c \<in> set (take n bs). 128 \<le> byte c"
  shows "unquote (escape_rune (take n bs) @ rest) = take n bs @ unquote rest"
  using unquote_rune [OF assms, of rest]
  by (simp add: escape_rune_def getu4_2028 encode_2028)

lemma unquote_json_escape: "valid_utf8 s \<Longrightarrow> unquote (json_escape s) = s"
proof (induction s rule: json_escape.induct)
  case 1
  then show ?case by simp
next
  case (2 b bs)
  show ?case
  proof (cases "byte b < 128")
    case True
    then have "rune_size (b # bs) = Some 1" by (simp add: rune_size_def)
    with "2.prems" have "valid_utf8 bs" by simp
    then have IH: "unquote (json_escape bs) = bs" using "2.IH"(1) True by blast
    have "html_safe b \<Longrightarrow> b \<noteq> backslash" by (simp add: html_safe_def)
    then show ?thesis using True IH by (simp add: unquote_escape_byte)
  next
    case False
    from "2.prems" obtain n where n: "rune_size (b # bs) = Some n" and v: "valid_utf8 (drop (n - 1) bs)"
      by (auto split: option.splits)
    have high: "\<forall>c \<in> set (take n (b # bs)). 128 \<le> byte c" by (rule rune_size_high [OF n False])
    have "unquote (json_escape (b # bs)) = take n (b # bs) @ unquote (json_escape (drop (n - 1) bs))"
      using False n unquote_escape_rune [OF n high] by simp
    also have "\<dots> = take n (b # bs) @ drop (n - 1) bs" using "2.IH"(3) [OF False n v] by simp
    also have "\<dots> = b # bs" using rune_size_bounds(1) [OF n] by (cases n) simp_all
    finally show ?thesis .
  qed
qed

section \<open>Numbers round trip\<close>

lemma byte_digit_char [simp]: "d < 10 \<Longrightarrow> byte (digit_char d) = 48 + d"
  by (simp add: digit_char_def)

lemma is_digit_digit_char [simp]: "d < 10 \<Longrightarrow> is_digit (digit_char d)"
  by (simp add: is_digit_def)

lemma show_nat_digits: "\<forall>c \<in> set (show_nat n). is_digit c"
proof (induction n rule: show_nat.induct)
  case (1 n)
  then show ?case by (subst show_nat.simps) auto
qed

lemma show_nat_nonempty [simp]: "show_nat n \<noteq> []"
  by (subst show_nat.simps) simp

lemma parse_nat_snoc: "parse_nat (ds @ [c]) = parse_nat ds * 10 + (byte c - 48)"
  by (simp add: parse_nat_def)

lemma parse_nat_show_nat [simp]: "parse_nat (show_nat n) = n"
proof (induction n rule: show_nat.induct)
  case (1 n)
  show ?case
  proof (cases "n < 10")
    case True
    then show ?thesis by (simp add: show_nat.simps [of n] parse_nat_def)
  next
    case False
    with "1" show ?thesis by (simp add: show_nat.simps [of n] parse_nat_snoc)
  qed
qed

lemma show_nat_0: "show_nat 0 = ''0''"
  by (simp add: show_nat.simps [of 0] digit_char_def char_of_eq_iff)

lemma hd_show_nat: "0 < n \<Longrightarrow> hd (show_nat n) \<noteq> CHR ''0''"
proof (induction n rule: show_nat.induct)
  case (1 n)
  show ?case
  proof (cases "n < 10")
    case True
    then have "byte (digit_char n) = 48 + n" by simp
    then have "digit_char n \<noteq> CHR ''0''" using "1.prems" by auto
    with True show ?thesis by (simp add: show_nat.simps [of n])
  next
    case False
    then have "hd (show_nat (n div 10)) \<noteq> CHR ''0''" using "1.IH" by simp
    with False show ?thesis by (simp add: show_nat.simps [of n])
  qed
qed

lemma scan_digits_show_nat:
  "\<not> is_digit c \<Longrightarrow> scan_digits (show_nat n @ c # rest) = Some (show_nat n, c # rest)"
  using show_nat_digits [of n]
  by (simp add: scan_digits_def takeWhile_append dropWhile_append)

lemma scan_int_show_nat:
  assumes "\<not> is_digit c"
  shows "scan_int (show_nat n @ c # rest) = Some (show_nat n, c # rest)"
proof (cases "n = 0")
  case True
  then show ?thesis by (simp add: show_nat_0 scan_int_def)
next
  case False
  then have "hd (show_nat n) \<noteq> CHR ''0''" by (simp add: hd_show_nat)
  then show ?thesis
    using scan_digits_show_nat [OF assms, of n rest]
    by (cases "show_nat n") (auto simp: scan_int_def)
qed

lemma scan_sign_show_int:
  "scan_sign (show_int i @ rest) =
     (if i < 0 then (''-'', show_nat (nat (- i)) @ rest) else ([], show_nat (nat i) @ rest))"
proof (cases "i < 0")
  case True
  then show ?thesis by (simp add: scan_sign_def show_int_def)
next
  case False
  obtain d ds where d: "show_nat (nat i) = d # ds" by (cases "show_nat (nat i)") auto
  with show_nat_digits [of "nat i"] have "is_digit d" by simp
  then have "d \<noteq> CHR ''-''" by (auto simp: is_digit_def)
  with False d show ?thesis by (simp add: scan_sign_def show_int_def)
qed

text \<open>A number that is followed by the end of a member.\<close>

lemma scan_number_show_int:
  assumes "c = CHR '','' \<or> c = CHR ''}''"
  shows "scan_number (show_int i @ c # rest) = Some (show_int i, c # rest)"
proof -
  have c: "\<not> is_digit c" "c \<noteq> CHR ''.''" "c \<noteq> CHR ''e''" "c \<noteq> CHR ''E''"
    using assms by (auto simp: is_digit_def)
  show ?thesis
    using c by (simp add: scan_number_def scan_sign_show_int scan_int_show_nat scan_frac_def
        scan_exp_def) (simp add: show_int_def)
qed

lemma parse_int_show_int: "is_i64 i \<Longrightarrow> parse_int (show_int i) = Some i"
  using scan_sign_show_int [of i "[]"] show_nat_digits [of "nat i"] show_nat_digits [of "nat (- i)"]
  by (simp add: parse_int_def list_all_iff)

lemma show_int_first:
  obtains c cs where "show_int i = c # cs"
    and "c \<notin> {CHR ''{'', CHR ''['', quote, CHR ''t'', CHR ''f'', CHR ''n''}" and "\<not> is_ws c"
proof -
  obtain d ds where d: "show_nat (nat i) = d # ds" by (cases "show_nat (nat i)") auto
  with show_nat_digits [of "nat i"] have "is_digit d" by simp
  then have "d \<notin> {CHR ''{'', CHR ''['', quote, CHR ''t'', CHR ''f'', CHR ''n''} \<and> \<not> is_ws d"
    by (auto simp: is_digit_def is_ws_def quote_def)
  then show thesis
    using that d by (cases "i < 0") (auto simp: show_int_def quote_def is_ws_def)
qed

section \<open>The record round trip\<close>

lemma skip_ws_nonws: "\<not> is_ws c \<Longrightarrow> skip_ws (c # cs) = c # cs"
  by (simp add: skip_ws_def)

lemma p_value_show_int:
  assumes "c = CHR '','' \<or> c = CHR ''}''"
  shows "p_value (Suc n) d (show_int i @ c # rest) = Some (JNum (show_int i), c # rest)"
proof -
  obtain x xs where x: "show_int i = x # xs"
      "x \<notin> {CHR ''{'', CHR ''['', quote, CHR ''t'', CHR ''f'', CHR ''n''}" "\<not> is_ws x"
    by (rule show_int_first)
  then show ?thesis
    using scan_number_show_int [OF assms, of i rest] by (simp add: p_value.simps skip_ws_nonws)
qed

lemma quote_simps [simp]:
  "\<not> is_ws quote" "quote \<noteq> CHR ''{''" "quote \<noteq> CHR ''[''" "quote \<noteq> CHR ''}''" "quote \<noteq> CHR '']''"
  by (simp_all add: quote_def is_ws_def)

lemma punctuation_simps [simp]:
  "\<not> is_ws CHR '':''" "\<not> is_ws CHR '',''" "\<not> is_ws CHR ''{''" "\<not> is_ws CHR ''}''"
  by (simp_all add: is_ws_def)

lemma p_value_json_string:
  "valid_utf8 s \<Longrightarrow> p_value (Suc n) d (json_string s @ rest) = Some (JStr s, rest)"
  by (simp add: p_value.simps json_string_def skip_ws_nonws scan_string_json_escape unquote_json_escape)

lemma valid_utf8_ascii: "\<forall>c \<in> set s. byte c < 128 \<Longrightarrow> valid_utf8 s"
  by (induction s) (simp_all add: rune_size_def)

text \<open>One member of an object, and the end of the object or the next member.\<close>

lemma p_members_last:
  assumes "valid_utf8 k" and "p_value n d (V @ ''}'' @ rest) = Some (v, ''}'' @ rest)"
  shows "p_members (Suc n) d (json_key k @ V @ ''}'' @ rest) = Some ([(k, v)], rest)"
  using assms
  by (simp add: p_members.simps json_key_def json_string_def skip_ws_nonws scan_string_json_escape
      unquote_json_escape)

lemma p_members_more:
  assumes "valid_utf8 k" and "p_value n d (V @ '','' @ rest) = Some (v, '','' @ rest)"
    and "p_members n d rest = Some (ms, rest')"
  shows "p_members (Suc n) d (json_key k @ V @ '','' @ rest) = Some ((k, v) # ms, rest')"
  using assms
  by (simp add: p_members.simps json_key_def json_string_def skip_ws_nonws scan_string_json_escape
      unquote_json_escape)

lemma p_value_object:
  "p_members n 1 (quote # xs) = Some (ms, rest) \<Longrightarrow>
   p_value (Suc n) 0 (CHR ''{'' # quote # xs) = Some (JObj ms, rest)"
  by (simp add: p_value.simps skip_ws_nonws max_depth_def)

definition record_members :: "Record \<Rightarrow> (bytes \<times> json) list" where
  "record_members r =
     [(''holderIdentity'', JStr (HolderIdentity r)),
      (''leaseDurationMilliSeconds'', JNum (show_int (LeaseDurationMilliSeconds r))),
      (''acquireTime'', JNum (show_int (AcquireTime r))),
      (''renewTime'', JNum (show_int (RenewTime r))),
      (''leaderTransitions'', JNum (show_int (LeaderTransitions r)))]"

lemma p_value_json_bytes:
  assumes "valid_utf8 (HolderIdentity r)"
  shows "p_value (Suc (Suc (Suc (Suc (Suc (Suc (Suc n))))))) 0 (json_bytes r) =
           Some (JObj (record_members r), [])"
proof -
  note names = valid_utf8_ascii [of "''leaderTransitions''"] valid_utf8_ascii [of "''renewTime''"]
    valid_utf8_ascii [of "''acquireTime''"] valid_utf8_ascii [of "''leaseDurationMilliSeconds''"]
    valid_utf8_ascii [of "''holderIdentity''"]
  let ?k5 = "json_key ''leaderTransitions'' @ show_int (LeaderTransitions r) @ ''}''"
  let ?k4 = "json_key ''renewTime'' @ show_int (RenewTime r) @ '','' @ ?k5"
  let ?k3 = "json_key ''acquireTime'' @ show_int (AcquireTime r) @ '','' @ ?k4"
  let ?k2 = "json_key ''leaseDurationMilliSeconds'' @
    show_int (LeaseDurationMilliSeconds r) @ '','' @ ?k3"
  let ?k1 = "json_key ''holderIdentity'' @ json_string (HolderIdentity r) @ '','' @ ?k2"
  let ?n = "Suc n"
  have 5: "p_members (Suc ?n) 1 ?k5 =
      Some ([(''leaderTransitions'', JNum (show_int (LeaderTransitions r)))], [])"
    using p_members_last [where rest = "[]", OF names(1)] p_value_show_int by simp
  have 4: "p_members (Suc (Suc ?n)) 1 ?k4 = Some (drop 3 (record_members r), [])"
    by (rule trans, rule p_members_more [OF names(2) _ 5])
      (simp_all add: p_value_show_int record_members_def)
  have 3: "p_members (Suc (Suc (Suc ?n))) 1 ?k3 = Some (drop 2 (record_members r), [])"
    by (rule trans, rule p_members_more [OF names(3) _ 4])
      (simp_all add: p_value_show_int record_members_def)
  have 2: "p_members (Suc (Suc (Suc (Suc ?n)))) 1 ?k2 = Some (drop 1 (record_members r), [])"
    by (rule trans, rule p_members_more [OF names(4) _ 3])
      (simp_all add: p_value_show_int record_members_def)
  have 1: "p_members (Suc (Suc (Suc (Suc (Suc ?n))))) 1 ?k1 = Some (record_members r, [])"
    by (rule trans, rule p_members_more [OF names(5) _ 2])
      (simp_all add: p_value_json_string assms record_members_def)
  obtain xs where xs: "?k1 = quote # xs" by (simp add: json_key_def json_string_def)
  have "json_bytes r = CHR ''{'' # ?k1" by (simp add: json_bytes_def json_Marshal_def)
  then have bytes: "json_bytes r = CHR ''{'' # quote # xs" by (simp only: xs)
  show ?thesis unfolding bytes by (rule p_value_object) (rule 1 [unfolded xs])
qed

lemma fold_names:
  "fold_name ''holderIdentity'' = ''holderidentity''"
  "fold_name ''leaseDurationMilliSeconds'' = ''leasedurationmilliseconds''"
  "fold_name ''acquireTime'' = ''acquiretime''"
  "fold_name ''renewTime'' = ''renewtime''"
  "fold_name ''leaderTransitions'' = ''leadertransitions''"
  by (simp_all add: char_of_eq_iff)

lemma store_record_members:
  assumes "wf_Record r"
  shows "foldl store_member (True, r0) (record_members r) = (True, r)"
  using assms
  by (simp add: record_members_def store_member_def fold_names store_string_def store_int_def
      parse_int_show_int wf_Record_def del: fold_name.simps)

theorem json_Unmarshal_Marshal:
  assumes "wf_Record r" and "valid_utf8 (HolderIdentity r)"
  shows "json_Unmarshal (json_bytes r) r0 = Inr r"
proof -
  define n where "n = 2 * length (json_bytes r) - 6"
  have "7 \<le> length (json_bytes r)"
    by (simp add: json_bytes_def json_Marshal_def json_key_def json_string_def)
  then have "2 * length (json_bytes r) + 1 = Suc (Suc (Suc (Suc (Suc (Suc (Suc n))))))"
    by (simp add: n_def)
  then have "parse_json (json_bytes r) = Some (JObj (record_members r))"
    by (simp add: parse_json_def p_value_json_bytes assms(2) skip_ws_def)
  then show ?thesis
    using store_record_members [OF assms(1)] by (simp add: json_Unmarshal_def)
qed

text \<open>So two different records are stored as different bytes.\<close>

lemma json_bytes_inject:
  assumes "wf_Record r" "valid_utf8 (HolderIdentity r)"
    and "wf_Record r'" "valid_utf8 (HolderIdentity r')"
  shows "json_bytes r = json_bytes r' \<longleftrightarrow> r = r'"
  by (metis json_Unmarshal_Marshal assms sum.inject(2))

end
