(* ===== verification/Cas_Lock.thy ===== *)
theory Cas_Lock
  imports Go_Json_Decode
begin

text \<open>
  The abstract lock: one shared cell that holds a record and a version, read and written by
  compare-and-swap on the version. A client remembers the version it last read or wrote;
  an update of any other version is refused. This is the specification that the Kubernetes
  lease implements (\<open>Kube_Lease\<close>), and the lock over which the safety of a set of electors
  is stated (\<open>Election_Safety\<close>). The raw bytes of a record are its JSON encoding.
\<close>

section \<open>Definitions\<close>

record cas_state =
  me :: string
  cell :: "(nat \<times> Record) option"
  seen :: "nat option"

definition cas_Get :: "ctx \<Rightarrow> cas_state \<Rightarrow> (go_error + Record \<times> bytes) \<times> cas_state" where
  "cas_Get c s =
     (case cell s of
        None \<Rightarrow> (Inl ErrNotExist, s)
      | Some (v, r) \<Rightarrow> (Inr (r, json_bytes r), s\<lparr>seen := Some v\<rparr>))"

definition cas_Create :: "ctx \<Rightarrow> Record \<Rightarrow> cas_state \<Rightarrow> go_error option \<times> cas_state" where
  "cas_Create c r s =
     (case cell s of
        None \<Rightarrow> (None, s\<lparr>cell := Some (0, r), seen := Some 0\<rparr>)
      | Some _ \<Rightarrow> (Some (ErrText ''already exists''), s))"

definition cas_Update :: "ctx \<Rightarrow> Record \<Rightarrow> cas_state \<Rightarrow> go_error option \<times> cas_state" where
  "cas_Update c r s =
     (case cell s of
        None \<Rightarrow> (Some ErrNotExist, s)
      | Some (v, _) \<Rightarrow>
          if seen s = Some v
          then (None, s\<lparr>cell := Some (Suc v, r), seen := Some (Suc v)\<rparr>)
          else (Some (ErrText ''conflict''), s))"

definition cas_lock :: "cas_state Lock" where
  "cas_lock =
     \<lparr>Get = cas_Get, Create = cas_Create, Update = cas_Update,
      RecordEvent = (\<lambda>_ s. s), Identity = me, Describe = (\<lambda>_. ''cas'')\<rparr>"

section \<open>Contract\<close>

lemma cas_lock_sel [simp]:
  "Get cas_lock = cas_Get" "Create cas_lock = cas_Create" "Update cas_lock = cas_Update"
  "RecordEvent cas_lock m s = s" "Identity cas_lock = me"
  by (simp_all add: cas_lock_def)

lemma cas_me [simp]:
  "me (snd (cas_Get c s)) = me s"
  "me (snd (cas_Create c r s)) = me s"
  "me (snd (cas_Update c r s)) = me s"
  by (simp_all add: cas_Get_def cas_Create_def cas_Update_def split: option.splits prod.splits)

interpretation cas: lock_store cas_lock id "\<lambda>_. True" "\<lambda>_. True"
proof
  fix s r c s' c'
  show "Create cas_lock c r s = (None, s') \<Longrightarrow> \<exists>raw s''. Get cas_lock c' s' = (Inr (id r, raw), s'')"
    by (auto simp: cas_Create_def cas_Get_def split: option.splits)
  show "Update cas_lock c r s = (None, s') \<Longrightarrow> \<exists>raw s''. Get cas_lock c' s' = (Inr (id r, raw), s'')"
    by (auto simp: cas_Update_def cas_Get_def split: option.splits prod.splits if_splits)
qed simp_all

text \<open>Reading never changes the cell, and an update right after a read succeeds.\<close>

lemma cas_Get_cell [simp]: "cell (snd (cas_Get c s)) = cell s"
  by (simp add: cas_Get_def split: option.splits prod.splits)

lemma cas_Get_Inr:
  "cas_Get c s = (Inr (old, raw), s1) \<longleftrightarrow>
   (\<exists>v. cell s = Some (v, old) \<and> raw = json_bytes old \<and> s1 = s\<lparr>seen := Some v\<rparr>)"
  by (auto simp: cas_Get_def split: option.splits prod.splits)

lemma cas_Get_Inl:
  "cas_Get c s = (Inl e, s1) \<longleftrightarrow> cell s = None \<and> e = ErrNotExist \<and> s1 = s"
  by (auto simp: cas_Get_def split: option.splits prod.splits)

lemma cas_Update_seen:
  "cell s = Some (v, r0) \<Longrightarrow> seen s = Some v \<Longrightarrow>
   cas_Update c r s = (None, s\<lparr>cell := Some (Suc v, r), seen := Some (Suc v)\<rparr>)"
  by (simp add: cas_Update_def)

end
