(* ===== verification/Elector_Properties.thy ===== *)
theory Elector_Properties
  imports Elector Cas_Lock
begin

text \<open>
  What one elector guarantees, over any lock: the properties of \<^verbatim>\<open>New\<close>,
  \<^verbatim>\<open>tryAcquireOrRenew\<close>, \<^verbatim>\<open>release\<close>, \<^verbatim>\<open>maybeReportTransition\<close> and \<^verbatim>\<open>Check\<close>.
  The lemmas that need the lock's identity to be stable are proved once in the locale
  \<open>lock_identity\<close>. The witnesses use an elector over the abstract lock.
\<close>

section \<open>An example elector\<close>

definition demo_clock :: clock where
  "demo_clock =
     \<lparr>readings = (\<lambda>n. \<lparr>wall = 1700000000000000000 + int n * 1000000,
                      monotonic = Some (int n * 1000000)\<rparr>), tick = 0\<rparr>"

definition demo_config :: "'s Lock \<Rightarrow> 's Config" where
  "demo_config L =
     \<lparr>cLock = Some L, LeaseDuration = 15 * Second, RenewDeadline = 10 * Second,
      RetryPeriod = 2 * Second,
      cCallbacks = \<lparr>OnStartedLeading = Some 1, OnStoppedLeading = Some 2, OnNewLeader = Some 3\<rparr>,
      WatchDog = None, ReleaseOnCancel = True, Name = ''test''\<rparr>"

definition demo_elector :: "'s Lock \<Rightarrow> 's \<Rightarrow> 's LeaderElector" where
  "demo_elector L s =
     \<lparr>config = demo_config L, observedRecord = zero_Record, observedRawRecord = [],
      observedTime = zero_time, reportedLeader = [], le_clock = demo_clock, metrics = noMetrics,
      lockState = s, effects = []\<rparr>"

definition demo_cas :: "(nat \<times> Record) option \<Rightarrow> cas_state LeaderElector" where
  "demo_cas cl = demo_elector cas_lock \<lparr>me = ''a'', cell = cl, seen = None\<rparr>"

definition demo_record :: "string \<Rightarrow> Record" where
  "demo_record h =
     \<lparr>HolderIdentity = h, LeaseDurationMilliSeconds = 15000, AcquireTime = 7, RenewTime = 9,
      LeaderTransitions = 4\<rparr>"

lemmas demo_defs = demo_clock_def demo_config_def demo_elector_def demo_cas_def demo_record_def

lemma demo_simps [simp]:
  "lock (demo_elector L s) = L"
  "lockState (demo_elector L s) = s"
  "observedRawRecord (demo_elector L s) = []"
  "config (demo_elector L s) = demo_config L"
  "le_clock (demo_elector L s) = demo_clock"
  by (simp_all add: demo_elector_def lock_def demo_config_def)

section \<open>Success and identity\<close>

context lock_identity
begin

text \<open>The laws, stated for a lock that equals \<open>L\<close>.\<close>

lemma Identity_of:
  "Get M c s = (x, s') \<Longrightarrow> L = M \<Longrightarrow> Identity M s' = Identity M s"
  "Create M c r s = (e, s') \<Longrightarrow> L = M \<Longrightarrow> Identity M s' = Identity M s"
  "Update M c r s = (e, s') \<Longrightarrow> L = M \<Longrightarrow> Identity M s' = Identity M s"
  by (metis Identity_Get Identity_Create Identity_Update snd_conv)+

lemma try_identity:
  assumes "lock le = L" and "tryAcquireOrRenew c le = (b, le')"
  shows "Identity L (lockState le') = Identity L (lockState le)"
  using assms(2,1)
  by (cases rule: tryAcquireOrRenew_cases) (auto dest!: Identity_of)

lemma try_success_record:
  assumes "lock le = L" and "tryAcquireOrRenew c le = (True, le')"
  shows "HolderIdentity (observedRecord le') = Identity L (lockState le)"
    and "RenewTime (observedRecord le') = UnixMilli (attempt_time le)"
    and "LeaseDurationMilliSeconds (observedRecord le') = LeaseDuration (config le) sdiv Millisecond"
  using assms(2,1) by (cases rule: tryAcquireOrRenew_cases; simp)+

lemma try_success_leader:
  assumes "lock le = L" and "tryAcquireOrRenew c le = (True, le')"
  shows "IsLeader le'"
  using try_identity [OF assms] try_success_record(1) [OF assms] tryAcquireOrRenew_frame(2) [OF assms(2)]
    assms(1) by (simp add: IsLeader_iff)

end

section \<open>Giving the lease up\<close>

lemma release_unfold:
  "release le =
     (if \<not> IsLeader le then (True, le)
      else case Update (lock le) context_TODO (releaseRecord le (attempt_time le)) (lockState le) of
             (Some e, s) \<Rightarrow> (False, after_Get s le)
           | (None, s) \<Rightarrow>
               (True, setObservedRecord (releaseRecord le (attempt_time le)) (after_Get s le)))"
  by (simp add: release_def after_Get_def attempt_time_def split_beta Let_def releaseRecord_def
      split: option.splits prod.splits)

context lock_identity
begin

lemma release_leader:
  assumes "lock le = L" and "IsLeader le" and "release le = (b, le')"
  shows "IsLeader le'"
  using assms by (auto simp: release_unfold releaseRecord_def IsLeader_iff dest!: Identity_of
      split: option.splits prod.splits)

end

section \<open>The guard of an unexpired lease\<close>

text \<open>On monotonic readings the lease is running until the observation time plus its duration.\<close>

lemma leaseRunning_mono:
  assumes "monotonic (observedTime le) = Some a" and "monotonic now = Some b"
    and "is_i64 (Millisecond * LeaseDurationMilliSeconds old)"
    and "is_i64 (a + Millisecond * LeaseDurationMilliSeconds old)"
  shows "leaseRunning old now le \<longleftrightarrow> b < a + Millisecond * LeaseDurationMilliSeconds old"
  using assms by (simp add: leaseRunning_def i64_id time_After_Add_mono)

lemma real_clock_Some: "real_clock c \<Longrightarrow> monotonic (readings c n) = Some (mono_of (readings c n))"
  using real_clock_mono [of c n] by (auto simp: mono_of_def)

text \<open>The two ways past the guard, as equations.\<close>

lemma try_held:
  assumes "Get (lock le) c (lockState le) = (Inr (old, raw), s1)"
    and "heldByOther old (attempt_time le) (observe old raw (after_Get s1 le))"
  shows "tryAcquireOrRenew c le = (False, observe old raw (after_Get s1 le))"
  using assms by (simp add: tryAcquireOrRenew_unfold)

definition try_write :: "ctx \<Rightarrow> Record \<Rightarrow> 's LeaderElector \<Rightarrow> bool \<times> 's LeaderElector" where
  "try_write c r le =
     (case Update (lock le) c r (lockState le) of
        (Some e, s2) \<Rightarrow> (False, le\<lparr>lockState := s2\<rparr>)
      | (None, s2) \<Rightarrow> (True, setObservedRecord r (le\<lparr>lockState := s2\<rparr>)))"

lemma try_free:
  assumes "Get (lock le) c (lockState le) = (Inr (old, raw), s1)"
    and "\<not> heldByOther old (attempt_time le) (observe old raw (after_Get s1 le))"
  shows "tryAcquireOrRenew c le =
           try_write c (correctRecord old (observe old raw (after_Get s1 le)) (freshRecord le))
             (observe old raw (after_Get s1 le))"
  using assms by (simp add: tryAcquireOrRenew_unfold try_write_def Let_def)

lemma json_bytes_nonempty [simp]: "json_bytes r \<noteq> []" "[] \<noteq> json_bytes r"
  by (simp_all add: json_bytes_def json_Marshal_def)

section \<open>Properties of an attempt\<close>

text \<open>
  C15. An attempt that reports success leaves the elector the leader in its own eyes: the
  observed record names it as the holder, carries the time of the attempt and the configured
  lease duration. This holds over every lock whose identity is stable.
\<close>

theorem tryAcquireOrRenew_success:
  assumes "lock_identity (lock le)" and "tryAcquireOrRenew c le = (True, le')"
  shows "IsLeader le' \<and> GetLeader le' = Identity (lock le) (lockState le) \<and>
         RenewTime (getObservedRecord le') = UnixMilli (attempt_time le) \<and>
         LeaseDurationMilliSeconds (getObservedRecord le') =
           LeaseDuration (config le) sdiv Millisecond"
  using lock_identity.try_success_leader [OF assms(1) refl assms(2)]
    lock_identity.try_success_record [OF assms(1) refl assms(2)]
  by (simp add: GetLeader_def getObservedRecord_def)

theorem tryAcquireOrRenew_success_witness:
  "fst (tryAcquireOrRenew None (demo_cas None)) \<and>
   IsLeader (snd (tryAcquireOrRenew None (demo_cas None))) \<and>
   GetLeader (snd (tryAcquireOrRenew None (demo_cas None))) = ''a''"
proof -
  have ok: "fst (tryAcquireOrRenew None (demo_cas None))"
    by (simp add: tryAcquireOrRenew_unfold demo_cas_def cas_Get_def cas_Create_def)
  have "lock_identity (lock (demo_cas None))"
    by (simp add: demo_cas_def cas.lock_identity_axioms)
  from tryAcquireOrRenew_success [OF this, of None "snd (tryAcquireOrRenew None (demo_cas None))"] ok
  show ?thesis by (simp add: prod_eq_iff) (simp add: demo_cas_def)
qed

text \<open>
  C16. A change of the record is always respected: when \<^verbatim>\<open>Get\<close> returns bytes that differ from
  the ones observed before and the record is held by another client, the attempt fails without
  writing, remembers the record, and starts a full lease duration at the moment of the
  observation. Only the local monotonic clock matters.
\<close>

theorem changed_record_is_respected:
  assumes "Get (lock le) c (lockState le) = (Inr (old, raw), s1)"
    and "raw \<noteq> observedRawRecord le"
    and "HolderIdentity old \<noteq> []" and "HolderIdentity old \<noteq> Identity (lock le) s1"
    and "real_clock (le_clock le)"
    and "0 < LeaseDurationMilliSeconds old"
    and "is_i64 (Millisecond * LeaseDurationMilliSeconds old)"
    and "is_i64 (mono_of (readings (le_clock le) (Suc (tick (le_clock le)))) +
                 Millisecond * LeaseDurationMilliSeconds old)"
  shows "\<exists>le'. tryAcquireOrRenew c le = (False, le') \<and> lockState le' = s1 \<and>
           observedRecord le' = old \<and> observedRawRecord le' = raw \<and>
           observedTime le' = readings (le_clock le) (Suc (tick (le_clock le)))"
proof -
  let ?le = "observe old raw (after_Get s1 le)" and ?t = "tick (le_clock le)"
  have obs: "observedRecord ?le = old" "observedTime ?le = readings (le_clock le) (Suc ?t)"
    using assms(2) by (simp_all add: observe_changed)
  have "mono_of (readings (le_clock le) ?t) \<le> mono_of (readings (le_clock le) (Suc ?t))"
    using assms(5) by (simp add: real_clock_le)
  moreover have "0 < Millisecond * LeaseDurationMilliSeconds old"
    using assms(6) by (simp add: Millisecond_def)
  ultimately have "leaseRunning old (attempt_time le) ?le"
    using assms(5,7,8) obs by (simp add: leaseRunning_mono real_clock_Some attempt_time_def)
  then have "heldByOther old (attempt_time le) ?le"
    using assms(3,4) obs by (simp add: heldByOther_def IsLeader_iff)
  then show ?thesis using try_held [OF assms(1)] obs by simp
qed

lemma demo_clock_real: "real_clock demo_clock"
  by (simp add: real_clock_def demo_clock_def mono_of_def)

theorem changed_record_is_respected_witness:
  "\<exists>le'. tryAcquireOrRenew None (demo_cas (Some (0, demo_record ''b''))) = (False, le') \<and>
     observedRecord le' = demo_record ''b''"
proof -
  let ?le = "demo_cas (Some (0, demo_record ''b''))"
  have "\<exists>le'. tryAcquireOrRenew None ?le = (False, le') \<and>
      lockState le' = \<lparr>me = ''a'', cell = Some (0, demo_record ''b''), seen = Some 0\<rparr> \<and>
      observedRecord le' = demo_record ''b'' \<and>
      observedRawRecord le' = json_bytes (demo_record ''b'') \<and>
      observedTime le' = readings (le_clock ?le) (Suc (tick (le_clock ?le)))"
    by (rule changed_record_is_respected)
      (simp_all add: demo_cas_def cas_Get_def demo_clock_real,
       simp_all add: demo_defs Millisecond_def is_i64_def mono_of_def)
  then show ?thesis by blast
qed

text \<open>
  C17. While the bytes stay the same, another client's lease is waited for exactly: the attempt
  is refused as long as less than the lease duration has passed since the observation, and from
  then on it is an update that takes the lease over, with the number of transitions increased
  by one (in 64-bit arithmetic) and a new acquire time.
\<close>

theorem unchanged_record_expires:
  assumes "Get (lock le) c (lockState le) = (Inr (old, observedRawRecord le), s1)"
    and "HolderIdentity old \<noteq> []"
    and "HolderIdentity (observedRecord le) \<noteq> Identity (lock le) s1"
    and "monotonic (observedTime le) = Some a" and "monotonic (attempt_time le) = Some b"
    and "is_i64 (Millisecond * LeaseDurationMilliSeconds old)"
    and "is_i64 (a + Millisecond * LeaseDurationMilliSeconds old)"
  shows "tryAcquireOrRenew c le =
     (if b < a + Millisecond * LeaseDurationMilliSeconds old then (False, after_Get s1 le)
      else try_write c
             ((freshRecord le)\<lparr>LeaderTransitions := i64 (LeaderTransitions old + 1)\<rparr>)
             (after_Get s1 le))"
proof -
  have obs: "observe old (observedRawRecord le) (after_Get s1 le) = after_Get s1 le"
    by (simp add: observe_unchanged)
  have notme: "\<not> IsLeader (after_Get s1 le)"
    using assms(3) by (simp add: IsLeader_iff)
  have run: "leaseRunning old (attempt_time le) (after_Get s1 le) \<longleftrightarrow>
      b < a + Millisecond * LeaseDurationMilliSeconds old"
    using assms(4-7) by (simp add: leaseRunning_mono)
  show ?thesis
    using assms(1,2) obs notme run
    by (auto simp: try_held try_free heldByOther_def correctRecord_def)
qed

text \<open>An elector that observed \<open>b\<close>'s record at 0 and tries again after 20 seconds.\<close>

definition demo_expired :: "cas_state LeaderElector" where
  "demo_expired =
     (demo_cas (Some (0, demo_record ''b'')))
       \<lparr>observedRecord := demo_record ''b'', observedRawRecord := json_bytes (demo_record ''b''),
        observedTime := \<lparr>wall = 0, monotonic = Some 0\<rparr>,
        le_clock := demo_clock\<lparr>tick := 20000\<rparr>\<rparr>"

lemma demo_expired_simps [simp]:
  "lock demo_expired = cas_lock"
  "lockState demo_expired = \<lparr>me = ''a'', cell = Some (0, demo_record ''b''), seen = None\<rparr>"
  "observedRecord demo_expired = demo_record ''b''"
  "observedRawRecord demo_expired = json_bytes (demo_record ''b'')"
  "observedTime demo_expired = \<lparr>wall = 0, monotonic = Some 0\<rparr>"
  by (simp_all add: demo_expired_def demo_cas_def demo_elector_def demo_config_def lock_def)

theorem unchanged_record_expires_witness:
  "fst (tryAcquireOrRenew None demo_expired) \<and>
   LeaderTransitions (observedRecord (snd (tryAcquireOrRenew None demo_expired))) = 5"
proof -
  have "tryAcquireOrRenew None demo_expired =
     (if 20000000000 < 0 + Millisecond * LeaseDurationMilliSeconds (demo_record ''b'')
      then (False, after_Get \<lparr>me = ''a'', cell = Some (0, demo_record ''b''), seen = Some 0\<rparr> demo_expired)
      else try_write None
             ((freshRecord demo_expired)
               \<lparr>LeaderTransitions := i64 (LeaderTransitions (demo_record ''b'') + 1)\<rparr>)
             (after_Get \<lparr>me = ''a'', cell = Some (0, demo_record ''b''), seen = Some 0\<rparr> demo_expired))"
    by (rule unchanged_record_expires)
      (simp_all add: cas_Get_def, simp_all add: demo_expired_def demo_defs Millisecond_def is_i64_def
        attempt_time_def le_Now_def clock_Now_def)
  then show ?thesis
    by (simp add: Millisecond_def demo_record_def try_write_def cas_Update_def i64_def)
qed

text \<open>
  A leader renews: an elector whose observation names itself as the holder writes a record
  that keeps the acquire time and the number of transitions of the stored one and only moves
  the renew time, whatever its clock says about the lease.
\<close>

theorem leader_renews:
  assumes "Get (lock le) c (lockState le) = (Inr (old, raw), s1)"
    and "IsLeader (observe old raw (after_Get s1 le))"
  shows "tryAcquireOrRenew c le =
     try_write c
       ((freshRecord le)\<lparr>AcquireTime := AcquireTime old, LeaderTransitions := LeaderTransitions old\<rparr>)
       (observe old raw (after_Get s1 le))"
  using assms by (simp add: try_free heldByOther_def correctRecord_def)

theorem leader_renews_witness:
  "fst (tryAcquireOrRenew None (demo_cas (Some (0, demo_record ''a'')))) \<and>
   AcquireTime (observedRecord (snd (tryAcquireOrRenew None
     (demo_cas (Some (0, demo_record ''a'')))))) = 7"
proof -
  let ?le = "demo_cas (Some (0, demo_record ''a''))"
  let ?s = "\<lparr>me = ''a'', cell = Some (0, demo_record ''a''), seen = Some 0\<rparr>"
  have "tryAcquireOrRenew None ?le =
     try_write None
       ((freshRecord ?le)\<lparr>AcquireTime := AcquireTime (demo_record ''a''),
          LeaderTransitions := LeaderTransitions (demo_record ''a'')\<rparr>)
       (observe (demo_record ''a'') (json_bytes (demo_record ''a'')) (after_Get ?s ?le))"
    by (rule leader_renews)
      (simp_all add: demo_cas_def cas_Get_def IsLeader_iff observe_changed, simp add: demo_record_def)
  then show ?thesis
    by (simp add: try_write_def cas_Update_def demo_cas_def) (simp add: demo_record_def)
qed

text \<open>
  Tolerance to clock skew: whether an unexpired lease of another client blocks an attempt
  does not depend on any wall clock nor on the time stamps inside the record. Two electors
  that agree on the monotonic readings, the holder, the lease duration and their leadership
  decide alike.
\<close>

theorem guard_ignores_wall_clocks:
  assumes "HolderIdentity old' = HolderIdentity old"
    and "LeaseDurationMilliSeconds old' = LeaseDurationMilliSeconds old"
    and "monotonic (observedTime le) = Some a" and "monotonic (observedTime le') = Some a"
    and "monotonic now = Some b" and "monotonic now' = Some b"
    and "is_i64 (a + i64 (Millisecond * LeaseDurationMilliSeconds old))"
    and "IsLeader le' = IsLeader le"
  shows "heldByOther old' now' le' = heldByOther old now le"
  using assms by (simp add: heldByOther_def leaseRunning_def time_After_Add_mono)

theorem guard_ignores_wall_clocks_witness:
  "heldByOther ((demo_record ''b'')\<lparr>RenewTime := 0\<rparr>) \<lparr>wall = 10 ^ 30, monotonic = Some 5\<rparr> demo_expired =
   heldByOther (demo_record ''b'') \<lparr>wall = 0, monotonic = Some 5\<rparr>
     (demo_expired\<lparr>observedTime := \<lparr>wall = - 77, monotonic = Some 0\<rparr>\<rparr>)"
  by (rule guard_ignores_wall_clocks [where a = 0 and b = 5])
    (simp_all add: demo_record_def Millisecond_def is_i64_def i64_def IsLeader_def getObservedRecord_def
      lock_def)

section \<open>Configuration\<close>


text \<open>The float product stays within a quarter of a nanosecond of 1.2 times the period.\<close>

lemma jitter_duration_le:
  assumes "0 < d" and "d < 2 ^ 50" and "6 * d + 2 \<le> 5 * m"
  shows "jitter_duration oor d < m"
proof -
  define n where "n = nat d"
  define f where "f = round53 n"
  define p where "p = round53 (jitter_mantissa * f)"
  have n: "n < 2 ^ 50" "int n = d" using assms by (simp_all add: n_def nat_less_iff)
  have m: "6 * n + 2 \<le> 5 * nat m" using assms n by (simp add: nat_mult_distrib)
  note f = round53_error [of n, folded f_def]
  note p = round53_error [of "jitter_mantissa * f", folded p_def]
  have "p < nat m * 2 ^ 52"
    using f(2) p(2) n m by (simp add: jitter_mantissa_def)
  then have lt: "p div 2 ^ 52 < nat m"
    by (rule less_mult_imp_div_less)
  then have m_pos: "int (p div 2 ^ 52) < m" by simp
  have "d \<le> jitter_duration oor d" using assms by (intro jitter_duration_ge) simp_all
  have "p < 2 ^ 51 * 2 ^ 52" using f(2) p(2) n by (simp add: jitter_mantissa_def)
  then have "p div 2 ^ 52 < 2 ^ 51" by (rule less_mult_imp_div_less)
  then have "int (p div 2 ^ 52) < 2 ^ 51" by (metis of_nat_less_iff of_nat_numeral of_nat_power)
  then show ?thesis
    using m_pos assms by (simp add: jitter_duration_def Let_def p_def f_def n_def is_i64_def)
qed

text \<open>
  C14. What \<^verbatim>\<open>New\<close> is sure to accept: a positive retry period (below \<open>2 ^ 50\<close> ns, thirteen
  days), a renew deadline above 1.2 times the retry period (by two fifths of a nanosecond, so
  that rounding cannot matter), a longer lease, the callbacks and the lock.
\<close>

theorem New_complete:
  assumes "0 < RetryPeriod lec" and "RetryPeriod lec < 2 ^ 50"
    and "6 * RetryPeriod lec + 2 \<le> 5 * RenewDeadline lec"
    and "RenewDeadline lec < LeaseDuration lec"
    and "OnStartedLeading (cCallbacks lec) = Some f" and "OnStoppedLeading (cCallbacks lec) = Some g"
    and "cLock lec = Some L"
  shows "\<exists>le. New oor mk fac clk s lec = Inr le"
proof -
  have "jitter_duration oor (RetryPeriod lec) < RenewDeadline lec"
    using assms(1-3) by (rule jitter_duration_le)
  then show ?thesis using assms by (simp add: New_def Let_def)
qed

lemma demo_accepted:
  "0 < RetryPeriod (demo_config L)" "RetryPeriod (demo_config L) < 2 ^ 50"
  "6 * RetryPeriod (demo_config L) + 2 \<le> 5 * RenewDeadline (demo_config L)"
  "RenewDeadline (demo_config L) < LeaseDuration (demo_config L)"
  "OnStartedLeading (cCallbacks (demo_config L)) = Some 1"
  "OnStoppedLeading (cCallbacks (demo_config L)) = Some 2"
  "cLock (demo_config L) = Some L"
  by (simp_all add: demo_config_def Second_def)

theorem New_complete_witness:
  "\<exists>le. New 0 (\<lambda>_. noopMetric) globalMetricsFactory demo_clock
     \<lparr>me = ''a'', cell = None, seen = None\<rparr> (demo_config cas_lock) = Inr le"
  by (rule New_complete [OF demo_accepted])


section \<open>Release, reports and health\<close>

text \<open>
  C18. Releasing: an elector that is not the leader does nothing and reports success. A leader
  writes its own record with a lease of one millisecond, so that others wait no longer than
  that; when the lock accepts the update, the elector still observes itself as the holder.
\<close>

theorem release_behaviour:
  assumes "lock_identity (lock le)" and "release le = (b, le')"
  shows "(\<not> IsLeader le \<longrightarrow> b \<and> le' = le) \<and>
         (IsLeader le \<and> b \<longrightarrow>
            IsLeader le' \<and>
            Update (lock le) context_TODO (getObservedRecord le') (lockState le) =
              (None, lockState le') \<and>
            HolderIdentity (getObservedRecord le') = Identity (lock le) (lockState le) \<and>
            LeaseDurationMilliSeconds (getObservedRecord le') = 1 \<and>
            LeaderTransitions (getObservedRecord le') = LeaderTransitions (getObservedRecord le))"
proof (cases "IsLeader le")
  case True
  then have "IsLeader le'" using lock_identity.release_leader [OF assms(1) refl] assms(2) by blast
  then show ?thesis
    using True assms(2)
    by (auto simp: release_unfold releaseRecord_def getObservedRecord_def IsLeader_iff
        split: option.splits prod.splits)
qed (use assms(2) in \<open>simp add: release_unfold\<close>)

theorem release_behaviour_witness:
  "IsLeader (snd (release (snd (tryAcquireOrRenew None (demo_cas None)))))"
proof -
  let ?le = "snd (tryAcquireOrRenew None (demo_cas None))"
  have le: "?le = setObservedRecord (freshRecord (demo_cas None))
      ((after_Get \<lparr>me = ''a'', cell = None, seen = None\<rparr> (demo_cas None))
        \<lparr>lockState := \<lparr>me = ''a'', cell = Some (0, freshRecord (demo_cas None)), seen = Some 0\<rparr>\<rparr>)"
    by (simp add: tryAcquireOrRenew_unfold demo_cas_def cas_Get_def cas_Create_def)
  have id: "lock_identity (lock ?le)"
    unfolding le by (simp add: demo_cas_def cas.lock_identity_axioms)
  have "IsLeader ?le" unfolding le by (simp add: IsLeader_iff demo_cas_def)
  moreover have "fst (release ?le)"
    unfolding le by (simp add: release_unfold demo_cas_def cas_Update_def IsLeader_iff)
  then have "release ?le = (True, snd (release ?le))" by (simp add: prod_eq_iff)
  ultimately show ?thesis using release_behaviour [OF id] by blast
qed

text \<open>
  The observation of a sequence of holders, each followed by \<^verbatim>\<open>maybeReportTransition\<close> as the
  loops do it.
\<close>

definition observe_holder :: "'s LeaderElector \<Rightarrow> string \<Rightarrow> 's LeaderElector" where
  "observe_holder le h =
     maybeReportTransition (le\<lparr>observedRecord := (observedRecord le)\<lparr>HolderIdentity := h\<rparr>\<rparr>)"

lemma observe_holder_simps:
  assumes "OnNewLeader (cCallbacks (config le)) = Some f"
  shows "config (observe_holder le h) = config le"
    and "reportedLeader (observe_holder le h) = h"
    and "effects (observe_holder le h) =
           effects le @ (if h = reportedLeader le then [] else [NewLeader f h])"
  using assms by (simp_all add: observe_holder_def maybeReportTransition_def emit_def Let_def)



text \<open>
  The health check fails exactly for a leader whose last successful observation is older
  than the lease duration plus the tolerance, on the monotonic clock; it never fails for a
  client that is not the leader, and it changes nothing but the clock.
\<close>

theorem Check_iff:
  assumes "monotonic (observedTime le) = Some a"
    and "monotonic (readings (le_clock le) (tick (le_clock le))) = Some b"
    and "is_i64 (b - a)" and "is_i64 (LeaseDuration (config le) + tol)"
  shows "(fst (Check tol le) \<noteq> None \<longleftrightarrow>
            IsLeader le \<and> LeaseDuration (config le) + tol < b - a) \<and>
         observedRecord (snd (Check tol le)) = observedRecord le \<and>
         lockState (snd (Check tol le)) = lockState le"
  using assms
  by (auto simp: Check_def clock_Since_def clock_Now_def time_Sub_def sat64_id i64_id Let_def)

theorem Check_iff_witness:
  "fst (Check Second (demo_expired\<lparr>observedRecord := demo_record ''a''\<rparr>)) \<noteq> None"
proof -
  let ?le = "demo_expired\<lparr>observedRecord := demo_record ''a''\<rparr>"
  have "(fst (Check Second ?le) \<noteq> None \<longleftrightarrow>
        IsLeader ?le \<and> LeaseDuration (config ?le) + Second < 20000000000 - 0) \<and>
      observedRecord (snd (Check Second ?le)) = observedRecord ?le \<and>
      lockState (snd (Check Second ?le)) = lockState ?le"
    by (rule Check_iff [where a = 0 and b = 20000000000])
      (simp_all add: demo_expired_def demo_defs is_i64_def Second_def)
  then show ?thesis
    by (simp add: IsLeader_iff lock_def) (simp add: demo_expired_def demo_defs Second_def)
qed

end
