(* ===== verification/Net_Lock.thy ===== *)
theory Net_Lock
  imports Elector_Properties
begin

text \<open>
  The abstract compare-and-swap lock behind a network: a read can fail; a write can be refused,
  or take effect although its answer is lost (the client then keeps the version it knew). The
  store may represent a record in a format of its own (\<open>stores_as\<close>).
  \<open>Election_Safety\<close> proves mutual exclusion over this lock, and \<open>Kube_Lease\<close> shows that
  the Kubernetes lease refines it.
\<close>

section \<open>The shared lock with faults\<close>

datatype fault = NoFault | Refused | LostAck

record net_state =
  base :: cas_state
  rfault :: bool
  wfault :: fault
  stores_as :: "Record \<Rightarrow> Record"

definition net_Get :: "ctx \<Rightarrow> net_state \<Rightarrow> (go_error + Record \<times> bytes) \<times> net_state" where
  "net_Get c s =
     (if rfault s then (Inl (ErrText ''unavailable''), s)
      else let (x, b) = cas_Get c (base s) in (x, s\<lparr>base := b\<rparr>))"

definition net_write ::
    "(cas_state \<Rightarrow> go_error option \<times> cas_state) \<Rightarrow> net_state \<Rightarrow> go_error option \<times> net_state" where
  "net_write f s =
     (case wfault s of
        NoFault \<Rightarrow> (let (x, b) = f (base s) in (x, s\<lparr>base := b\<rparr>))
      | Refused \<Rightarrow> (Some (ErrText ''refused''), s)
      | LostAck \<Rightarrow> (Some DeadlineExceeded, s\<lparr>base := (base s)\<lparr>cell := cell (snd (f (base s)))\<rparr>\<rparr>))"

definition net_lock :: "net_state Lock" where
  "net_lock =
     \<lparr>Get = net_Get, Create = (\<lambda>c r s. net_write (cas_Create c (stores_as s r)) s),
      Update = (\<lambda>c r s. net_write (cas_Update c (stores_as s r)) s),
      RecordEvent = (\<lambda>_ s. s), Identity = (\<lambda>s. me (base s)), Describe = (\<lambda>_. ''net'')\<rparr>"

lemma net_lock_sel [simp]:
  "Get net_lock = net_Get" "Create net_lock c r s = net_write (cas_Create c (stores_as s r)) s"
  "Update net_lock c r s = net_write (cas_Update c (stores_as s r)) s" "RecordEvent net_lock m s = s"
  "Identity net_lock s = me (base s)"
  by (simp_all add: net_lock_def)

lemma net_write_me:
  "(\<And>b. me (snd (f b)) = me b) \<Longrightarrow> me (base (snd (net_write f s))) = me (base s)"
  by (simp add: net_write_def split_beta Let_def split: fault.splits)

lemma stores_as_net [simp]:
  "stores_as (snd (net_Get c s)) = stores_as s" "stores_as (snd (net_write f s)) = stores_as s"
  by (simp_all add: net_Get_def net_write_def split_beta Let_def split: fault.splits)

lemma stores_as_netD:
  "net_Get c s = (x, s') \<Longrightarrow> stores_as s' = stores_as s" "net_write f s = (e, s') \<Longrightarrow> stores_as s' = stores_as s"
  using stores_as_net(1) [of c s] stores_as_net(2) [of f s] by simp_all

text \<open>
  What the election needs of the format, for an elector that writes leases of \<open>ms\<close> milliseconds:
  it keeps the holder and that lease, and a lease of at most a second stays one.
\<close>

definition lease_format :: "int \<Rightarrow> (Record \<Rightarrow> Record) \<Rightarrow> bool" where
  "lease_format ms f \<longleftrightarrow>
     (\<forall>r. wf_Record r \<longrightarrow>
        wf_Record (f r) \<and> HolderIdentity (f r) = HolderIdentity r \<and>
        (LeaseDurationMilliSeconds r = ms \<longrightarrow> LeaseDurationMilliSeconds (f r) = ms) \<and>
        (LeaseDurationMilliSeconds r \<in> {1..1000} \<longrightarrow> LeaseDurationMilliSeconds (f r) \<in> {1..1000}))"

lemma lease_formatD:
  assumes "lease_format ms f" and "wf_Record r"
  shows "wf_Record (f r)" and "HolderIdentity (f r) = HolderIdentity r"
    and "LeaseDurationMilliSeconds r = ms \<Longrightarrow> LeaseDurationMilliSeconds (f r) = ms"
    and "LeaseDurationMilliSeconds r \<in> {1..1000} \<Longrightarrow> LeaseDurationMilliSeconds (f r) \<in> {1..1000}"
  using assms by (simp_all add: lease_format_def)

lemma lease_format_id [simp]: "lease_format ms id"
  by (simp add: lease_format_def)

interpretation net: lock_identity net_lock
  by unfold_locales (simp_all add: net_Get_def split_beta Let_def net_write_me)

end
