(* ===== verification/Election_Safety.thy ===== *)
theory Election_Safety
  imports Net_Lock
begin

text \<open>
  A set of electors over one shared lock: the compare-and-swap cell with faults of
  \<open>Net_Lock\<close>. Each elector reads its own monotonic clock; the clocks may show different times
  and run at different rates, between two bounds. A step
  of the system is one whole attempt of one elector, one elector giving the lease up, or the
  passing of time; \<open>Election_Interleaved\<close> splits the attempts.

  Ghost components record since when the stored record is there, all records ever stored, and
  for each elector the clock reading at its last successful attempt since it last gave up.
\<close>

section \<open>The system\<close>

abbreviation stored :: "net_state LeaderElector \<Rightarrow> (nat \<times> Record) option" where
  "stored le \<equiv> cell (base (lockState le))"

abbreviation version :: "net_state LeaderElector \<Rightarrow> nat option" where
  "version le \<equiv> seen (base (lockState le))"

record system =
  now_g :: int
  store :: "(nat \<times> Record) option"
  since :: int
  hist :: "Record set"
  node :: "nat \<Rightarrow> net_state LeaderElector"
  lastOK :: "nat \<Rightarrow> int option"

text \<open>Elector \<open>i\<close> about to make an attempt: it sees the store, with some faults.\<close>

definition ready :: "system \<Rightarrow> nat \<Rightarrow> bool \<Rightarrow> fault \<Rightarrow> net_state LeaderElector" where
  "ready S i rd wr =
     (node S i)\<lparr>lockState := (lockState (node S i))
        \<lparr>base := (base (lockState (node S i)))\<lparr>cell := store S\<rparr>, rfault := rd, wfault := wr\<rparr>\<rparr>"

text \<open>
  The clocks of the electors against real time, which is counted in some unit: \<open>moment ck i m\<close> is
  when the clock of elector \<open>i\<close> reads \<open>m\<close>, and a nanosecond on any clock takes between \<open>tmin\<close> and
  \<open>tmax\<close> units.
\<close>

record clocks =
  moment :: "nat \<Rightarrow> int \<Rightarrow> int"
  tmin :: int
  tmax :: int

definition wf_clocks :: "clocks \<Rightarrow> bool" where
  "wf_clocks ck \<longleftrightarrow>
     0 < tmin ck \<and>
     (\<forall>i m m'. m \<le> m' \<longrightarrow>
        moment ck i m + tmin ck * (m' - m) \<le> moment ck i m' \<and>
        moment ck i m' \<le> moment ck i m + tmax ck * (m' - m))"

lemma wf_clocksD:
  assumes "wf_clocks ck"
  shows "0 < tmin ck" and "m \<le> m' \<Longrightarrow> moment ck i m \<le> moment ck i m'"
    and "0 \<le> d \<Longrightarrow> m + d \<le> m' \<Longrightarrow> moment ck i m + tmin ck * d \<le> moment ck i m'"
    and "0 \<le> d \<Longrightarrow> moment ck i (m + d) \<le> moment ck i m + tmax ck * d"
proof -
  have pos: "0 < tmin ck"
    and lo: "m \<le> m' \<Longrightarrow> moment ck i m + tmin ck * (m' - m) \<le> moment ck i m'"
    and hi: "m \<le> m' \<Longrightarrow> moment ck i m' \<le> moment ck i m + tmax ck * (m' - m)" for m m'
    using assms by (auto simp: wf_clocks_def)
  show "0 < tmin ck" by (rule pos)
  show "moment ck i m \<le> moment ck i m'" if "m \<le> m'"
  proof -
    have "0 \<le> tmin ck * (m' - m)" using pos that by (intro mult_nonneg_nonneg) simp_all
    with lo [OF that] show ?thesis by linarith
  qed
  show "moment ck i m + tmin ck * d \<le> moment ck i m'" if "0 \<le> d" "m + d \<le> m'"
  proof -
    have "tmin ck * d \<le> tmin ck * (m' - m)" using pos that by (intro mult_left_mono) simp_all
    moreover have "moment ck i m + tmin ck * (m' - m) \<le> moment ck i m'" using that by (intro lo) simp
    ultimately show ?thesis by linarith
  qed
  show "moment ck i (m + d) \<le> moment ck i m + tmax ck * d" if "0 \<le> d"
    using hi [of m "m + d"] that by simp
qed

text \<open>The clock readings that an attempt takes lie within the interval of the step.\<close>

definition reads_within :: "(int \<Rightarrow> int) \<Rightarrow> int \<Rightarrow> int \<Rightarrow> clock \<Rightarrow> clock \<Rightarrow> bool" where
  "reads_within d t t' c c' \<longleftrightarrow>
     (\<forall>k. tick c \<le> k \<and> k < tick c' \<longrightarrow>
        t \<le> d (mono_of (readings c k)) \<and> d (mono_of (readings c k)) \<le> t')"

text \<open>Every write stores a record that was never stored before.\<close>

definition fresh_write :: "system \<Rightarrow> net_state LeaderElector \<Rightarrow> bool" where
  "fresh_write S le' \<longleftrightarrow>
     stored le' = store S \<or> (\<exists>v r. stored le' = Some (v, r) \<and> r \<notin> hist S)"

text \<open>The system after a turn of elector \<open>i\<close>, with \<open>ok\<close> its last success from then on.\<close>

definition after_turn ::
    "system \<Rightarrow> nat \<Rightarrow> net_state LeaderElector \<Rightarrow> int option \<Rightarrow> int \<Rightarrow> system" where
  "after_turn S i le' ok t =
     S\<lparr>now_g := t, store := stored le',
       since := (if stored le' = store S then since S else t),
       hist := (case stored le' of None \<Rightarrow> hist S | Some (v, r) \<Rightarrow> insert r (hist S)),
       node := (node S)(i := le'),
       lastOK := (lastOK S)(i := ok)\<rparr>"

inductive sys_step :: "clocks \<Rightarrow> system \<Rightarrow> system \<Rightarrow> bool" for ck where
  pass: "now_g S \<le> t \<Longrightarrow> sys_step ck S (S\<lparr>now_g := t\<rparr>)"
| attempt: "tryAcquireOrRenew c (ready S i rd wr) = (b, le') \<Longrightarrow> now_g S \<le> t \<Longrightarrow>
     reads_within (moment ck i) (now_g S) t (le_clock (node S i)) (le_clock le') \<Longrightarrow>
     fresh_write S le' \<Longrightarrow>
     sys_step ck S (after_turn S i le'
       (if b then Some (moment ck i (mono_of (attempt_time (node S i)))) else lastOK S i) t)"
| give_up: "release (ready S i rd wr) = (b, le') \<Longrightarrow> now_g S \<le> t \<Longrightarrow> fresh_write S le' \<Longrightarrow>
     sys_step ck S (after_turn S i le' None t)"

inductive_cases sys_stepE: "sys_step ck S S'"

text \<open>The lease an elector writes, in nanoseconds (whole milliseconds of the configured one).\<close>

definition leaseMs :: "'s LeaderElector \<Rightarrow> int" where
  "leaseMs le = LeaseDuration (config le) sdiv Millisecond"

definition lease :: "'s LeaderElector \<Rightarrow> int" where
  "lease le = Millisecond * leaseMs le"

text \<open>
  A configured elector: the shared lock, a clock with plausible readings, a lease of at least
  one millisecond that the format of the store keeps.
\<close>

definition wf_node :: "string \<Rightarrow> net_state LeaderElector \<Rightarrow> bool" where
  "wf_node ident le \<longleftrightarrow>
     lock le = net_lock \<and> me (base (lockState le)) = ident \<and> real_clock (le_clock le) \<and>
     (\<forall>n. 0 \<le> mono_of (readings (le_clock le) n) \<and> mono_of (readings (le_clock le) n) < 2 ^ 62) \<and>
     Millisecond \<le> LeaseDuration (config le) \<and> LeaseDuration (config le) < 2 ^ 62 \<and>
     lease_format (leaseMs le) (stores_as (lockState le))"

definition init_system :: "(nat \<Rightarrow> string) \<Rightarrow> system \<Rightarrow> bool" where
  "init_system ident S \<longleftrightarrow>
     store S = None \<and> hist S = {} \<and> lastOK S = (\<lambda>_. None) \<and>
     (\<forall>i. wf_node (ident i) (node S i) \<and> observedRawRecord (node S i) = [] \<and>
        observedRecord (node S i) = zero_Record \<and> version (node S i) = None)"

inductive reachable :: "(nat \<Rightarrow> string) \<Rightarrow> clocks \<Rightarrow> system \<Rightarrow> bool" for ident ck where
  start: "init_system ident S \<Longrightarrow> reachable ident ck S"
| step: "reachable ident ck S \<Longrightarrow> sys_step ck S S' \<Longrightarrow> reachable ident ck S'"

text \<open>Distinct, non-empty identities in valid UTF-8.\<close>

definition wf_ident :: "(nat \<Rightarrow> string) \<Rightarrow> bool" where
  "wf_ident ident \<longleftrightarrow> inj ident \<and> (\<forall>i. ident i \<noteq> [] \<and> valid_utf8 (ident i))"

section \<open>What an attempt does over the shared lock\<close>

text \<open>The observation of a stored record \<open>r\<close>, and whether it blocks the elector.\<close>

definition obsRec :: "Record \<Rightarrow> net_state LeaderElector \<Rightarrow> Record" where
  "obsRec r le = (if observedRawRecord le \<noteq> json_bytes r then r else observedRecord le)"

definition obsTime :: "Record \<Rightarrow> net_state LeaderElector \<Rightarrow> go_time" where
  "obsTime r le =
     (if observedRawRecord le \<noteq> json_bytes r
      then readings (le_clock le) (Suc (tick (le_clock le))) else observedTime le)"

definition blocked :: "Record \<Rightarrow> net_state LeaderElector \<Rightarrow> bool" where
  "blocked r le \<longleftrightarrow>
     HolderIdentity r \<noteq> [] \<and>
     time_After (time_Add (obsTime r le) (i64 (Millisecond * LeaseDurationMilliSeconds r)))
       (attempt_time le) \<and>
     HolderIdentity (obsRec r le) \<noteq> me (base (lockState le))"

lemma observe_fields:
  "observedRecord (observe r (json_bytes r) (after_Get s1 le)) = obsRec r le"
  "observedTime (observe r (json_bytes r) (after_Get s1 le)) = obsTime r le"
  by (simp_all add: observe_def obsRec_def obsTime_def)

lemma heldByOther_blocked:
  assumes "lock le = net_lock" and "me (base s1) = me (base (lockState le))"
  shows "heldByOther r (attempt_time le) (observe r (json_bytes r) (after_Get s1 le)) = blocked r le"
  using assms
  by (auto simp: heldByOther_def leaseRunning_def IsLeader_iff blocked_def observe_fields)

lemma net_Get_Inr:
  "net_Get c s = (Inr (old, raw), s1) \<Longrightarrow>
   (\<exists>v. cell (base s) = Some (v, old) \<and> s1 = s\<lparr>base := (base s)\<lparr>seen := Some v\<rparr>\<rparr>) \<and>
   raw = json_bytes old"
  by (auto simp: net_Get_def split_beta Let_def cas_Get_def split: option.splits if_splits)

lemma net_Get_Inl:
  "net_Get c s = (Inl e, s1) \<Longrightarrow> s1 = s \<and> (errors_Is e ErrNotExist \<longrightarrow> cell (base s) = None)"
  by (auto simp: net_Get_def split_beta Let_def cas_Get_def split: option.splits if_splits)

text \<open>Writing: either nothing happens and the error is reported, or the record is stored.\<close>

lemma net_create_outcome:
  assumes "net_write (cas_Create c r) s = (e, s')" and "cell (base s) = None"
  shows "base s' = base s \<and> e \<noteq> None \<or> 
         cell (base s') = Some (0, r) \<and> seen (base s') \<in> {Some 0, seen (base s)}"
  using assms by (auto simp: net_write_def cas_Create_def split: fault.splits)

lemma net_update_outcome:
  assumes "net_write (cas_Update c r) s = (e, s')"
  shows "base s' = base s \<and> e \<noteq> None \<or>
         (\<exists>v r0. cell (base s) = Some (v, r0) \<and> seen (base s) = Some v \<and>
            cell (base s') = Some (Suc v, r) \<and> seen (base s') \<in> {Some (Suc v), Some v})"
  using assms
  by (auto simp: net_write_def cas_Update_def split: fault.splits option.splits prod.splits if_splits)

text \<open>
  The outcomes of a turn of an elector \<open>le\<close> over a store: nothing, an observation, the
  creation of the record, an update. \<open>full\<close> tells whether the turn is an attempt (it writes
  the elector's lease) or a release (it writes a lease of one millisecond, which the store
  may keep as one of up to a second).
\<close>

definition own_record :: "bool \<Rightarrow> net_state LeaderElector \<Rightarrow> Record \<Rightarrow> bool" where
  "own_record full le w \<longleftrightarrow>
     HolderIdentity w = me (base (lockState le)) \<and>
     (if full then LeaseDurationMilliSeconds w = leaseMs le else LeaseDurationMilliSeconds w \<in> {1..1000}) \<and>
     is_i64 (RenewTime w) \<and> is_i64 (AcquireTime w) \<and> is_i64 (LeaderTransitions w)"

definition same_view :: "net_state LeaderElector \<Rightarrow> net_state LeaderElector \<Rightarrow> bool" where
  "same_view le le' \<longleftrightarrow>
     observedRecord le' = observedRecord le \<and> observedRawRecord le' = observedRawRecord le \<and>
     observedTime le' = observedTime le"

definition observed_view :: "Record \<Rightarrow> net_state LeaderElector \<Rightarrow> net_state LeaderElector \<Rightarrow> bool" where
  "observed_view r le le' \<longleftrightarrow>
     observedRecord le' = obsRec r le \<and> observedRawRecord le' = json_bytes r \<and>
     observedTime le' = obsTime r le \<and>
     (observedRawRecord le \<noteq> json_bytes r \<longrightarrow> Suc (tick (le_clock le)) < tick (le_clock le'))"

inductive turn :: "bool \<Rightarrow> net_state LeaderElector \<Rightarrow> bool \<Rightarrow> net_state LeaderElector \<Rightarrow> bool"
  for full le where
  idle: "stored le' = stored le \<Longrightarrow> same_view le le' \<Longrightarrow> version le' = version le \<Longrightarrow>
    turn full le False le'"
| observed: "stored le = Some (v, r) \<Longrightarrow> stored le' = stored le \<Longrightarrow> observed_view r le le' \<Longrightarrow>
    version le' = Some v \<Longrightarrow> full \<Longrightarrow> turn full le False le'"
| created: "stored le = None \<Longrightarrow> stored le' = Some (0, w) \<Longrightarrow> version le' \<in> {Some 0, version le} \<Longrightarrow>
    own_record full le w \<Longrightarrow> full \<Longrightarrow> observedRawRecord le' = observedRawRecord le \<Longrightarrow>
    (wf_Record (observedRecord le) \<Longrightarrow> wf_Record (observedRecord le')) \<Longrightarrow> turn full le b le'"
| written: "stored le = Some (v, r) \<Longrightarrow> stored le' = Some (Suc v, w) \<Longrightarrow>
    version le' \<in> {Some (Suc v), Some v} \<Longrightarrow> (wf_Record r \<Longrightarrow> wf_Record (observedRecord le) \<Longrightarrow> own_record full le w) \<Longrightarrow>
    observedRawRecord le' \<in> {observedRawRecord le, json_bytes r} \<Longrightarrow>
    (wf_Record r \<Longrightarrow> wf_Record (observedRecord le) \<Longrightarrow> wf_Record (observedRecord le')) \<Longrightarrow>
    (if full then \<not> blocked r le
     else version le = Some v \<and> HolderIdentity (observedRecord le) = me (base (lockState le))) \<Longrightarrow>
    turn full le b le'"

lemma try_tick:
  "tryAcquireOrRenew c le = (b, le') \<Longrightarrow> tick (le_clock le) < tick (le_clock le')"
  by (erule tryAcquireOrRenew_cases) (simp_all add: observe_def)

lemma own_freshRecord: "lock le = net_lock \<Longrightarrow> own_record True le (freshRecord le)"
  by (simp add: own_record_def leaseMs_def UnixMilli_def is_i64_i64) (simp add: is_i64_def)

lemma own_correctRecord:
  "lock le = net_lock \<Longrightarrow> wf_Record r \<Longrightarrow> own_record True le (correctRecord r x (freshRecord le))"
  using own_freshRecord [of le]
  by (auto simp: own_record_def correctRecord_def wf_Record_def is_i64_i64)

lemma own_releaseRecord:
  "IsLeader le \<Longrightarrow> lock le = net_lock \<Longrightarrow> wf_Record (observedRecord le) \<Longrightarrow>
   own_record False le (releaseRecord le t)"
  by (simp add: own_record_def releaseRecord_def IsLeader_iff wf_Record_def UnixMilli_def is_i64_i64)

lemma wf_nodeD:
  assumes "wf_node n le"
  shows "lock le = net_lock" and "me (base (lockState le)) = n"
    and "lease_format (leaseMs le) (stores_as (lockState le))" and "is_i64 (leaseMs le)"
proof -
  show "lock le = net_lock" "me (base (lockState le)) = n" "lease_format (leaseMs le) (stores_as (lockState le))"
    using assms by (simp_all add: wf_node_def)
  have l: "Millisecond \<le> LeaseDuration (config le)" "LeaseDuration (config le) < 2 ^ 62"
    using assms by (auto simp: wf_node_def)
  then have "leaseMs le = LeaseDuration (config le) div 1000000"
    by (simp add: leaseMs_def sdiv_nonneg Millisecond_def)
  moreover have "0 \<le> d div 1000000 \<and> d div 1000000 \<le> d" if "0 \<le> d" for d :: int
    using that by (simp add: pos_imp_zdiv_nonneg_iff zdiv_mono2 [of d 1 1000000, simplified])
  ultimately show "is_i64 (leaseMs le)" using l by (fastforce simp: is_i64_def Millisecond_def)
qed

lemma own_record_wf:
  assumes "own_record full le w" and "wf_node n le"
  shows "wf_Record w"
  using assms wf_nodeD(4) [OF assms(2)]
  by (cases full) (auto simp: own_record_def wf_Record_def is_i64_def)

text \<open>The record as the store keeps it is the elector's own, too.\<close>

lemma own_stored:
  assumes "own_record full le w" and "wf_node n le"
  shows "own_record full le (stores_as (lockState le) w)"
  using assms(1) lease_formatD [OF wf_nodeD(3) [OF assms(2)] own_record_wf [OF assms]]
  by (cases full) (simp_all add: own_record_def wf_Record_def)

lemma obsRec_cases: "obsRec r le \<in> {observedRecord le, r}"
  by (simp add: obsRec_def)

text \<open>The read of an attempt, in terms of the store.\<close>

lemma read_store:
  assumes "lock le = net_lock" and "Get (lock le) c (lockState le) = (Inr (old, raw), s1)"
  obtains v where "stored le = Some (v, old)" and "raw = json_bytes old"
    and "cell (base s1) = Some (v, old)" and "seen (base s1) = Some v"
    and "me (base s1) = me (base (lockState le))" and "stores_as s1 = stores_as (lockState le)"
  using net_Get_Inr [of c "lockState le" old raw s1] assms by auto

text \<open>The update of an attempt: refused, or applied over a record that did not block.\<close>

lemma attempt_update:
  assumes wf: "wf_node n le" and "Get (lock le) c (lockState le) = (Inr (old, raw), s1)"
    and "\<not> heldByOther old (attempt_time le) (observe old raw (after_Get s1 le))"
    and "Update (lock le) c
           (correctRecord old (observe old raw (after_Get s1 le)) (freshRecord le)) s1 = (e, s2)"
    and "le' = (if e = None then setObservedRecord
             (correctRecord old (observe old raw (after_Get s1 le)) (freshRecord le))
             ((observe old raw (after_Get s1 le))\<lparr>lockState := s2\<rparr>)
           else (observe old raw (after_Get s1 le))\<lparr>lockState := s2\<rparr>)"
  shows "turn True le (e = None) le'"
proof -
  let ?r = "correctRecord old (observe old raw (after_Get s1 le)) (freshRecord le)"
  let ?w = "stores_as (lockState le) ?r"
  note lk = wf_nodeD(1) [OF wf]
  obtain v where v: "stored le = Some (v, old)" "raw = json_bytes old"
      "cell (base s1) = Some (v, old)" "seen (base s1) = Some v"
      "me (base s1) = me (base (lockState le))" "stores_as s1 = stores_as (lockState le)"
    using lk assms(2) by (rule read_store)
  have nb: "\<not> blocked old le" using lk assms(3) v by (simp add: heldByOther_blocked)
  have own: "own_record True le ?r" if "wf_Record old" using own_correctRecord [OF lk that] .
  have "net_write (cas_Update c ?w) s1 = (e, s2)" using lk assms(4) v(6) by simp
  from net_update_outcome [OF this] show ?thesis
  proof
    assume refused: "base s2 = base s1 \<and> e \<noteq> None"
    then have "le' = (observe old raw (after_Get s1 le))\<lparr>lockState := s2\<rparr>" using assms(5) by auto
    with refused have "turn True le False le'"
      by (intro turn.observed [of _ v old])
        (use v in \<open>simp_all add: observed_view_def observe_fields, simp add: observe_def\<close>)
    with refused show ?thesis by auto
  next
    assume "\<exists>v r0. cell (base s1) = Some (v, r0) \<and> seen (base s1) = Some v \<and>
        cell (base s2) = Some (Suc v, ?w) \<and> seen (base s2) \<in> {Some (Suc v), Some v}"
    then show ?thesis
      using v nb assms(5) own own_stored [OF own wf] own_record_wf [OF own wf] obsRec_cases [of old le]
      by (intro turn.written [of _ v old _ ?w]) (auto simp: observe_fields)
  qed
qed

lemma attempt_create:
  assumes wf: "wf_node n le" and "Get (lock le) c (lockState le) = (Inl err, s1)"
    and "errors_Is err ErrNotExist" and "Create (lock le) c (freshRecord le) s1 = (e, s2)"
    and "le' = (if e = None then setObservedRecord (freshRecord le) ((after_Get s1 le)\<lparr>lockState := s2\<rparr>)
           else (after_Get s1 le)\<lparr>lockState := s2\<rparr>)"
  shows "turn True le (e = None) le'"
proof -
  let ?w = "stores_as (lockState le) (freshRecord le)"
  note lk = wf_nodeD(1) [OF wf]
  have s1: "s1 = lockState le" "stored le = None"
    using lk assms(2,3) net_Get_Inl [of c "lockState le" err s1] by auto
  have "net_write (cas_Create c ?w) s1 = (e, s2)" using lk s1 assms(4) by simp
  from net_create_outcome [OF this] have
    "base s2 = base s1 \<and> e \<noteq> None \<or> cell (base s2) = Some (0, ?w) \<and>
      seen (base s2) \<in> {Some 0, seen (base s1)}"
    using s1 by simp
  then show ?thesis
  proof
    assume refused: "base s2 = base s1 \<and> e \<noteq> None"
    then have "le' = (after_Get s1 le)\<lparr>lockState := s2\<rparr>" using assms(5) by auto
    with refused s1 have "turn True le False le'" by (intro turn.idle) (simp_all add: same_view_def)
    with refused show ?thesis by auto
  next
    assume "cell (base s2) = Some (0, ?w) \<and>
      seen (base s2) \<in> {Some 0, seen (base s1)}"
    moreover note own = own_freshRecord [OF lk]
    ultimately show ?thesis using s1 own_stored [OF own wf] own_record_wf [OF own wf] assms(5)
      by (intro turn.created [of _ _ ?w]) simp_all
  qed
qed

lemma attempt_turn:
  assumes "wf_node n le" and "tryAcquireOrRenew c le = (b, le')"
  shows "turn True le b le'"
  using assms(2)
proof (cases rule: tryAcquireOrRenew_cases)
  case (GetError err s1)
  then have "s1 = lockState le" using wf_nodeD(1) [OF assms(1)] by (auto dest!: net_Get_Inl)
  with GetError have "turn True le False le'" by (intro turn.idle) (simp_all add: same_view_def)
  then show ?thesis using GetError by simp
next
  case (CreateError err s1 e s2)
  then show ?thesis using attempt_create [OF assms(1) CreateError(1-3), of le'] by simp
next
  case (Created err s1 s2)
  then show ?thesis using attempt_create [OF assms(1) Created(1-3), of le'] by simp
next
  case (Held old raw s1)
  from wf_nodeD(1) [OF assms(1)] Held(1) obtain v where v: "stored le = Some (v, old)" "raw = json_bytes old"
      "cell (base s1) = Some (v, old)" "seen (base s1) = Some v" by (rule read_store)
  have "turn True le False le'"
    by (rule turn.observed [of _ v old])
      (use v Held in \<open>simp_all add: observed_view_def observe_fields, simp add: observe_def\<close>)
  then show ?thesis using Held by simp
next
  case (UpdateError old raw s1 e s2)
  then show ?thesis using attempt_update [OF assms(1) UpdateError(1-3), of le'] by simp
next
  case (Updated old raw s1 s2)
  then show ?thesis using attempt_update [OF assms(1) Updated(1-3), of le'] by simp
qed

lemma release_turn:
  assumes wf: "wf_node n le" and "release le = (b, le')"
  shows "\<exists>b'. turn False le b' le'"
proof (cases "IsLeader le")
  case False
  with assms(2) have "turn False le False le'" by (intro turn.idle) (simp_all add: release_unfold same_view_def)
  then show ?thesis ..
next
  case True
  let ?r = "releaseRecord le (attempt_time le)"
  let ?w = "stores_as (lockState le) ?r"
  note lk = wf_nodeD(1) [OF wf]
  obtain e s2 where u: "net_write (cas_Update context_TODO ?w) (lockState le) = (e, s2)"
    by (meson surj_pair)
  then have le': "le' = (if e = None then setObservedRecord ?r (after_Get s2 le) else after_Get s2 le)"
    using True lk assms(2) by (simp add: release_unfold split: option.splits)
  have own: "own_record False le ?r" if "wf_Record (observedRecord le)"
    using own_releaseRecord [OF True lk that] .
  from net_update_outcome [OF u] show ?thesis
  proof
    assume "base s2 = base (lockState le) \<and> e \<noteq> None"
    then have "turn False le False le'" by (intro turn.idle) (auto simp: le' same_view_def)
    then show ?thesis ..
  next
    assume "\<exists>v r0. stored le = Some (v, r0) \<and> version le = Some v \<and>
        cell (base s2) = Some (Suc v, ?w) \<and> seen (base s2) \<in> {Some (Suc v), Some v}"
    then obtain v r0 where "stored le = Some (v, r0)" "version le = Some v"
        "cell (base s2) = Some (Suc v, ?w)" "seen (base s2) \<in> {Some (Suc v), Some v}" by blast
    then have "turn False le b le'"
      using True lk own_stored [OF own wf] own_record_wf [OF own wf]
      by (intro turn.written [of _ v r0 _ ?w]) (simp_all add: le' IsLeader_iff)
    then show ?thesis ..
  qed
qed

section \<open>The invariant\<close>

text \<open>
  A record in the history: written by some elector, with that elector's lease or, on release,
  with a short one.
\<close>

definition good_record :: "(nat \<Rightarrow> string) \<Rightarrow> system \<Rightarrow> Record \<Rightarrow> bool" where
  "good_record ident S r \<longleftrightarrow>
     wf_Record r \<and>
     (\<exists>i. HolderIdentity r = ident i \<and> LeaseDurationMilliSeconds r \<in> insert (leaseMs (node S i)) {1..1000})"

text \<open>
  What elector \<open>i\<close> knows of the stored record \<open>r\<close>: if the bytes it remembers are those of
  \<open>r\<close>, then it observed \<open>r\<close> on its own clock after \<open>r\<close> was stored.
\<close>

definition knows :: "(int \<Rightarrow> int) \<Rightarrow> int \<Rightarrow> net_state LeaderElector \<Rightarrow> Record \<Rightarrow> bool" where
  "knows d t le r \<longleftrightarrow>
     (observedRawRecord le = json_bytes r \<longrightarrow>
        observedRecord le = r \<and>
        (\<exists>n. observedTime le = readings (le_clock le) n) \<and>
        t \<le> d (mono_of (observedTime le)))"

text \<open>Elector \<open>i\<close> succeeded last at \<open>w\<close>: it still holds the store, or its lease is over.\<close>

definition holds_or_over :: "(nat \<Rightarrow> string) \<Rightarrow> clocks \<Rightarrow> system \<Rightarrow> nat \<Rightarrow> int \<Rightarrow> bool" where
  "holds_or_over ident ck S i w \<longleftrightarrow>
     (\<exists>v r. store S = Some (v, r) \<and> HolderIdentity r = ident i \<and>
        LeaseDurationMilliSeconds r = leaseMs (node S i) \<and> w \<le> since S) \<or>
     w + tmin ck * lease (node S i) \<le> now_g S"

text \<open>What holds of one elector with identity \<open>n\<close> and clock \<open>d\<close>.\<close>

definition node_ok :: "string \<Rightarrow> (int \<Rightarrow> int) \<Rightarrow> system \<Rightarrow> net_state LeaderElector \<Rightarrow> bool" where
  "node_ok n d S le \<longleftrightarrow>
     wf_node n le \<and> wf_Record (observedRecord le) \<and>
     observedRawRecord le \<in> insert [] (json_bytes ` hist S) \<and>
     (\<forall>u. version le = Some u \<longrightarrow> (\<exists>v r. store S = Some (v, r) \<and> u \<le> v)) \<and>
     (\<forall>v r. store S = Some (v, r) \<longrightarrow> knows d (since S) le r) \<and>
     (\<forall>v r. store S = Some (v, r) \<and> version le = Some v \<and> HolderIdentity (observedRecord le) = n \<longrightarrow>
        HolderIdentity r = n)"

definition Inv :: "(nat \<Rightarrow> string) \<Rightarrow> clocks \<Rightarrow> system \<Rightarrow> bool" where
  "Inv ident ck S \<longleftrightarrow>
     wf_clocks ck \<and>
     (\<forall>r \<in> hist S. good_record ident S r) \<and>
     (\<forall>v r. store S = Some (v, r) \<longrightarrow> r \<in> hist S \<and> since S \<le> now_g S) \<and>
     (\<forall>i. node_ok (ident i) (moment ck i) S (node S i)) \<and>
     (\<forall>i w. lastOK S i = Some w \<longrightarrow> holds_or_over ident ck S i w)"

lemma InvD:
  assumes "Inv ident ck S"
  shows "r \<in> hist S \<Longrightarrow> good_record ident S r"
    and "store S = Some (v, r) \<Longrightarrow> r \<in> hist S"
    and "store S = Some (v, r) \<Longrightarrow> since S \<le> now_g S"
    and "node_ok (ident i) (moment ck i) S (node S i)"
    and "lastOK S i = Some w \<Longrightarrow> holds_or_over ident ck S i w"
    and "wf_clocks ck"
  using assms by (auto simp: Inv_def)

lemma node_okD:
  assumes "node_ok n d S le"
  shows "wf_node n le" and "wf_Record (observedRecord le)"
    and "observedRawRecord le = [] \<or> (\<exists>r \<in> hist S. observedRawRecord le = json_bytes r)"
    and "version le = Some u \<Longrightarrow> \<exists>v r. store S = Some (v, r) \<and> u \<le> v"
    and "store S = Some (v, r) \<Longrightarrow> knows d (since S) le r"
    and "store S = Some (v, r) \<Longrightarrow> version le = Some v \<Longrightarrow> HolderIdentity (observedRecord le) = n \<Longrightarrow>
      HolderIdentity r = n"
  using assms by (auto simp: node_ok_def)

lemma wf_zero_Record: "wf_Record zero_Record"
  by (simp add: wf_Record_def zero_Record_def is_i64_def)

lemma Inv_init: "init_system ident S \<Longrightarrow> wf_clocks ck \<Longrightarrow> Inv ident ck S"
  by (simp add: Inv_def init_system_def node_ok_def wf_zero_Record)

lemma lease_bounds:
  assumes "wf_node ident le"
  shows "0 < lease le" and "lease le < 2 ^ 62"
proof -
  have l: "Millisecond \<le> LeaseDuration (config le)" "LeaseDuration (config le) < 2 ^ 62"
    using assms by (auto simp: wf_node_def)
  then have ms: "leaseMs le = LeaseDuration (config le) div 1000000"
    by (simp add: leaseMs_def sdiv_nonneg Millisecond_def)
  have "0 < LeaseDuration (config le) div 1000000"
    using l(1) by (simp add: Millisecond_def pos_imp_zdiv_pos_iff)
  then show "0 < lease le" by (simp add: lease_def ms Millisecond_def)
  have "1000000 * (LeaseDuration (config le) div 1000000) \<le> LeaseDuration (config le)"
    by simp
  then show "lease le < 2 ^ 62" using l(2) by (simp add: lease_def ms Millisecond_def)
qed

lemma ready_simps [simp]:
  "config (ready S i rd wr) = config (node S i)"
  "lock (ready S i rd wr) = lock (node S i)"
  "stored (ready S i rd wr) = store S"
  "version (ready S i rd wr) = version (node S i)"
  "me (base (lockState (ready S i rd wr))) = me (base (lockState (node S i)))"
  "le_clock (ready S i rd wr) = le_clock (node S i)"
  "observedRecord (ready S i rd wr) = observedRecord (node S i)"
  "observedRawRecord (ready S i rd wr) = observedRawRecord (node S i)"
  "observedTime (ready S i rd wr) = observedTime (node S i)"
  "attempt_time (ready S i rd wr) = attempt_time (node S i)"
  "leaseMs (ready S i rd wr) = leaseMs (node S i)"
  "stores_as (lockState (ready S i rd wr)) = stores_as (lockState (node S i))"
  by (simp_all add: ready_def lock_def attempt_time_def leaseMs_def)

lemma wf_node_ready [simp]: "wf_node n (ready S i rd wr) = wf_node n (node S i)"
  by (simp add: wf_node_def)

lemma good_record_inj:
  assumes "wf_ident ident" and "good_record ident S r" and "good_record ident S r'"
    and "json_bytes r = json_bytes r'"
  shows "r = r'"
proof -
  have "valid_utf8 (HolderIdentity r)" "valid_utf8 (HolderIdentity r')"
    using assms by (auto simp: wf_ident_def good_record_def)
  then show ?thesis using assms json_bytes_inject [of r r'] by (auto simp: good_record_def)
qed

lemma good_lease_bounds:
  assumes "Inv ident ck S" and "r \<in> hist S"
  shows "0 < Millisecond * LeaseDurationMilliSeconds r" and "Millisecond * LeaseDurationMilliSeconds r < 2 ^ 62"
proof -
  obtain j where "LeaseDurationMilliSeconds r \<in> insert (leaseMs (node S j)) {1..1000}"
    using InvD(1) [OF assms] by (auto simp: good_record_def)
  then show "0 < Millisecond * LeaseDurationMilliSeconds r" "Millisecond * LeaseDurationMilliSeconds r < 2 ^ 62"
    using lease_bounds [OF node_okD(1) [OF InvD(4) [OF assms(1), of j]]]
    by (auto simp: lease_def Millisecond_def)
qed

text \<open>A lease that no longer blocks an elector has run its full time since it was stored.\<close>

lemma unblocked_waits:
  assumes inv: "Inv ident ck S" and st: "store S = Some (v, r)"
    and nb: "\<not> blocked r (ready S i rd wr)"
    and other: "HolderIdentity r \<noteq> []" "HolderIdentity r \<noteq> ident i"
  shows "since S + tmin ck * (Millisecond * LeaseDurationMilliSeconds r) \<le> moment ck i (mono_of (attempt_time (node S i)))"
proof -
  let ?le = "node S i" and ?L = "Millisecond * LeaseDurationMilliSeconds r"
  note wf = node_okD(1) [OF InvD(4) [OF inv, of i]]
  have me: "me (base (lockState ?le)) = ident i" and clk: "real_clock (le_clock ?le)"
    and bnd: "\<And>n. 0 \<le> mono_of (readings (le_clock ?le) n) \<and> mono_of (readings (le_clock ?le) n) < 2 ^ 62"
    using wf by (auto simp: wf_node_def)
  have L: "0 < ?L" "?L < 2 ^ 62" using good_lease_bounds [OF inv InvD(2) [OF inv st]] by simp_all
  have iL: "i64 ?L = ?L" using L by (simp add: i64_id is_i64_def)
  have run: "time_After (time_Add (readings (le_clock ?le) n) ?L) (attempt_time ?le) \<longleftrightarrow>
      mono_of (attempt_time ?le) < mono_of (readings (le_clock ?le) n) + ?L" for n
    using L bnd [of n] clk
    by (intro time_After_Add_mono) (simp_all add: real_clock_Some attempt_time_def is_i64_def)
  show ?thesis
  proof (cases "observedRawRecord ?le = json_bytes r")
    case True
    then obtain n where k: "observedRecord ?le = r" "observedTime ?le = readings (le_clock ?le) n"
        "since S \<le> moment ck i (mono_of (observedTime ?le))"
      using node_okD(5) [OF InvD(4) [OF inv] st, of i] by (auto simp: knows_def)
    then have "\<not> mono_of (attempt_time ?le) < mono_of (readings (le_clock ?le) n) + ?L"
      using nb other me True run [of n] by (simp add: blocked_def obsRec_def obsTime_def iL)
    then have "moment ck i (mono_of (observedTime ?le)) + tmin ck * ?L \<le> moment ck i (mono_of (attempt_time ?le))"
      using L(1) k(2) by (intro wf_clocksD(3) [OF InvD(6) [OF inv]]) simp_all
    with k(3) show ?thesis by simp
  next
    case False
    have "mono_of (attempt_time ?le) \<le> mono_of (readings (le_clock ?le) (Suc (tick (le_clock ?le))))"
      using clk by (simp add: attempt_time_def real_clock_le)
    with False nb other me L run [of "Suc (tick (le_clock ?le))"] show ?thesis
      by (simp add: blocked_def obsRec_def obsTime_def iL)
  qed
qed

text \<open>A write over the record of another elector comes after the full time of that record.\<close>

lemma written_waits:
  assumes idn: "wf_ident ident" and inv: "Inv ident ck S" and st: "store S = Some (v, r)"
    and how: "if full then \<not> blocked r (ready S i rd wr)
      else version (ready S i rd wr) = Some v \<and>
        HolderIdentity (observedRecord (ready S i rd wr)) = me (base (lockState (ready S i rd wr)))"
    and other: "HolderIdentity r \<noteq> ident i"
    and t: "full \<Longrightarrow> moment ck i (mono_of (attempt_time (node S i))) \<le> t"
  shows "since S + tmin ck * (Millisecond * LeaseDurationMilliSeconds r) \<le> t"
proof (cases full)
  case True
  have "HolderIdentity r \<noteq> []"
    using InvD(1,2) [OF inv] st idn by (fastforce simp: good_record_def wf_ident_def)
  then show ?thesis using True how unblocked_waits [OF inv st _ _ other] t by force
next
  case False
  have me: "me (base (lockState (node S i))) = ident i"
    using node_okD(1) [OF InvD(4) [OF inv]] by (simp add: wf_node_def)
  show ?thesis using False how node_okD(6) [OF InvD(4) [OF inv] st] me other by simp
qed

section \<open>Preservation\<close>

text \<open>What no turn changes of an elector.\<close>

definition same_elector :: "net_state LeaderElector \<Rightarrow> net_state LeaderElector \<Rightarrow> bool" where
  "same_elector le le' \<longleftrightarrow>
     config le' = config le \<and> readings (le_clock le') = readings (le_clock le) \<and>
     me (base (lockState le')) = me (base (lockState le)) \<and>
     stores_as (lockState le') = stores_as (lockState le)"

lemma same_elector_simps:
  assumes "same_elector le le'"
  shows "leaseMs le' = leaseMs le" and "lease le' = lease le" and "wf_node n le' = wf_node n le"
  using assms
  by (simp_all add: same_elector_def leaseMs_def lease_def wf_node_def lock_def real_clock_def)

lemma attempt_same:
  assumes "lock le = net_lock" and "tryAcquireOrRenew c le = (b, le')"
  shows "same_elector le le'"
proof -
  have "stores_as (lockState le') = stores_as (lockState le)"
    using assms(2) by (cases rule: tryAcquireOrRenew_cases)
      (use assms(1) in \<open>auto dest!: stores_as_netD\<close>)
  then show ?thesis
    using net.try_identity [OF assms] tryAcquireOrRenew_frame [OF assms(2)] by (simp add: same_elector_def)
qed

lemma release_same:
  assumes "lock le = net_lock" and "release le = (b, le')"
  shows "same_elector le le'"
proof -
  let ?u = "net_write (cas_Update context_TODO (stores_as (lockState le) (releaseRecord le (attempt_time le)))) (lockState le)"
  have "me (base (snd ?u)) = me (base (lockState le))" by (simp add: net_write_me)
  then show ?thesis using assms
    by (auto simp: release_unfold same_elector_def split: if_splits option.splits prod.splits dest: stores_as_netD)
qed

lemma same_ready: "same_elector (ready S i rd wr) le' = same_elector (node S i) le'"
  by (simp add: same_elector_def)

lemma after_turn_simps [simp]:
  "now_g (after_turn S i le' ok t) = t"
  "store (after_turn S i le' ok t) = stored le'"
  "since (after_turn S i le' ok t) = (if stored le' = store S then since S else t)"
  "node (after_turn S i le' ok t) = (node S)(i := le')"
  "lastOK (after_turn S i le' ok t) = (lastOK S)(i := ok)"
  by (simp_all add: after_turn_def)

lemma hist_after_turn:
  "Inv ident ck S \<Longrightarrow> stored le' = store S \<Longrightarrow> hist (after_turn S i le' ok t) = hist S"
  "stored le' = Some (v, w) \<Longrightarrow> hist (after_turn S i le' ok t) = insert w (hist S)"
  using InvD(2) by (fastforce simp: after_turn_def split: option.splits)+

lemma good_record_turn:
  assumes "same_elector (node S i) le'"
  shows "good_record ident (after_turn S i le' ok t) r = good_record ident S r"
proof -
  have "leaseMs (((node S)(i := le')) j) = leaseMs (node S j)" for j
    using same_elector_simps(1) [OF assms] by simp
  then show ?thesis unfolding good_record_def after_turn_simps by presburger
qed

lemma node_ok_cong:
  "store S' = store S \<Longrightarrow> since S' = since S \<Longrightarrow> hist S' = hist S \<Longrightarrow> node_ok n d S' le = node_ok n d S le"
  by (simp add: node_ok_def)

text \<open>A turn that leaves the store alone.\<close>

lemma quiet_Inv:
  assumes inv: "Inv ident ck S" and same: "same_elector (node S i) le'"
    and st: "stored le' = store S" and t: "now_g S \<le> t"
    and ok: "node_ok (ident i) (moment ck i) S le'" and last: "ok = lastOK S i \<or> ok = None"
  shows "Inv ident ck (after_turn S i le' ok t)"
proof -
  let ?S = "after_turn S i le' ok t"
  have cong: "node_ok n d ?S le = node_ok n d S le" for n d le
    by (rule node_ok_cong) (simp_all add: st hist_after_turn(1) [OF inv st])
  have "holds_or_over ident ck ?S j w" if "lastOK ?S j = Some w" for j w
  proof -
    have "lastOK S j = Some w" using that last by (auto split: if_splits)
    then have "holds_or_over ident ck S j w" by (rule InvD(5) [OF inv])
    then show ?thesis using t st same_elector_simps(1,2) [OF same] by (auto simp: holds_or_over_def)
  qed
  moreover have "since S \<le> t" if "store S = Some (v, r)" for v r
    using InvD(3) [OF inv that] t by simp
  ultimately show ?thesis
    using InvD(1-4,6) [OF inv] ok
    by (auto simp: Inv_def cong st hist_after_turn(1) [OF inv st] good_record_turn [OF same])
qed

text \<open>A turn that writes.\<close>

lemma lastOK_past:
  assumes "Inv ident ck S" and "lastOK S i = Some w"
  shows "w \<le> now_g S"
proof -
  have "0 < tmin ck * lease (node S i)"
    using lease_bounds(1) [OF node_okD(1) [OF InvD(4) [OF assms(1), of i]]] wf_clocksD(1) [OF InvD(6) [OF assms(1)]]
    by simp
  then show ?thesis using InvD(5) [OF assms] InvD(3) [OF assms(1)] by (force simp: holds_or_over_def)
qed

lemma own_record_good:
  assumes "own_record full (node S i) w" and "Inv ident ck S"
  shows "good_record ident S w"
proof -
  note wf = node_okD(1) [OF InvD(4) [OF assms(2), of i]]
  show ?thesis using assms(1) own_record_wf [OF assms(1) wf] wf_nodeD(2) [OF wf]
    by (auto simp: good_record_def own_record_def split: if_splits)
qed

lemma write_node_ok:
  assumes idn: "wf_ident ident" and inv: "Inv ident ck S"
    and st: "stored le' = Some (v', w)" and new: "w \<notin> hist S" and good: "good_record ident S w"
    and ver: "\<And>v r. store S = Some (v, r) \<Longrightarrow> v < v'"
    and le: "wf_node n le" "wf_Record (observedRecord le)"
    and raw: "observedRawRecord le = [] \<or> (\<exists>r \<in> hist S. observedRawRecord le = json_bytes r)"
    and vle: "version le = Some v' \<and> HolderIdentity w = n \<or>
              (\<forall>u. version le = Some u \<longrightarrow> (\<exists>v r. store S = Some (v, r) \<and> u \<le> v))"
  shows "node_ok n d (after_turn S i le' ok t) le"
proof -
  have unknown: "observedRawRecord le \<noteq> json_bytes w"
    using raw good_record_inj [OF idn good InvD(1) [OF inv]] new by fastforce
  have "\<exists>v r. store S = Some (v, r) \<and> u \<le> v" if "version le = Some u" "u \<noteq> v'" for u
    using vle that by auto
  then have "u \<le> v'" if "version le = Some u" for u
    using that ver by (cases "u = v'") fastforce+
  moreover have "HolderIdentity w = n" if "version le = Some v'"
    using vle that ver by fastforce
  ultimately show ?thesis
    using le raw unknown
    by (auto simp: node_ok_def knows_def st hist_after_turn(2) [OF st])
qed

lemma write_Inv:
  assumes idn: "wf_ident ident" and inv: "Inv ident ck S" and same: "same_elector (node S i) le'"
    and t: "now_g S \<le> t" and st: "stored le' = Some (v', w)" and new: "w \<notin> hist S"
    and own: "own_record full (node S i) w" and ver: "\<And>v r. store S = Some (v, r) \<Longrightarrow> v < v'"
    and le': "version le' = Some v' \<or>
        (\<forall>u. version le' = Some u \<longrightarrow> (\<exists>v r. store S = Some (v, r) \<and> u \<le> v))" "wf_Record (observedRecord le')"
      "observedRawRecord le' = [] \<or> (\<exists>r \<in> hist S. observedRawRecord le' = json_bytes r)"
    and over: "\<And>v r. store S = Some (v, r) \<Longrightarrow> HolderIdentity r \<noteq> ident i \<Longrightarrow>
        since S + tmin ck * (Millisecond * LeaseDurationMilliSeconds r) \<le> t"
    and last: "\<And>x. ok = Some x \<Longrightarrow> full \<and> x \<le> t"
  shows "Inv ident ck (after_turn S i le' ok t)"
proof -
  let ?S = "after_turn S i le' ok t"
  note good = own_record_good [OF own inv]
  have me: "HolderIdentity w = ident i"
    using own node_okD(1) [OF InvD(4) [OF inv, of i]] by (simp add: own_record_def wf_node_def)
  have changed: "stored le' \<noteq> store S" using new InvD(2) [OF inv, of v' w] st by auto
  have nodes: "node_ok (ident j) (moment ck j) ?S (node ?S j)" for j
  proof (rule write_node_ok [OF idn inv st new good ver])
    show "wf_node (ident j) (node ?S j)"
      using node_okD(1) [OF InvD(4) [OF inv, of j]] same_elector_simps(3) [OF same] by (cases "j = i") auto
    show "wf_Record (observedRecord (node ?S j))"
      using node_okD(2) [OF InvD(4) [OF inv, of j]] le'(2) by simp
    show "observedRawRecord (node ?S j) = [] \<or> (\<exists>r \<in> hist S. observedRawRecord (node ?S j) = json_bytes r)"
      using node_okD(3) [OF InvD(4) [OF inv, of j]] le'(3) by simp
    show "version (node ?S j) = Some v' \<and> HolderIdentity w = ident j \<or>
        (\<forall>u. version (node ?S j) = Some u \<longrightarrow> (\<exists>v r. store S = Some (v, r) \<and> u \<le> v))"
      using node_okD(4) [OF InvD(4) [OF inv, of j]] le'(1) me by (cases "j = i") auto
  qed
  have "holds_or_over ident ck ?S j x" if "lastOK ?S j = Some x" for j x
  proof (cases "j = i")
    case True
    then have "full \<and> x \<le> t" using that last by simp
    then show ?thesis using True me own st changed same_elector_simps(1) [OF same]
      by (simp add: holds_or_over_def own_record_def)
  next
    case False
    then have "ident j \<noteq> ident i" using idn by (auto simp: wf_ident_def inj_def)
    moreover have "holds_or_over ident ck S j x" using False that InvD(5) [OF inv] by simp
    ultimately have "x + tmin ck * lease (node S j) \<le> t"
      using t over by (fastforce simp: holds_or_over_def lease_def)
    with False show ?thesis by (simp add: holds_or_over_def)
  qed
  then show ?thesis
    using InvD(1,6) [OF inv] good nodes changed st
    by (auto simp: Inv_def hist_after_turn(2) [OF st] good_record_turn [OF same])
qed

text \<open>An elector that observed the stored record.\<close>

lemma observed_node_ok:
  assumes inv: "Inv ident ck S" and same: "same_elector (node S i) le'"
    and st: "store S = Some (v, r)" and view: "observed_view r (ready S i rd wr) le'"
    and ver: "version le' = Some v"
    and reads: "reads_within (moment ck i) (now_g S) t (le_clock (node S i)) (le_clock le')"
  shows "node_ok (ident i) (moment ck i) S le'"
proof -
  note ok = InvD(4) [OF inv, of i]
  have rd: "readings (le_clock le') = readings (le_clock (node S i))"
    using same by (simp add: same_elector_def)
  note kn = node_okD(5) [OF ok st]
  have r: "r \<in> hist S" "wf_Record r"
    using InvD(1,2) [OF inv] st by (auto simp: good_record_def)
  have rec: "observedRecord le' = r"
    using view kn by (auto simp: observed_view_def obsRec_def knows_def)
  have "knows (moment ck i) (since S) le' r"
  proof (cases "observedRawRecord (node S i) = json_bytes r")
    case True
    then show ?thesis using kn view rec rd by (auto simp: observed_view_def obsTime_def knows_def)
  next
    case False
    then have "now_g S \<le> moment ck i (mono_of (observedTime le'))"
      using reads view by (auto simp: observed_view_def obsTime_def reads_within_def)
    then show ?thesis using False view rec rd InvD(3) [OF inv st]
      by (auto simp: observed_view_def obsTime_def knows_def)
  qed
  then show ?thesis
    using rec r st ver view node_okD(1) [OF ok] same_elector_simps(3) [OF same]
    by (auto simp: node_ok_def observed_view_def)
qed

lemma idle_node_ok:
  assumes "node_ok n d S (node S i)" and "same_elector (node S i) le'"
    and "same_view (ready S i rd wr) le'" and "version le' = version (node S i)"
  shows "node_ok n d S le'"
proof -
  have "knows d x le' r = knows d x (node S i) r" for x r
    using assms(2,3) by (simp add: knows_def same_view_def same_elector_def)
  then show ?thesis
    using assms(1,3,4) unfolding node_ok_def same_elector_simps(3) [OF assms(2)] same_view_def ready_simps
    by metis
qed

text \<open>Every turn preserves the invariant.\<close>

lemma wf_Record_own: "Inv ident ck S \<Longrightarrow> own_record full (node S i) w \<Longrightarrow> wf_Record w"
  using own_record_good by (auto simp: good_record_def)

lemma turn_Inv:
  assumes idn: "wf_ident ident" and inv: "Inv ident ck S"
    and turn: "turn full (ready S i rd wr) b le'" and same: "same_elector (node S i) le'"
    and fresh: "fresh_write S le'" and t: "now_g S \<le> t"
    and reads: "full \<Longrightarrow> reads_within (moment ck i) (now_g S) t (le_clock (node S i)) (le_clock le')"
    and tick: "full \<Longrightarrow> tick (le_clock (node S i)) < tick (le_clock le')"
    and ok: "ok = None \<or> full \<and> ok =
      (if b then Some (moment ck i (mono_of (attempt_time (node S i)))) else lastOK S i)"
  shows "Inv ident ck (after_turn S i le' ok t)"
proof -
  note nok = InvD(4) [OF inv, of i]
  have att: "moment ck i (mono_of (attempt_time (node S i))) \<le> t" if full
    using reads [OF that] tick [OF that] by (auto simp: reads_within_def attempt_time_def)
  have last: "full \<and> x \<le> t" if "ok = Some x" for x
    using that ok att lastOK_past [OF inv, of i x] t by (auto split: if_splits)
  have own: "own_record full (ready S i rd wr) w = own_record full (node S i) w" for w
    by (simp add: own_record_def)
  from turn show ?thesis
  proof cases
    case idle
    then have "node_ok (ident i) (moment ck i) S le'" using idle_node_ok [OF nok same, of rd wr] by simp
    then show ?thesis using quiet_Inv [OF inv same _ t] idle ok by auto
  next
    case (observed v r)
    then have "node_ok (ident i) (moment ck i) S le'"
      using observed_node_ok [OF inv same _ observed(4) _ reads] by auto
    then show ?thesis using quiet_Inv [OF inv same _ t] observed ok by auto
  next
    case (created w)
    have "w \<notin> hist S" using fresh created by (simp add: fresh_write_def)
    moreover have "wf_Record (observedRecord le')"
      using created node_okD(2) [OF nok] by simp
    moreover have "version (node S i) = None"
      using created(1) node_okD(4) [OF nok] by (cases "version (node S i)") auto
    ultimately show ?thesis
      using created own last node_okD(3) [OF nok] by (intro write_Inv [OF idn inv same t, of 0 w full]) simp_all
  next
    case (written v r w)
    then have st: "store S = Some (v, r)" by simp
    have r: "r \<in> hist S" "wf_Record r"
      using InvD(1,2) [OF inv] st by (auto simp: good_record_def)
    have w: "own_record full (node S i) w" using written(4) r(2) node_okD(2) [OF nok] own by simp
    have "w \<notin> hist S" using fresh written by (simp add: fresh_write_def)
    moreover have "wf_Record (observedRecord le')"
      using written(6) r(2) node_okD(2) [OF nok] by simp
    moreover have "observedRawRecord le' = [] \<or> (\<exists>r \<in> hist S. observedRawRecord le' = json_bytes r)"
      using written(5) r(1) node_okD(3) [OF nok] by auto
    moreover have "since S + tmin ck * (Millisecond * LeaseDurationMilliSeconds r) \<le> t" if "HolderIdentity r \<noteq> ident i"
      by (rule written_waits [OF idn inv st written(7) that att])
    ultimately show ?thesis
      using written(2,3) w st last by (intro write_Inv [OF idn inv same t, of "Suc v" w full]) auto
  qed
qed

lemma attempt_reads:
  assumes "reads_within d x t (le_clock le) (le_clock le')" and "tick (le_clock le) < tick (le_clock le')"
  shows "d (mono_of (attempt_time le)) \<le> t"
  using assms by (auto simp: reads_within_def attempt_time_def)

lemma ready_wf: "Inv ident ck S \<Longrightarrow> wf_node (ident i) (ready S i rd wr)"
  using node_okD(1) [OF InvD(4)] by simp

lemma ready_lock: "Inv ident ck S \<Longrightarrow> lock (ready S i rd wr) = net_lock"
  using wf_nodeD(1) [OF ready_wf] .

lemma step_Inv:
  assumes "wf_ident ident" and "Inv ident ck S" and "sys_step ck S S'"
  shows "Inv ident ck S'"
  using assms(3)
proof cases
  case (pass t)
  have "node_ok n d S' le = node_ok n d S le" for n d le
    by (rule node_ok_cong) (simp_all add: pass)
  moreover have "holds_or_over ident ck S' i w" if "holds_or_over ident ck S i w" for i w
    using that pass by (auto simp: holds_or_over_def)
  ultimately show ?thesis
    using assms(2) InvD(3) [OF assms(2)] pass by (fastforce simp: Inv_def good_record_def)
next
  case (attempt c i rd wr b le' t)
  note lk = ready_lock [OF assms(2), of i rd wr]
  show ?thesis unfolding attempt(1)
    using attempt_turn [OF ready_wf [OF assms(2)] attempt(2)] attempt_same [OF lk attempt(2)] attempt try_tick [OF attempt(2)]
    by (intro turn_Inv [OF assms(1,2), of True]) (auto simp: same_ready)
next
  case (give_up i rd wr b le' t)
  note lk = ready_lock [OF assms(2), of i rd wr]
  obtain b' where "turn False (ready S i rd wr) b' le'"
    using release_turn [OF ready_wf [OF assms(2)] give_up(2)] ..
  then show ?thesis unfolding give_up(1)
    using release_same [OF lk give_up(2)] give_up
    by (intro turn_Inv [OF assms(1,2), of False]) (simp_all add: same_ready)
qed

lemma reachable_Inv: "reachable ident ck S \<Longrightarrow> wf_ident ident \<Longrightarrow> wf_clocks ck \<Longrightarrow> Inv ident ck S"
  by (induction rule: reachable.induct) (auto intro: Inv_init step_Inv)

lemma Inv_exclusive:
  assumes "Inv ident ck S" and "wf_ident ident" and "i \<noteq> j"
    and "lastOK S i = Some w" and "lastOK S j = Some w'"
  shows "\<not> (now_g S < w + tmin ck * lease (node S i) \<and> now_g S < w' + tmin ck * lease (node S j))"
proof -
  have "ident i \<noteq> ident j" using assms(2,3) by (auto simp: wf_ident_def inj_def)
  with InvD(5) [OF assms(1,4)] InvD(5) [OF assms(1,5)] show ?thesis
    by (auto simp: holds_or_over_def)
qed

text \<open>The stored record changes hands only in a turn that wrote it.\<close>

lemma turn_waits:
  assumes "wf_ident ident" and "Inv ident ck S" and "turn full (ready S i rd wr) b le'"
    and "store S = Some (v, r)" and "stored le' = Some (v', r')" and "HolderIdentity r' \<noteq> HolderIdentity r"
    and "full \<Longrightarrow> moment ck i (mono_of (attempt_time (node S i))) \<le> t"
  shows "since S + tmin ck * (Millisecond * LeaseDurationMilliSeconds r) \<le> t"
  using assms(3)
proof cases
  case (written v2 r2 w)
  note nok = InvD(4) [OF assms(2), of i]
  have "wf_Record r"
    using InvD(1,2) [OF assms(2)] assms(4) by (fastforce simp: good_record_def)
  then have "HolderIdentity w = ident i"
    using written(1,4) assms(4) node_okD(1,2) [OF nok] by (simp add: own_record_def wf_node_def)
  then have "HolderIdentity r \<noteq> ident i" using written(2) assms(5,6) by simp
  with written_waits [OF assms(1,2,4)] written assms(4,7) show ?thesis by force
qed (use assms(4-6) in auto)

section \<open>An example run\<close>

text \<open>
  Elector 2 creates the record at once. Elector 3 observes it, finds it unchanged twenty
  seconds later, and takes over.
\<close>

definition run_ident :: "nat \<Rightarrow> string" where
  "run_ident i = replicate (Suc i) (CHR ''a'')"

definition run_clock :: clock where
  "run_clock =
     \<lparr>readings = (\<lambda>n. if n < 2 then \<lparr>wall = 0, monotonic = Some 0\<rparr>
        else \<lparr>wall = 20 * Second, monotonic = Some (20 * Second)\<rparr>), tick = 0\<rparr>"

text \<open>The clock of elector 2 runs at half the rate of the others.\<close>

definition run_clocks :: clocks where
  "run_clocks = \<lparr>moment = (\<lambda>i m. if i = 2 then 2 * m else m), tmin = 1, tmax = 2\<rparr>"

definition run_node :: "nat \<Rightarrow> net_state LeaderElector" where
  "run_node i =
     (demo_elector net_lock
        \<lparr>base = \<lparr>me = run_ident i, cell = None, seen = None\<rparr>, rfault = False, wfault = NoFault, stores_as = id\<rparr>)
     \<lparr>le_clock := run_clock\<rparr>"

definition run0 :: system where
  "run0 = \<lparr>now_g = 0, store = None, since = 0, hist = {}, node = run_node, lastOK = (\<lambda>_. None)\<rparr>"

definition run_try :: "system \<Rightarrow> nat \<Rightarrow> bool \<times> net_state LeaderElector" where
  "run_try S i = tryAcquireOrRenew None (ready S i False NoFault)"

definition run_next :: "system \<Rightarrow> nat \<Rightarrow> int \<Rightarrow> system" where
  "run_next S i t =
     after_turn S i (snd (run_try S i))
       (if fst (run_try S i) then Some (moment run_clocks i (mono_of (attempt_time (node S i)))) else lastOK S i) t"

definition run1 :: system where "run1 = run_next run0 2 0"
definition run2 :: system where "run2 = run_next run1 3 0"
definition run3 :: system where "run3 = run_next run2 3 (20 * Second)"

lemma wf_run_ident: "wf_ident run_ident"
proof -
  have "valid_utf8 (replicate n (CHR ''a''))" for n
    by (induction n) (simp_all add: rune_size_def)
  moreover have "inj run_ident"
    unfolding run_ident_def inj_def by (metis length_replicate nat.inject)
  ultimately show ?thesis unfolding wf_ident_def by (simp add: run_ident_def del: replicate_Suc)
qed

lemma run_ident_neq [simp]: "run_ident 2 \<noteq> run_ident 3" "run_ident 3 \<noteq> run_ident 2" "run_ident i \<noteq> []"
  by (simp_all add: run_ident_def)

lemma wf_run_clocks: "wf_clocks run_clocks"
  by (simp add: wf_clocks_def run_clocks_def)

lemma run_clocks_sel [simp]:
  "tmin run_clocks = 1" "moment run_clocks i 0 = 0" "moment run_clocks 3 m = m" "moment run_clocks 2 m = 2 * m"
  by (simp_all add: run_clocks_def)

lemma init_run0: "init_system run_ident run0"
  by (auto simp: init_system_def run0_def run_node_def wf_node_def demo_elector_def lock_def demo_config_def
      run_clock_def real_clock_def mono_of_def Second_def Millisecond_def)

lemma run0_sel:
  "now_g run0 = 0" "store run0 = None" "hist run0 = {}" "node run0 = run_node"
  by (simp_all add: run0_def)

lemma run_step:
  assumes "now_g S \<le> t" and "fresh_write S (snd (run_try S i))"
    and "reads_within (moment run_clocks i) (now_g S) t (le_clock (node S i)) (le_clock (snd (run_try S i)))"
  shows "sys_step run_clocks S (run_next S i t)"
  using sys_step.attempt [of None S i False NoFault "fst (run_try S i)" "snd (run_try S i)" t run_clocks] assms
  unfolding run_next_def run_try_def by simp

definition run_record :: "nat \<Rightarrow> int \<Rightarrow> int \<Rightarrow> Record" where
  "run_record i t k =
     \<lparr>HolderIdentity = run_ident i, LeaseDurationMilliSeconds = 15000, AcquireTime = t,
      RenewTime = t, LeaderTransitions = k\<rparr>"

lemmas run_defs = run_try_def run_node_def ready_def tryAcquireOrRenew_def net_Get_def
  cas_Get_def net_write_def cas_Create_def cas_Update_def clock_Now_def elector_defs
  demo_elector_def demo_config_def run_clock_def split_beta Let_def UnixMilli_def i64_def
  Second_def Millisecond_def time_After_def time_Add_def sdiv_nonneg run_record_def

lemma run_try1:
  "run_try run0 2 = (True, (run_node 2)\<lparr>observedRecord := run_record 2 0 0,
     observedTime := \<lparr>wall = 0, monotonic = Some 0\<rparr>, le_clock := run_clock\<lparr>tick := 2\<rparr>,
     lockState := \<lparr>base = \<lparr>me = run_ident 2, cell = Some (0, run_record 2 0 0), seen = Some 0\<rparr>,
        rfault = False, wfault = NoFault, stores_as = id\<rparr>\<rparr>)"
  by (simp add: run0_def run_defs)

lemma run1_sel:
  "now_g run1 = 0" "store run1 = Some (0, run_record 2 0 0)" "since run1 = 0"
  "hist run1 = {run_record 2 0 0}" "node run1 = (run_node)(2 := snd (run_try run0 2))"
  "lastOK run1 = (\<lambda>_. None)(2 \<mapsto> 0)"
  by (simp_all add: run1_def run_next_def run_try1 after_turn_def)
    (simp_all add: run0_def attempt_time_def run_node_def run_clock_def mono_of_def fun_eq_iff)

lemma run_try2:
  "run_try run1 3 = (False, (run_node 3)\<lparr>observedRecord := run_record 2 0 0,
     observedRawRecord := json_bytes (run_record 2 0 0), observedTime := \<lparr>wall = 0, monotonic = Some 0\<rparr>,
     le_clock := run_clock\<lparr>tick := 2\<rparr>,
     lockState := \<lparr>base = \<lparr>me = run_ident 3, cell = Some (0, run_record 2 0 0), seen = Some 0\<rparr>,
        rfault = False, wfault = NoFault, stores_as = id\<rparr>\<rparr>)"
  by (simp add: run1_sel run_defs)

lemma run2_sel:
  "now_g run2 = 0" "store run2 = Some (0, run_record 2 0 0)" "since run2 = 0"
  "hist run2 = {run_record 2 0 0}" "node run2 = (node run1)(3 := snd (run_try run1 3))"
  "lastOK run2 = (\<lambda>_. None)(2 \<mapsto> 0)"
  by (simp_all add: run2_def run_next_def run_try2 after_turn_def run1_sel)

definition run_taken :: Record where
  "run_taken = (run_record 3 20000 1)"

lemma run_try3:
  "run_try run2 3 = (True, (snd (run_try run1 3))\<lparr>observedRecord := run_taken,
     observedTime := \<lparr>wall = 20 * Second, monotonic = Some (20 * Second)\<rparr>,
     le_clock := run_clock\<lparr>tick := 4\<rparr>,
     lockState := \<lparr>base = \<lparr>me = run_ident 3, cell = Some (Suc 0, run_taken), seen = Some (Suc 0)\<rparr>,
        rfault = False, wfault = NoFault, stores_as = id\<rparr>\<rparr>)"
proof -
  have n: "node run2 3 = snd (run_try run1 3)" by (simp add: run2_sel)
  show ?thesis unfolding run_try_def [of run2] ready_def n run2_sel(2) run_try2 snd_conv run_taken_def
    by (simp add: run_defs)
qed

lemma run3_sel:
  "now_g run3 = 20 * Second" "store run3 = Some (Suc 0, run_taken)"
  "lastOK run3 2 = Some 0" "lastOK run3 3 = Some (20 * Second)"
  by (simp_all add: run3_def run_next_def run_try3 after_turn_def run2_sel run_try2)
    (simp add: attempt_time_def run_clock_def mono_of_def)

lemma run_steps:
  "sys_step run_clocks run0 run1" "sys_step run_clocks run1 run2" "sys_step run_clocks run2 run3"
proof -
  show "sys_step run_clocks run0 run1" unfolding run1_def
    by (rule run_step) (simp_all add: run_try1 fresh_write_def reads_within_def run0_sel run_node_def
        run_clock_def mono_of_def)
  show "sys_step run_clocks run1 run2" unfolding run2_def
    by (rule run_step) (simp_all add: run_try2 run1_sel fresh_write_def reads_within_def run_node_def
        run_clock_def mono_of_def)
  show "sys_step run_clocks run2 run3" unfolding run3_def
    by (rule run_step) (simp_all add: run_try3 run2_sel fresh_write_def reads_within_def run_try2
        run_clock_def mono_of_def run_taken_def run_record_def Second_def)
qed

lemma reachable_run: "reachable run_ident run_clocks run2" "reachable run_ident run_clocks run3"
  using reachable.start [OF init_run0] run_steps by (blast intro: reachable.step)+


section \<open>Safety of the election\<close>

text \<open>
  A lease is respected by every elector: the stored record passes from one holder to
  another only after the first record's lease duration has gone by since it was stored,
  whatever the offsets of the clocks, whichever requests fail, and also when the answer to a
  request that took effect is lost. A holder that gives up shortens its lease to a millisecond.
\<close>

theorem takeover_waits:
  assumes "wf_ident ident" and "wf_clocks ck" and "reachable ident ck S" and "sys_step ck S S'"
    and "store S = Some (v, r)" and "store S' = Some (v', r')"
    and "HolderIdentity r' \<noteq> HolderIdentity r"
  shows "since S + tmin ck * (Millisecond * LeaseDurationMilliSeconds r) \<le> now_g S'"
proof -
  note inv = reachable_Inv [OF assms(3,1,2)]
  from assms(4) show ?thesis
  proof cases
    case (attempt c i rd wr b le' t)
    note tr = attempt_turn [OF ready_wf [OF inv] attempt(2)]
    show ?thesis using turn_waits [OF assms(1) inv tr assms(5)] assms(6,7)
        attempt_reads [OF attempt(4)] try_tick [OF attempt(2)] attempt(1) by simp
  next
    case (give_up i rd wr b le' t)
    obtain b' where tr: "turn False (ready S i rd wr) b' le'"
      using release_turn [OF ready_wf [OF inv] give_up(2)] ..
    show ?thesis using turn_waits [OF assms(1) inv tr assms(5)] assms(6,7) give_up(1) by simp
  qed (use assms(5-7) in auto)
qed

theorem takeover_waits_witness: "Millisecond * 15000 \<le> now_g run3"
proof -
  have "HolderIdentity run_taken \<noteq> HolderIdentity (run_record 2 0 0)"
    using run_ident_neq by (simp add: run_taken_def run_record_def)
  from takeover_waits [OF wf_run_ident wf_run_clocks reachable_run(1) run_steps(3) run2_sel(2) run3_sel(2) this]
  show ?thesis by (simp add: run2_sel run_record_def)
qed

text \<open>
  Mutual exclusion: at no moment are two electors both within their lease, counted from the
  clock reading that began the last successful attempt of each.
\<close>

theorem exclusive_lease:
  assumes "wf_ident ident" and "wf_clocks ck" and "reachable ident ck S" and "i \<noteq> j"
    and "lastOK S i = Some w" and "lastOK S j = Some w'"
  shows "\<not> (now_g S < w + tmin ck * lease (node S i) \<and> now_g S < w' + tmin ck * lease (node S j))"
  using Inv_exclusive [OF reachable_Inv [OF assms(3,1,2)] assms(1,4-6)] .

theorem exclusive_lease_witness:
  "\<not> (now_g run3 < 0 + tmin run_clocks * lease (node run3 2) \<and> now_g run3 < 20 * Second + tmin run_clocks * lease (node run3 3))"
  by (rule exclusive_lease [OF wf_run_ident wf_run_clocks reachable_run(2) _ run3_sel(3,4)]) simp

end
