(* ===== verification/Election_Interleaved.thy ===== *)
theory Election_Interleaved
  imports Election_Safety
begin

text \<open>
  The electors of \<open>Election_Safety\<close> with a finer grain. An attempt is two steps, its read and its
  write, and any steps of other electors may come between them. A write request that its client
  gave up may still arrive later, at any time and more than once. The invariant of
  \<open>Election_Safety\<close> is kept, together with what is known of the writes that are still to come:
  each of them, if it finds the version it was made for, comes after the lease it ends.
\<close>

section \<open>The two phases of an attempt\<close>

text \<open>
  \<^verbatim>\<open>tryAcquireOrRenew\<close> up to its write request, and from there on. The first phase ends the
  attempt or asks for a creation or an update.
\<close>

datatype plan = Finished | CreatePlan Record | UpdatePlan Record

definition attempt_read :: "ctx \<Rightarrow> 's LeaderElector \<Rightarrow> plan \<times> 's LeaderElector" where
  "attempt_read c le =
     (case Get (lock le) c (lockState le) of
        (Inl err, s1) \<Rightarrow>
          (if errors_Is err ErrNotExist then CreatePlan (freshRecord le) else Finished, after_Get s1 le)
      | (Inr (old, raw), s1) \<Rightarrow>
          let le3 = observe old raw (after_Get s1 le)
          in (if heldByOther old (attempt_time le) le3 then Finished
              else UpdatePlan (correctRecord old le3 (freshRecord le)), le3))"

definition conclude :: "Record \<Rightarrow> 's LeaderElector \<Rightarrow> go_error option \<times> 's \<Rightarrow> bool \<times> 's LeaderElector" where
  "conclude r le x =
     (case x of
        (Some e, s) \<Rightarrow> (False, le\<lparr>lockState := s\<rparr>)
      | (None, s) \<Rightarrow> (True, setObservedRecord r (le\<lparr>lockState := s\<rparr>)))"

fun attempt_write :: "ctx \<Rightarrow> plan \<Rightarrow> 's LeaderElector \<Rightarrow> bool \<times> 's LeaderElector" where
  "attempt_write c Finished le = (False, le)"
| "attempt_write c (CreatePlan r) le = conclude r le (Create (lock le) c r (lockState le))"
| "attempt_write c (UpdatePlan r) le = conclude r le (Update (lock le) c r (lockState le))"

text \<open>The two phases make the attempt.\<close>

lemma attempt_phases:
  "tryAcquireOrRenew c le = (let (p, le1) = attempt_read c le in attempt_write c p le1)"
  by (auto simp: tryAcquireOrRenew_unfold attempt_read_def conclude_def Let_def
      split: prod.splits sum.splits option.splits)

section \<open>The system\<close>

text \<open>
  A request that is on its way: by whom, whether it carries a full lease, and what it asks for,
  with the record in the format of the store. An update names the version that the client had read.
\<close>

datatype request = CreateReq Record | UpdateReq "nat option" Record

fun serve :: "request \<Rightarrow> (nat \<times> Record) option \<Rightarrow> (nat \<times> Record) option" where
  "serve (CreateReq r) None = Some (0, r)"
| "serve (CreateReq r) (Some x) = Some x"
| "serve (UpdateReq u r) None = None"
| "serve (UpdateReq u r) (Some (v, r0)) = (if u = Some v then Some (Suc v, r) else Some (v, r0))"

text \<open>The write that an elector waits for, with the clock reading that began its attempt.\<close>

record isystem =
  core :: system
  pending :: "nat \<Rightarrow> (plan \<times> int) option"
  late :: "(nat \<times> bool \<times> request) set"

definition plan_request :: "net_state LeaderElector \<Rightarrow> plan \<Rightarrow> request option" where
  "plan_request le p =
     (case p of
        Finished \<Rightarrow> None
      | CreatePlan r \<Rightarrow> Some (CreateReq (stores_as (lockState le) r))
      | UpdatePlan r \<Rightarrow> Some (UpdateReq (version le) (stores_as (lockState le) r)))"

lemma plan_request_cong:
  "version le' = version le \<Longrightarrow> stores_as (lockState le') = stores_as (lockState le) \<Longrightarrow>
   plan_request le' p = plan_request le p"
  by (cases p) (simp_all add: plan_request_def)

lemma plan_request_ready [simp]: "plan_request (ready S i rd wr) p = plan_request (node S i) p"
  by (rule plan_request_cong) simp_all

text \<open>What remains of a write of elector \<open>i\<close> whose client saw a refusal: it may be on its way.\<close>

definition left_over :: "nat \<Rightarrow> bool \<Rightarrow> request option \<Rightarrow> fault \<Rightarrow> (nat \<times> bool \<times> request) set" where
  "left_over i full q wr =
     (case q of Some q \<Rightarrow> if wr = Refused then {(i, full, q)} else {} | None \<Rightarrow> {})"

definition release_request :: "net_state LeaderElector \<Rightarrow> request option" where
  "release_request le =
     (if IsLeader le
      then Some (UpdateReq (version le) (stores_as (lockState le) (releaseRecord le (attempt_time le)))) else None)"

text \<open>The arrival of a request changes nothing of its sender.\<close>

definition deliver :: "system \<Rightarrow> nat \<Rightarrow> request \<Rightarrow> net_state LeaderElector" where
  "deliver S i q =
     (node S i)\<lparr>lockState := (lockState (node S i))\<lparr>base :=
        (base (lockState (node S i)))\<lparr>cell := serve q (store S)\<rparr>\<rparr>\<rparr>"

inductive isys_step :: "clocks \<Rightarrow> isystem \<Rightarrow> isystem \<Rightarrow> bool" for ck where
  pass: "now_g (core S) \<le> t \<Longrightarrow> isys_step ck S (S\<lparr>core := (core S)\<lparr>now_g := t\<rparr>\<rparr>)"
| read: "pending S i = None \<Longrightarrow> attempt_read c (ready (core S) i rd wr) = (p, le') \<Longrightarrow>
     now_g (core S) \<le> t \<Longrightarrow>
     reads_within (moment ck i) (now_g (core S)) t (le_clock (node (core S) i)) (le_clock le') \<Longrightarrow>
     isys_step ck S (S\<lparr>core := after_turn (core S) i le' (lastOK (core S) i) t,
       pending := (pending S)(i := if p = Finished then None
         else Some (p, moment ck i (mono_of (attempt_time (node (core S) i)))))\<rparr>)"
| send: "pending S i = Some (p, x) \<Longrightarrow> attempt_write c p (ready (core S) i rd wr) = (b, le') \<Longrightarrow>
     now_g (core S) \<le> t \<Longrightarrow> fresh_write (core S) le' \<Longrightarrow>
     isys_step ck S (S\<lparr>core := after_turn (core S) i le' (if b then Some x else lastOK (core S) i) t,
       pending := (pending S)(i := None),
       late := late S \<union> left_over i True (plan_request (node (core S) i) p) wr\<rparr>)"
| give_up: "pending S i = None \<Longrightarrow> release (ready (core S) i rd wr) = (b, le') \<Longrightarrow>
     now_g (core S) \<le> t \<Longrightarrow> fresh_write (core S) le' \<Longrightarrow>
     isys_step ck S (S\<lparr>core := after_turn (core S) i le' None t,
       late := late S \<union> left_over i False (release_request (ready (core S) i rd wr)) wr\<rparr>)"
| arrive: "(i, full, q) \<in> late S \<Longrightarrow> now_g (core S) \<le> t \<Longrightarrow> fresh_write (core S) (deliver (core S) i q) \<Longrightarrow>
     isys_step ck S (S\<lparr>core := after_turn (core S) i (deliver (core S) i q) (lastOK (core S) i) t\<rparr>)"

definition init_isystem :: "(nat \<Rightarrow> string) \<Rightarrow> isystem \<Rightarrow> bool" where
  "init_isystem ident S \<longleftrightarrow> init_system ident (core S) \<and> pending S = (\<lambda>_. None) \<and> late S = {}"

inductive ireachable :: "(nat \<Rightarrow> string) \<Rightarrow> clocks \<Rightarrow> isystem \<Rightarrow> bool" for ident ck where
  start: "init_isystem ident S \<Longrightarrow> ireachable ident ck S"
| step: "ireachable ident ck S \<Longrightarrow> isys_step ck S S' \<Longrightarrow> ireachable ident ck S'"

section \<open>The invariant\<close>

text \<open>
  A write \<open>q\<close> of elector \<open>i\<close> that is still to come: it carries a record of its own, an update
  names no version of the future, and if it names the current one, then the record it replaces
  is its own or has outlived its lease; a write of a short lease comes from an elector that has
  given up.
\<close>

fun req_record :: "request \<Rightarrow> Record" where
  "req_record (CreateReq r) = r"
| "req_record (UpdateReq u r) = r"

fun aims_at :: "request \<Rightarrow> nat \<Rightarrow> bool" where
  "aims_at (CreateReq r) v = False"
| "aims_at (UpdateReq u r) v \<longleftrightarrow> u = Some v"

definition replaceable :: "string \<Rightarrow> clocks \<Rightarrow> system \<Rightarrow> Record \<Rightarrow> bool" where
  "replaceable n ck S r \<longleftrightarrow>
     HolderIdentity r = n \<or> since S + tmin ck * (Millisecond * LeaseDurationMilliSeconds r) \<le> now_g S"

definition req_ok :: "(nat \<Rightarrow> string) \<Rightarrow> clocks \<Rightarrow> system \<Rightarrow> nat \<Rightarrow> bool \<Rightarrow> request \<Rightarrow> bool" where
  "req_ok ident ck S i full q \<longleftrightarrow>
     own_record full (node S i) (req_record q) \<and>
     (\<forall>u. aims_at q u \<longrightarrow> (\<exists>v r. store S = Some (v, r) \<and> u \<le> v)) \<and>
     (\<forall>v r. store S = Some (v, r) \<and> aims_at q v \<longrightarrow>
        replaceable (ident i) ck S r \<and> (full \<or> lastOK S i = None)) \<and>
     (\<not> full \<longrightarrow> (\<exists>u r. q = UpdateReq u r))"

definition pend_ok :: "(nat \<Rightarrow> string) \<Rightarrow> clocks \<Rightarrow> system \<Rightarrow> nat \<Rightarrow> plan \<Rightarrow> int \<Rightarrow> bool" where
  "pend_ok ident ck S i p x \<longleftrightarrow>
     x \<le> now_g S \<and> (\<forall>r. p \<in> {CreatePlan r, UpdatePlan r} \<longrightarrow> wf_Record r) \<and>
     (\<exists>q. plan_request (node S i) p = Some q \<and> req_ok ident ck S i True q)"

definition IInv :: "(nat \<Rightarrow> string) \<Rightarrow> clocks \<Rightarrow> isystem \<Rightarrow> bool" where
  "IInv ident ck S \<longleftrightarrow>
     Inv ident ck (core S) \<and>
     (\<forall>i p x. pending S i = Some (p, x) \<longrightarrow> pend_ok ident ck (core S) i p x) \<and>
     (\<forall>i full q. (i, full, q) \<in> late S \<longrightarrow> req_ok ident ck (core S) i full q)"

lemma IInvD:
  assumes "IInv ident ck S"
  shows "Inv ident ck (core S)" and "pending S i = Some (p, x) \<Longrightarrow> pend_ok ident ck (core S) i p x"
    and "(i, full, q) \<in> late S \<Longrightarrow> req_ok ident ck (core S) i full q"
  using assms by (auto simp: IInv_def)

section \<open>What the phases do\<close>

lemma attempt_read_outcome:
  assumes lk: "lock le = net_lock" and "attempt_read c le = (p, le')"
  shows "turn True le False le'" and "stored le' = stored le" and "same_elector le le'"
    and "tick (le_clock le) < tick (le_clock le')"
    and "p = CreatePlan w \<Longrightarrow> w = freshRecord le"
    and "p = UpdatePlan w \<Longrightarrow> \<exists>v r (y :: net_state LeaderElector). stored le = Some (v, r) \<and> version le' = Some v \<and> \<not> blocked r le \<and>
           w = correctRecord r y (freshRecord le)"
proof -
  have "turn True le False le' \<and> stored le' = stored le \<and> same_elector le le' \<and>
    tick (le_clock le) < tick (le_clock le') \<and> (p = CreatePlan w \<longrightarrow> w = freshRecord le) \<and>
    (p = UpdatePlan w \<longrightarrow> (\<exists>v r (y :: net_state LeaderElector). stored le = Some (v, r) \<and> version le' = Some v \<and> \<not> blocked r le \<and>
       w = correctRecord r y (freshRecord le)))" for w
  proof (cases "fst (Get (lock le) c (lockState le))")
    case (Inl err)
    define s1 where "s1 = snd (Get (lock le) c (lockState le))"
    have g: "Get (lock le) c (lockState le) = (Inl err, s1)" using Inl by (simp add: s1_def prod_eq_iff)
    then have "s1 = lockState le" using lk by (auto dest!: net_Get_Inl)
    moreover have "le' = after_Get s1 le" "p = (if errors_Is err ErrNotExist then CreatePlan (freshRecord le) else Finished)"
      using assms(2) g by (simp_all add: attempt_read_def)
    ultimately show ?thesis
      by (auto intro!: turn.idle simp: same_view_def same_elector_def)
  next
    case (Inr x)
    obtain old raw where x: "x = (old, raw)" by (cases x)
    define s1 where "s1 = snd (Get (lock le) c (lockState le))"
    have g: "Get (lock le) c (lockState le) = (Inr (old, raw), s1)" using Inr x by (simp add: s1_def prod_eq_iff)
    from lk g obtain v where v: "stored le = Some (v, old)" "raw = json_bytes old"
        "cell (base s1) = Some (v, old)" "seen (base s1) = Some v" "me (base s1) = me (base (lockState le))"
        "stores_as s1 = stores_as (lockState le)"
      by (rule read_store)
    have le': "le' = observe old raw (after_Get s1 le)"
      and p: "p = (if blocked old le then Finished else UpdatePlan (correctRecord old le' (freshRecord le)))"
      using assms(2) g v heldByOther_blocked [OF lk v(5)] by (auto simp: attempt_read_def Let_def)
    have "turn True le False le'"
      by (rule turn.observed [of _ v old])
        (use v in \<open>simp_all add: le' observed_view_def observe_fields, simp add: observe_def\<close>)
    moreover have "tick (le_clock le) < tick (le_clock le')" by (simp add: le' observe_def)
    moreover have "stored le' = stored le" "version le' = Some v" "same_elector le le'"
      using v by (simp_all add: le' same_elector_def)
    ultimately show ?thesis using v(1) p by auto
  qed
  then show "turn True le False le'" "stored le' = stored le" "same_elector le le'"
    "tick (le_clock le) < tick (le_clock le')" "p = CreatePlan w \<Longrightarrow> w = freshRecord le"
    "p = UpdatePlan w \<Longrightarrow> \<exists>v r (y :: net_state LeaderElector). stored le = Some (v, r) \<and> version le' = Some v \<and> \<not> blocked r le \<and>
       w = correctRecord r y (freshRecord le)"
    by blast+
qed

text \<open>A request that takes effect on a store.\<close>

definition served :: "request \<Rightarrow> (nat \<times> Record) option \<Rightarrow> nat \<Rightarrow> bool" where
  "served q st v' \<longleftrightarrow>
     serve q st = Some (v', req_record q) \<and> (\<forall>v r. st = Some (v, r) \<longrightarrow> v < v' \<and> aims_at q v)"

lemma serve_cases: "serve q st = st \<or> (\<exists>v'. served q st v')"
  by (cases "(q, st)" rule: serve.cases) (auto simp: served_def)

definition quiet_write :: "net_state LeaderElector \<Rightarrow> net_state LeaderElector \<Rightarrow> bool" where
  "quiet_write le le' \<longleftrightarrow> stored le' = stored le \<and> version le' = version le \<and> same_view le le'"

definition took_effect :: "request \<Rightarrow> nat \<Rightarrow> net_state LeaderElector \<Rightarrow> net_state LeaderElector \<Rightarrow> bool" where
  "took_effect q v' le le' \<longleftrightarrow>
     served q (stored le) v' \<and> stored le' = Some (v', req_record q) \<and>
     version le' \<in> {Some v', version le} \<and> observedRawRecord le' = observedRawRecord le \<and>
     (wf_Record (observedRecord le) \<longrightarrow> wf_Record (observedRecord le'))"

lemma conclude_same:
  "conclude r le (e, s) = (b, le') \<Longrightarrow> me (base s) = me (base (lockState le)) \<Longrightarrow>
   stores_as s = stores_as (lockState le) \<Longrightarrow> same_elector le le' \<and> b = (e = None) \<and> lockState le' = s \<and> observedRawRecord le' = observedRawRecord le \<and>
   observedRecord le' = (if e = None then r else observedRecord le) \<and>
   (e \<noteq> None \<longrightarrow> observedTime le' = observedTime le)"
  by (auto simp: conclude_def same_elector_def split: option.splits)

lemma attempt_write_outcome:
  assumes lk: "lock le = net_lock" and w: "attempt_write c p le = (b, le')"
    and q: "plan_request le p = Some q" and wf: "\<forall>r. p \<in> {CreatePlan r, UpdatePlan r} \<longrightarrow> wf_Record r"
  shows "same_elector le le'" and "quiet_write le le' \<and> \<not> b \<or> (\<exists>v'. took_effect q v' le le')"
    and "wfault (lockState le) = Refused \<Longrightarrow> quiet_write le le'"
proof -
  let ?as = "stores_as (lockState le)"
  obtain r f where p: "p = CreatePlan r \<and> f = cas_Create c (?as r) \<or> p = UpdatePlan r \<and> f = cas_Update c (?as r)"
    using q by (cases p) (auto simp: plan_request_def)
  then have r: "wf_Record r" using wf by auto
  obtain e s where f: "net_write f (lockState le) = (e, s)" by (metis surj_pair)
  have me: "me (base s) = me (base (lockState le))"
    using p f net_write_me [of f "lockState le"] by auto
  have "conclude r le (e, s) = (b, le')" using p w lk f by auto
  note c = conclude_same [OF this me stores_as_netD(2) [OF f]]
  show "same_elector le le'" using c by simp
  have quiet: "quiet_write le le' \<and> \<not> b" if "base s = base (lockState le)" "e \<noteq> None"
    using c that by (simp add: quiet_write_def same_view_def)
  then show "wfault (lockState le) = Refused \<Longrightarrow> quiet_write le le'"
    using f by (auto simp: net_write_def)
  show "quiet_write le le' \<and> \<not> b \<or> (\<exists>v'. took_effect q v' le le')"
    using p
  proof
    assume create: "p = CreatePlan r \<and> f = cas_Create c (?as r)"
    show ?thesis
    proof (cases "stored le")
      case None
      then show ?thesis
        using net_create_outcome [of c "?as r" "lockState le" e s] f create quiet c q r
        by (auto simp: took_effect_def served_def plan_request_def)
    next
      case (Some x)
      then have "base s = base (lockState le) \<and> e \<noteq> None"
        using f create by (auto simp: net_write_def cas_Create_def split: fault.splits)
      then show ?thesis using quiet by simp
    qed
  next
    assume "p = UpdatePlan r \<and> f = cas_Update c (?as r)"
    then show ?thesis
      using net_update_outcome [of c "?as r" "lockState le" e s] f quiet c q r
      by (auto simp: took_effect_def served_def plan_request_def)
  qed
qed

section \<open>Preservation\<close>

text \<open>Requests that are still to come, through a turn that keeps the store or raises its version.\<close>

definition raises :: "system \<Rightarrow> net_state LeaderElector \<Rightarrow> bool" where
  "raises S le' \<longleftrightarrow> (\<exists>v' w. stored le' = Some (v', w) \<and> (\<forall>v r. store S = Some (v, r) \<longrightarrow> v < v'))"

definition fair_turn :: "system \<Rightarrow> nat \<Rightarrow> net_state LeaderElector \<Rightarrow> int option \<Rightarrow> int \<Rightarrow> bool" where
  "fair_turn S i le' ok t \<longleftrightarrow>
     same_elector (node S i) le' \<and> now_g S \<le> t \<and>
     (stored le' = store S \<and> ok \<in> {lastOK S i, None} \<or> raises S le')"

lemma own_record_turn:
  "same_elector (node S i) le' \<Longrightarrow>
   own_record full (node (after_turn S i le' ok t) j) w = own_record full (node S j) w"
  by (simp add: own_record_def same_elector_def leaseMs_def)

lemma req_ok_turn:
  assumes ok: "req_ok ident ck S j full q" and turn: "fair_turn S i le' ok t"
  shows "req_ok ident ck (after_turn S i le' ok t) j full q"
proof -
  have same: "same_elector (node S i) le'" and t: "now_g S \<le> t" using turn by (auto simp: fair_turn_def)
  note own = own_record_turn [OF same]
  from turn consider "stored le' = store S" "ok \<in> {lastOK S i, None}" | "raises S le'"
    by (auto simp: fair_turn_def)
  then show ?thesis
  proof cases
    case 1
    then show ?thesis using ok t unfolding req_ok_def own by (auto simp: replaceable_def)
  next
    case 2
    then obtain v' w where v': "stored le' = Some (v', w)" "\<And>v r. store S = Some (v, r) \<Longrightarrow> v < v'"
      by (auto simp: raises_def)
    have less: "u < v'" if aim: "aims_at q u" for u
    proof -
      obtain v r where "store S = Some (v, r)" "u \<le> v" using ok aim unfolding req_ok_def by blast
      then show ?thesis using v'(2) by fastforce
    qed
    then have "\<not> aims_at q v'" by blast
    then show ?thesis using ok less v' unfolding req_ok_def own by (auto intro: less_imp_le)
  qed
qed

lemma pend_ok_turn:
  assumes "pend_ok ident ck S j p x" and "fair_turn S i le' ok t" and "j = i \<longrightarrow> version le' = version (node S i)"
  shows "pend_ok ident ck (after_turn S i le' ok t) j p x"
proof -
  have "plan_request (((node S)(i := le')) j) p = plan_request (node S j) p"
    using assms(2,3) by (intro plan_request_cong) (auto simp: fair_turn_def same_elector_def)
  then show ?thesis using assms(1,2) req_ok_turn [OF _ assms(2)] by (auto simp: pend_ok_def fair_turn_def)
qed

text \<open>A request that takes effect keeps the invariant.\<close>

lemma served_Inv:
  assumes idn: "wf_ident ident" and inv: "Inv ident ck S" and same: "same_elector (node S i) le'"
    and t: "now_g S \<le> t" and req: "req_ok ident ck S i full q"
    and eff: "took_effect q v' (ready S i rd wr) le'" and fresh: "fresh_write S le'"
    and last: "\<And>x. ok = Some x \<Longrightarrow> full \<and> x \<le> t"
  shows "Inv ident ck (after_turn S i le' ok t)" and "raises S le'"
proof -
  have e: "served q (store S) v'" "stored le' = Some (v', req_record q)"
      "version le' \<in> {Some v', version (node S i)}" "observedRawRecord le' = observedRawRecord (node S i)"
      "wf_Record (observedRecord (node S i)) \<longrightarrow> wf_Record (observedRecord le')"
    using eff by (simp_all add: took_effect_def)
  have v: "v < v'" "aims_at q v" if "store S = Some (v, r)" for v r
    using e(1) that by (auto simp: served_def)
  then show "raises S le'" using e(2) by (auto simp: raises_def)
  note nok = InvD(4) [OF inv, of i]
  have own: "own_record full (node S i) (req_record q)" using req by (simp add: req_ok_def)
  show "Inv ident ck (after_turn S i le' ok t)"
  proof (rule write_Inv [OF idn inv same t e(2) _ own v(1) _ _ _ _ last])
    have "store S \<noteq> Some (v', req_record q)" using v(1) by blast
    then show "req_record q \<notin> hist S" using fresh e(2) by (auto simp: fresh_write_def)
    show "version le' = Some v' \<or> (\<forall>u. version le' = Some u \<longrightarrow> (\<exists>v r. store S = Some (v, r) \<and> u \<le> v))"
      using e(3) node_okD(4) [OF nok] by auto
    show "wf_Record (observedRecord le')" using e(5) node_okD(2) [OF nok] by simp
    show "observedRawRecord le' = [] \<or> (\<exists>r \<in> hist S. observedRawRecord le' = json_bytes r)"
      using e(4) node_okD(3) [OF nok] by simp
    show "since S + tmin ck * (Millisecond * LeaseDurationMilliSeconds r) \<le> t"
      if "store S = Some (v, r)" "HolderIdentity r \<noteq> ident i" for v r
      using req v(2) [OF that(1)] that t unfolding req_ok_def replaceable_def by force
  qed
qed

lemma quiet_write_Inv:
  assumes "Inv ident ck S" and "same_elector (node S i) le'" and "quiet_write (ready S i rd wr) le'"
    and "now_g S \<le> t" and "ok = lastOK S i \<or> ok = None"
  shows "Inv ident ck (after_turn S i le' ok t)"
  using quiet_Inv [OF assms(1,2) _ assms(4) _ assms(5)] idle_node_ok [OF InvD(4) [OF assms(1)] assms(2), of rd wr]
    assms(3) by (simp add: quiet_write_def)

text \<open>
  The rest of the system after a fair turn of elector \<open>i\<close>: the requests that were on their way,
  and new ones; a pending write of \<open>i\<close> stays only when its version does.
\<close>

lemma turn_IInv:
  assumes inv: "IInv ident ck S" and turn: "fair_turn (core S) i le' ok t"
    and core: "Inv ident ck (after_turn (core S) i le' ok t)"
    and pnd: "\<And>p x. pnd = Some (p, x) \<Longrightarrow>
      pend_ok ident ck (after_turn (core S) i le' ok t) i p x \<or>
      pending S i = pnd \<and> version le' = version (node (core S) i)"
    and new: "\<And>j full q. (j, full, q) \<in> N \<Longrightarrow> req_ok ident ck (after_turn (core S) i le' ok t) j full q"
  shows "IInv ident ck (S\<lparr>core := after_turn (core S) i le' ok t, pending := (pending S)(i := pnd),
           late := late S \<union> N\<rparr>)"
proof -
  have "pend_ok ident ck (after_turn (core S) i le' ok t) j p x"
    if "((pending S)(i := pnd)) j = Some (p, x)" for j p x
  proof (cases "j = i")
    case True
    then show ?thesis using that pnd [of p x] pend_ok_turn [OF IInvD(2) [OF inv] turn] by auto
  next
    case False
    then show ?thesis using that pend_ok_turn [OF IInvD(2) [OF inv] turn] by auto
  qed
  moreover have "req_ok ident ck (after_turn (core S) i le' ok t) j full q" if "(j, full, q) \<in> late S \<union> N" for j full q
    using that new req_ok_turn [OF IInvD(3) [OF inv] turn] by blast
  ultimately show ?thesis using core by (simp add: IInv_def)
qed

lemma read_IInv:
  assumes idn: "wf_ident ident" and inv: "IInv ident ck S"
    and rd: "attempt_read c (ready (core S) i rd wr) = (p, le')" and t: "now_g (core S) \<le> t"
    and reads: "reads_within (moment ck i) (now_g (core S)) t (le_clock (node (core S) i)) (le_clock le')"
  shows "IInv ident ck (S\<lparr>core := after_turn (core S) i le' (lastOK (core S) i) t,
       pending := (pending S)(i := if p = Finished then None
         else Some (p, moment ck i (mono_of (attempt_time (node (core S) i)))))\<rparr>)"
proof -
  let ?C = "core S" and ?le = "ready (core S) i rd wr"
  let ?C' = "after_turn ?C i le' (lastOK ?C i) t" and ?x = "moment ck i (mono_of (attempt_time (node ?C i)))"
  note I = IInvD(1) [OF inv]
  note lk = ready_lock [OF I, of i rd wr]
  note o = attempt_read_outcome [OF lk rd]
  have same: "same_elector (node ?C i) le'" using o(3) by (simp add: same_ready)
  have st: "stored le' = store ?C" using o(2) by simp
  have x: "?x \<le> t" using attempt_reads [OF reads] o(4) by simp
  have fair: "fair_turn ?C i le' (lastOK ?C i) t" using same st t by (simp add: fair_turn_def)
  have core: "Inv ident ck ?C'"
    using turn_Inv [OF idn I o(1) same _ t reads] o(4) st by (simp add: fresh_write_def)
  have own: "own_record True (node ?C' i) w = own_record True ?le w" for w
    using own_record_turn [OF same, of True _ t i w] by (simp add: own_record_def)
  note wf = ready_wf [OF I, of i rd wr]
  have as: "stores_as (lockState (node ?C' i)) = stores_as (lockState ?le)"
    using same by (simp add: same_elector_def)
  have pend: "pend_ok ident ck ?C' i p ?x" if "p \<noteq> Finished"
  proof (cases p)
    case (CreatePlan w)
    then have "own_record True ?le w" using o(5) own_freshRecord [OF lk] by simp
    then show ?thesis using CreatePlan own as x own_stored [OF _ wf] own_record_wf [OF _ wf]
      by (simp add: pend_ok_def plan_request_def req_ok_def)
  next
    case (UpdatePlan w)
    then obtain v r y where u: "store ?C = Some (v, r)" "version le' = Some v" "\<not> blocked r ?le"
        "w = correctRecord r (y :: net_state LeaderElector) (freshRecord ?le)"
      using o(6) by auto
    have "wf_Record r" using InvD(1,2) [OF I] u(1) by (fastforce simp: good_record_def)
    then have "own_record True ?le w" using own_correctRecord [OF lk] u(4) by simp
    moreover have "replaceable (ident i) ck ?C' r"
      using written_waits [OF idn I u(1), of True i rd wr t] u(3) x st by (auto simp: replaceable_def)
    ultimately show ?thesis using UpdatePlan own as x u st own_stored [OF _ wf] own_record_wf [OF _ wf]
      by (simp add: pend_ok_def plan_request_def req_ok_def)
  qed (use that in simp)
  show ?thesis
    using turn_IInv [OF inv fair core, of None "{}"] turn_IInv [OF inv fair core, of "Some (p, ?x)" "{}"] pend
    by (cases "p = Finished") simp_all
qed

lemma send_IInv:
  assumes idn: "wf_ident ident" and inv: "IInv ident ck S" and pnd: "pending S i = Some (p, x)"
    and wr: "attempt_write c p (ready (core S) i rd wr) = (b, le')" and t: "now_g (core S) \<le> t"
    and fresh: "fresh_write (core S) le'"
  shows "IInv ident ck (S\<lparr>core := after_turn (core S) i le' (if b then Some x else lastOK (core S) i) t,
       pending := (pending S)(i := None),
       late := late S \<union> left_over i True (plan_request (node (core S) i) p) wr\<rparr>)"
proof -
  let ?C = "core S" and ?le = "ready (core S) i rd wr" and ?ok = "if b then Some x else lastOK (core S) i"
  note I = IInvD(1) [OF inv]
  obtain q where q: "plan_request (node ?C i) p = Some q" "req_ok ident ck ?C i True q" and x: "x \<le> now_g ?C"
      and wfp: "\<forall>r. p \<in> {CreatePlan r, UpdatePlan r} \<longrightarrow> wf_Record r"
    using IInvD(2) [OF inv pnd] by (auto simp: pend_ok_def)
  note o = attempt_write_outcome [OF ready_lock [OF I] wr _ wfp, of q]
  have same: "same_elector (node ?C i) le'" using o(1) q(1) by (simp add: same_ready)
  have turn: "Inv ident ck (after_turn ?C i le' ?ok t) \<and> fair_turn ?C i le' ?ok t"
  proof (cases "quiet_write ?le le' \<and> \<not> b")
    case True
    then show ?thesis using quiet_write_Inv [OF I same, of rd wr t] same t
      by (simp add: fair_turn_def quiet_write_def)
  next
    case False
    then obtain v' where eff: "took_effect q v' ?le le'" using o(2) q(1) by auto
    have last: "True \<and> y \<le> t" if "?ok = Some y" for y
      using that x t lastOK_past [OF I, of i y] by (auto split: if_splits)
    show ?thesis using served_Inv [OF idn I same t q(2) eff fresh last] same t by (simp add: fair_turn_def)
  qed
  have "req_ok ident ck (after_turn ?C i le' ?ok t) j full q'"
    if "(j, full, q') \<in> left_over i True (plan_request (node ?C i) p) wr" for j full q'
    using that q(1) req_ok_turn [OF q(2) turn [THEN conjunct2]] by (auto simp: left_over_def split: if_splits)
  with turn show ?thesis by (intro turn_IInv [OF inv]) blast+
qed

lemma arrive_IInv:
  assumes idn: "wf_ident ident" and inv: "IInv ident ck S" and q: "(i, full, q) \<in> late S"
    and t: "now_g (core S) \<le> t" and fresh: "fresh_write (core S) (deliver (core S) i q)"
  shows "IInv ident ck (S\<lparr>core := after_turn (core S) i (deliver (core S) i q) (lastOK (core S) i) t\<rparr>)"
proof -
  let ?C = "core S" and ?le' = "deliver (core S) i q"
  note I = IInvD(1) [OF inv] and req = IInvD(3) [OF inv q]
  have sel: "same_elector (node ?C i) ?le'" "stored ?le' = serve q (store ?C)" "version ?le' = version (node ?C i)"
    "observedRawRecord ?le' = observedRawRecord (node ?C i)" "observedRecord ?le' = observedRecord (node ?C i)"
    "same_view (ready ?C i rd wr) ?le'" for rd wr
    by (simp_all add: deliver_def same_elector_def same_view_def)
  have "Inv ident ck (after_turn ?C i ?le' (lastOK ?C i) t) \<and> fair_turn ?C i ?le' (lastOK ?C i) t"
    using serve_cases [of q "store ?C"]
  proof
    assume "serve q (store ?C) = store ?C"
    then show ?thesis using quiet_write_Inv [OF I sel(1), of False NoFault t] sel t
      by (simp add: fair_turn_def quiet_write_def)
  next
    assume "\<exists>v'. served q (store ?C) v'"
    then obtain v' where v': "served q (store ?C) v'" ..
    then have eff: "took_effect q v' (ready ?C i False NoFault) ?le'"
      using sel by (simp add: took_effect_def served_def)
    have last: "full \<and> y \<le> t" if y: "lastOK ?C i = Some y" for y
    proof -
      have full
      proof (rule ccontr)
        assume short: "\<not> full"
        then obtain u r where "q = UpdateReq u r" using req unfolding req_ok_def by blast
        then obtain v r0 where "store ?C = Some (v, r0)" "aims_at q v"
          using v' by (cases "store ?C") (auto simp: served_def split: if_splits)
        then show False using req y short unfolding req_ok_def by auto
      qed
      then show ?thesis using lastOK_past [OF I y] t by simp
    qed
    show ?thesis using served_Inv [OF idn I sel(1) t req eff fresh last] sel t by (simp add: fair_turn_def)
  qed
  then show ?thesis using turn_IInv [OF inv, of i ?le' "lastOK ?C i" t "pending S i" "{}"] sel(3) by auto
qed

lemma give_up_fair:
  assumes "turn False (ready S i rd wr) b le'" and "same_elector (node S i) le'" and "now_g S \<le> t"
  shows "fair_turn S i le' None t"
  using assms(1) by cases (use assms(2,3) in \<open>auto simp: fair_turn_def raises_def\<close>)

lemma release_request_ok:
  assumes I: "Inv ident ck S" and same: "same_elector (node S i) le'"
    and rel: "release (ready S i rd Refused) = (b, le')" and q: "release_request (ready S i rd Refused) = Some q"
  shows "req_ok ident ck (after_turn S i le' None t) i False q"
proof -
  let ?le = "ready S i rd Refused"
  note lk = ready_lock [OF I, of i rd Refused] and nok = InvD(4) [OF I, of i]
  have ldr: "IsLeader ?le"
    and q': "q = UpdateReq (version ?le) (stores_as (lockState ?le) (releaseRecord ?le (attempt_time ?le)))"
    using q by (auto simp: release_request_def split: if_splits)
  have "wfault (lockState ?le) = Refused" by (simp add: ready_def)
  then have st: "stored le' = store S"
    using rel ldr lk by (auto simp: release_unfold net_write_def)
  have "own_record False ?le (req_record q)"
    using own_stored [OF own_releaseRecord [OF ldr lk] ready_wf [OF I]] node_okD(2) [OF nok] by (simp add: q')
  then have "own_record False (node (after_turn S i le' None t) i) (req_record q)"
    unfolding own_record_turn [OF same] by (simp add: own_record_def)
  moreover have "HolderIdentity (observedRecord (node S i)) = ident i"
    using ldr lk node_okD(1) [OF nok] by (simp add: IsLeader_iff wf_node_def)
  then have "replaceable (ident i) ck (after_turn S i le' None t) r"
    if "store S = Some (v, r)" "aims_at q v" for v r
    using node_okD(6) [OF nok that(1)] that(2) by (simp add: q' replaceable_def)
  ultimately show ?thesis
    using node_okD(4) [OF nok] by (auto simp: req_ok_def st q')
qed

lemma give_up_IInv:
  assumes idn: "wf_ident ident" and inv: "IInv ident ck S" and pnd: "pending S i = None"
    and rel: "release (ready (core S) i rd wr) = (b, le')" and t: "now_g (core S) \<le> t"
    and fresh: "fresh_write (core S) le'"
  shows "IInv ident ck (S\<lparr>core := after_turn (core S) i le' None t,
       late := late S \<union> left_over i False (release_request (ready (core S) i rd wr)) wr\<rparr>)"
proof -
  let ?C = "core S" and ?N = "left_over i False (release_request (ready (core S) i rd wr)) wr"
  note I = IInvD(1) [OF inv]
  note lk = ready_lock [OF I, of i rd wr]
  obtain b' where turn: "turn False (ready ?C i rd wr) b' le'" using release_turn [OF ready_wf [OF I] rel] ..
  have same: "same_elector (node ?C i) le'" using release_same [OF lk rel] by (simp add: same_ready)
  have core: "Inv ident ck (after_turn ?C i le' None t)"
    using turn_Inv [OF idn I turn same fresh t, of None] by simp
  have "req_ok ident ck (after_turn ?C i le' None t) j full q" if "(j, full, q) \<in> ?N" for j full q
    using that release_request_ok [OF I same, of rd b q t] rel
    by (auto simp: left_over_def split: option.splits if_splits)
  then show ?thesis
    using turn_IInv [OF inv give_up_fair [OF turn same t] core, of None ?N] pnd
    by (simp add: fun_upd_idem)
qed

lemma pass_IInv:
  assumes "wf_ident ident" and "IInv ident ck S" and t: "now_g (core S) \<le> t"
  shows "IInv ident ck (S\<lparr>core := (core S)\<lparr>now_g := t\<rparr>\<rparr>)"
proof -
  have "req_ok ident ck ((core S)\<lparr>now_g := t\<rparr>) j full q" if "req_ok ident ck (core S) j full q" for j full q
    using that t by (auto simp: req_ok_def replaceable_def)
  then show ?thesis
    using step_Inv [OF assms(1) IInvD(1) [OF assms(2)] sys_step.pass [OF t]] assms(2) t
    by (fastforce simp: IInv_def pend_ok_def)
qed

lemma isys_step_IInv:
  assumes idn: "wf_ident ident" and inv: "IInv ident ck S" and "isys_step ck S S'"
  shows "IInv ident ck S'"
  using assms(3)
proof cases
  case (pass t)
  then show ?thesis using pass_IInv [OF idn inv] by simp
next
  case (read i c rd wr p le' t)
  then show ?thesis using read_IInv [OF idn inv read(3-5)] by simp
next
  case (send i p x c rd wr b le' t)
  then show ?thesis using send_IInv [OF idn inv send(2-5)] by simp
next
  case (give_up i rd wr b le' t)
  then show ?thesis using give_up_IInv [OF idn inv give_up(2-5)] by simp
next
  case (arrive i full q t)
  then show ?thesis using arrive_IInv [OF idn inv arrive(2-4)] by simp
qed

lemma ireachable_IInv: "ireachable ident ck S \<Longrightarrow> wf_ident ident \<Longrightarrow> wf_clocks ck \<Longrightarrow> IInv ident ck S"
proof (induction rule: ireachable.induct)
  case (start S)
  then show ?case using Inv_init [of ident "core S" ck] by (auto simp: init_isystem_def IInv_def)
qed (auto intro: isys_step_IInv)

text \<open>A request that passes the store to another holder comes after the lease.\<close>

lemma served_waits:
  assumes "Inv ident ck S" and "req_ok ident ck S i full q" and "served q (store S) v'"
    and "store S = Some (v, r)" and "HolderIdentity (req_record q) \<noteq> HolderIdentity r"
  shows "since S + tmin ck * (Millisecond * LeaseDurationMilliSeconds r) \<le> now_g S"
proof -
  have "aims_at q v" using assms(3,4) by (simp add: served_def)
  then have "replaceable (ident i) ck S r" using assms(2,4) unfolding req_ok_def by blast
  moreover have "HolderIdentity (req_record q) = ident i"
    using assms(2) node_okD(1) [OF InvD(4) [OF assms(1), of i]] by (simp add: req_ok_def own_record_def wf_node_def)
  ultimately show ?thesis using assms(5) by (simp add: replaceable_def)
qed

section \<open>Whole attempts are a special case\<close>

text \<open>
  An attempt of \<open>Election_Safety\<close> is a read and a write with nothing in between, so every state
  of that system is a state of this one.
\<close>

abbreviation at_rest :: "system \<Rightarrow> (nat \<times> bool \<times> request) set \<Rightarrow> isystem" where
  "at_rest S L \<equiv> \<lparr>core = S, pending = (\<lambda>_. None), late = L\<rparr>"

lemma attempt_write_tick:
  "attempt_write c p le = (b, le') \<Longrightarrow> tick (le_clock le) \<le> tick (le_clock le')"
  by (cases p) (auto simp: conclude_def split: prod.splits option.splits)

lemma attempt_read_ready:
  assumes "lock (node S i) = net_lock" and "attempt_read c (ready S i rd wr) = (p, le1)"
  shows "ready (after_turn S i le1 ok t) i rd wr = le1"
proof -
  let ?le = "ready S i rd wr"
  have g: "lockState le1 = snd (net_Get c (lockState ?le))"
    using assms by (auto simp: attempt_read_def Let_def split: prod.splits sum.splits)
  have "rfault (lockState le1) = rd" "wfault (lockState le1) = wr" "cell (base (lockState le1)) = store S"
    unfolding g by (simp_all add: net_Get_def split_beta Let_def) (simp_all add: ready_def)
  then show ?thesis
    unfolding ready_def [of "after_turn S i le1 ok t"] by (simp add: after_turn_def)
qed

lemma after_turn_twice:
  assumes "hist (after_turn S i le1 (lastOK S i) t) = hist S" and "stored le1 = store S"
  shows "after_turn (after_turn S i le1 (lastOK S i) t) i le2 ok t = after_turn S i le2 ok t"
proof -
  let ?X = "after_turn S i le1 (lastOK S i) t"
  have "hist (after_turn ?X i le2 ok t) = hist (after_turn S i le2 ok t)"
    unfolding after_turn_def [of ?X] after_turn_def [of S i le2] using assms(1) by (simp split: option.split)
  then show ?thesis using assms(2) by (intro system.equality) simp_all
qed

lemma attempt_interleaved:
  assumes inv: "Inv ident ck S" and att: "tryAcquireOrRenew c (ready S i rd wr) = (b, le')"
    and t: "now_g S \<le> t" and reads: "reads_within (moment ck i) (now_g S) t (le_clock (node S i)) (le_clock le')"
    and fresh: "fresh_write S le'"
  defines "x \<equiv> moment ck i (mono_of (attempt_time (node S i)))"
  defines "T \<equiv> after_turn S i le' (if b then Some x else lastOK S i) t"
  shows "\<exists>M L'. isys_step ck (at_rest S L) M \<and> store (core M) = store S \<and> since (core M) = since S \<and>
           now_g (core M) = t \<and> lastOK (core M) = lastOK S \<and>
           (M = at_rest T L' \<and> \<not> b \<or>
            isys_step ck M (at_rest T L') \<and> (\<exists>p. pending M = (\<lambda>_. None)(i \<mapsto> (p, x))))"
proof -
  note lk = ready_lock [OF inv, of i rd wr]
  obtain p le1 where rd: "attempt_read c (ready S i rd wr) = (p, le1)" by (metis surj_pair)
  have wr: "attempt_write c p le1 = (b, le')" using att rd by (simp add: attempt_phases)
  note o = attempt_read_outcome [OF lk rd]
  let ?S1 = "after_turn S i le1 (lastOK S i) t"
  have st: "stored le1 = store S" using o(2) by simp
  have "readings (le_clock le1) = readings (le_clock (node S i))" using o(3) by (simp add: same_elector_def)
  then have reads1: "reads_within (moment ck i) (now_g S) t (le_clock (node S i)) (le_clock le1)"
    using reads attempt_write_tick [OF wr] by (auto simp: reads_within_def)
  note rstep = isys_step.read [of "at_rest S L" i c rd wr p le1 t ck, simplified, OF rd t reads1]
  show ?thesis
  proof (cases "p = Finished")
    case True
    then have "\<not> b" "le' = le1" using wr by auto
    then show ?thesis using rstep True st
      by (intro exI [of _ "at_rest T L"] exI [of _ L]) (simp add: T_def fun_upd_idem)
  next
    case False
    note hist1 = hist_after_turn(1) [OF inv st, of i "lastOK S i" t]
    have "fresh_write ?S1 le'" using fresh st by (simp add: fresh_write_def hist1)
    note fresh1 = this
    let ?m = "\<lparr>core = ?S1, pending = (\<lambda>_. None)(i \<mapsto> (p, x)), late = L\<rparr>"
    let ?L' = "L \<union> left_over i True (plan_request (node ?S1 i) p) wr"
    have "isys_step ck (at_rest S L) ?m" using rstep False by (simp add: x_def)
    moreover have "isys_step ck ?m (at_rest T ?L')"
      using isys_step.send [of ?m i p x c rd wr b le' t ck] attempt_read_ready [OF _ rd] lk wr fresh1
        after_turn_twice [OF hist1 st] by (cases b) (simp_all add: T_def fun_upd_idem)
    ultimately show ?thesis using st by (intro exI [of _ ?m] exI [of _ ?L']) auto
  qed
qed

lemma ireachable_steps: "(isys_step ck)\<^sup>*\<^sup>* S S' \<Longrightarrow> ireachable ident ck S \<Longrightarrow> ireachable ident ck S'"
  by (induction rule: rtranclp_induct) (auto intro: ireachable.step)

lemma reachable_interleaved:
  assumes "reachable ident ck S" and "wf_ident ident" and "wf_clocks ck"
  shows "\<exists>L. ireachable ident ck (at_rest S L)"
  using assms(1)
proof (induction rule: reachable.induct)
  case (start S)
  then show ?case by (intro exI [of _ "{}"] ireachable.start) (simp add: init_isystem_def)
next
  case (step S S')
  then obtain L where L: "ireachable ident ck (at_rest S L)" by blast
  have "\<exists>L'. (isys_step ck)\<^sup>*\<^sup>* (at_rest S L) (at_rest S' L')"
    using step(2)
  proof cases
    case (pass t)
    then show ?thesis using isys_step.pass [of "at_rest S L" t ck] by auto
  next
    case (attempt c i rd wr b le' t)
    from attempt_interleaved [OF reachable_Inv [OF step(1) assms(2,3)] attempt(2-5), of L]
    obtain M L' where "isys_step ck (at_rest S L) M" "M = at_rest S' L' \<or> isys_step ck M (at_rest S' L')"
      unfolding attempt(1) by blast
    then show ?thesis by (meson converse_rtranclp_into_rtranclp r_into_rtranclp)
  next
    case (give_up i rd wr b le' t)
    then show ?thesis using isys_step.give_up [of "at_rest S L" i rd wr b le' t ck] by auto
  qed
  then show ?case using ireachable_steps [OF _ L] by blast
qed

section \<open>Safety\<close>

text \<open>
  C3. Mutual exclusion with interleaved requests: electors that share a compare-and-swap lock are
  never two within their lease, counted from the clock reading that began the last successful
  attempt of each. Reads and writes of different electors come in any order, a request can fail,
  its answer can be lost, and a write that its sender gave up can arrive at any later time, more
  than once. The clocks of the electors may differ in rate (the lease is then counted on the
  fastest of them), and no record is stored twice.
\<close>

theorem interleaved_exclusive:
  assumes "wf_ident ident" and "wf_clocks ck" and "ireachable ident ck S" and "i \<noteq> j"
    and "lastOK (core S) i = Some w" and "lastOK (core S) j = Some w'"
  shows "\<not> (now_g (core S) < w + tmin ck * lease (node (core S) i) \<and> now_g (core S) < w' + tmin ck * lease (node (core S) j))"
  using Inv_exclusive [OF IInvD(1) [OF ireachable_IInv [OF assms(3,1,2)]] assms(1,4-6)] .

theorem interleaved_exclusive_witness:
  "\<not> (now_g run3 < 0 + tmin run_clocks * lease (node run3 2) \<and> now_g run3 < 20 * Second + tmin run_clocks * lease (node run3 3))"
proof -
  obtain L where "ireachable run_ident run_clocks (at_rest run3 L)"
    using reachable_interleaved [OF reachable_run(2) wf_run_ident wf_run_clocks] ..
  from interleaved_exclusive [OF wf_run_ident wf_run_clocks this, of 2 3] run3_sel(3,4) show ?thesis by simp
qed

text \<open>
  C5. A lease is respected whatever the order of the requests: the stored record passes from one
  holder to another only after the first record's lease duration has gone by since it was
  stored, also when the write that replaces it was delayed.
\<close>

theorem interleaved_takeover_waits:
  assumes "wf_ident ident" and "wf_clocks ck" and "ireachable ident ck S" and "isys_step ck S S'"
    and "store (core S) = Some (v, r)" and "store (core S') = Some (v', r')"
    and "HolderIdentity r' \<noteq> HolderIdentity r"
  shows "since (core S) + tmin ck * (Millisecond * LeaseDurationMilliSeconds r) \<le> now_g (core S')"
proof -
  note inv = ireachable_IInv [OF assms(3,1,2)]
  note I = IInvD(1) [OF inv]
  note wait = served_waits [OF I _ _ assms(5)]
  from assms(4) show ?thesis
  proof cases
    case (read i c rd wr p le' t)
    then show ?thesis using attempt_read_outcome(2) [OF ready_lock [OF I] read(3)] assms(5-7) by simp
  next
    case (send i p x c rd wr b le' t)
    obtain q where q: "plan_request (node (core S) i) p = Some q" "req_ok ident ck (core S) i True q"
        "\<forall>r. p \<in> {CreatePlan r, UpdatePlan r} \<longrightarrow> wf_Record r"
      using IInvD(2) [OF inv send(2)] by (auto simp: pend_ok_def)
    show ?thesis
      using attempt_write_outcome(2) [OF ready_lock [OF I] send(3) _ q(3), of q] q(1) wait [OF q(2)] send assms(5-7)
      by (fastforce simp: quiet_write_def took_effect_def)
  next
    case (give_up i rd wr b le' t)
    obtain b' where tr: "turn False (ready (core S) i rd wr) b' le'"
      using release_turn [OF ready_wf [OF I] give_up(3)] ..
    show ?thesis using turn_waits [OF assms(1) I tr assms(5)] assms(6,7) give_up(1) by simp
  next
    case (arrive i full q t)
    have st: "store (core S') = serve q (store (core S))" using arrive(1) by (simp add: deliver_def)
    then obtain u where "served q (store (core S)) u"
      using serve_cases [of q "store (core S)"] assms(5-7) by auto
    moreover from this have "HolderIdentity (req_record q) \<noteq> HolderIdentity r"
      using st assms(6,7) by (auto simp: served_def)
    ultimately show ?thesis using wait [OF IInvD(3) [OF inv arrive(2)]] arrive(1,3) by fastforce
  qed (use assms(5-7) in auto)
qed

text \<open>Elector 3 of the example run takes over in two steps.\<close>

lemma run3_in_two_steps:
  "\<exists>M L'. ireachable run_ident run_clocks M \<and> store (core M) = store run2 \<and> since (core M) = since run2 \<and>
     isys_step run_clocks M (at_rest run3 L')"
proof -
  obtain L where L: "ireachable run_ident run_clocks (at_rest run2 L)"
    using reachable_interleaved [OF reachable_run(1) wf_run_ident wf_run_clocks] ..
  note inv = reachable_Inv [OF reachable_run(1) wf_run_ident wf_run_clocks]
  have try3: "tryAcquireOrRenew None (ready run2 3 False NoFault) = (fst (run_try run2 3), snd (run_try run2 3))"
    by (simp add: run_try_def)
  have "fresh_write run2 (snd (run_try run2 3))"
    "reads_within (moment run_clocks 3) (now_g run2) (20 * Second) (le_clock (node run2 3)) (le_clock (snd (run_try run2 3)))"
    by (simp_all add: run_try3 run2_sel fresh_write_def reads_within_def run_try2
        run_clock_def mono_of_def run_taken_def run_record_def Second_def)
  from attempt_interleaved [OF inv try3 _ this(2,1), of L]
  obtain M L' where M: "isys_step run_clocks (at_rest run2 L) M" "store (core M) = store run2"
      "since (core M) = since run2" "M = at_rest run3 L' \<or> isys_step run_clocks M (at_rest run3 L')"
    by (auto simp: run3_def run_next_def run2_sel Second_def)
  have "store run3 \<noteq> store run2" by (simp add: run3_sel run2_sel)
  then show ?thesis using M ireachable.step [OF L M(1)] by auto
qed

theorem interleaved_takeover_waits_witness: "Millisecond * 15000 \<le> now_g run3"
proof -
  obtain M L where M: "ireachable run_ident run_clocks M" "store (core M) = store run2" "since (core M) = since run2"
      "isys_step run_clocks M (at_rest run3 L)" using run3_in_two_steps by blast
  have "HolderIdentity run_taken \<noteq> HolderIdentity (run_record 2 0 0)"
    using run_ident_neq by (simp add: run_taken_def run_record_def)
  from interleaved_takeover_waits [OF wf_run_ident wf_run_clocks M(1,4) _ _ this] M(2,3) show ?thesis
    by (simp add: run2_sel run3_sel run_record_def)
qed

end
