(* ===== verification/Kube_Lease.thy ===== *)
theory Kube_Lease
  imports Net_Lock
begin

text \<open>
  \<^verbatim>\<open>k8s/k8s.go\<close>: the lock stored in a Kubernetes \<^verbatim>\<open>Lease\<close> object. The API client
  is not part of the repository: it is a parameter (\<open>LeasesGetter\<close>), and what the lock relies
  on is the documented optimistic concurrency of the API (\<open>optimistic_api\<close>). A pointer is an
  option; a panic of \<^verbatim>\<open>RecordEvent\<close> is a flag of the state.
\<close>

section \<open>Data\<close>

record ObjectMeta =
  Namespace :: string
  meta_Name :: string
  ResourceVersion :: string

record LeaseSpec =
  spec_HolderIdentity :: "string option"
  LeaseDurationSeconds :: "int option"
  spec_AcquireTime :: "go_time option"
  spec_RenewTime :: "go_time option"
  LeaseTransitions :: "int option"

record Lease =
  lease_Meta :: ObjectMeta
  Spec :: LeaseSpec

text \<open>
  The client: the calls of the API (for a namespace) over the state of the cluster, and the
  classification of its errors. A write returns an object pointer and an error.
\<close>

record 'c LeasesGetter =
  Leases_Get :: "ctx \<Rightarrow> string \<Rightarrow> string \<Rightarrow> 'c \<Rightarrow> (go_error + Lease) \<times> 'c"
  Leases_Create :: "ctx \<Rightarrow> string \<Rightarrow> Lease \<Rightarrow> 'c \<Rightarrow> (Lease option \<times> go_error option) \<times> 'c"
  Leases_Update :: "ctx \<Rightarrow> string \<Rightarrow> Lease \<Rightarrow> 'c \<Rightarrow> (Lease option \<times> go_error option) \<times> 'c"
  IsNotFound :: "go_error \<Rightarrow> bool"

record kube_Config =
  kube_Identity :: string
  EventRecorder :: bool

record kube_event =
  subject :: ObjectMeta
  eventType :: string
  reason :: string
  message :: string

record 'c LeaseLock =
  LeaseMeta :: ObjectMeta
  Client :: "'c LeasesGetter"
  LockConfig :: kube_Config
  held_lease :: "Lease option"
  cluster :: 'c
  kube_events :: "kube_event list"
  panicked :: bool

section \<open>Conversions\<close>

definition LeaseSpecToLeaderElectionRecord :: "LeaseSpec \<Rightarrow> Record" where
  "LeaseSpecToLeaderElectionRecord spec =
     \<lparr>HolderIdentity = (case spec_HolderIdentity spec of None \<Rightarrow> [] | Some h \<Rightarrow> h),
      LeaseDurationMilliSeconds =
        (case LeaseDurationSeconds spec of None \<Rightarrow> 0 | Some d \<Rightarrow> i64 (d * 1000)),
      AcquireTime = (case spec_AcquireTime spec of None \<Rightarrow> 0 | Some t \<Rightarrow> UnixMilli t),
      RenewTime = (case spec_RenewTime spec of None \<Rightarrow> 0 | Some t \<Rightarrow> UnixMilli t),
      LeaderTransitions = (case LeaseTransitions spec of None \<Rightarrow> 0 | Some n \<Rightarrow> n)\<rparr>"

definition leaseSeconds :: "int \<Rightarrow> int" where
  "leaseSeconds ms =
     (let s = i32 ms sdiv 1000 in if s = 0 then 1 else s)"

definition LeaderElectionRecordToLeaseSpec :: "Record \<Rightarrow> LeaseSpec" where
  "LeaderElectionRecordToLeaseSpec ler =
     \<lparr>spec_HolderIdentity = Some (HolderIdentity ler),
      LeaseDurationSeconds = Some (leaseSeconds (LeaseDurationMilliSeconds ler)),
      spec_AcquireTime = Some (time_UnixMilli (AcquireTime ler)),
      spec_RenewTime = Some (time_UnixMilli (RenewTime ler)),
      LeaseTransitions = Some (i32 (LeaderTransitions ler))\<rparr>"

section \<open>Operations\<close>

definition kube_New ::
    "string \<Rightarrow> string \<Rightarrow> 'c LeasesGetter \<Rightarrow> kube_Config \<Rightarrow> 'c \<Rightarrow> 'c LeaseLock" where
  "kube_New ns name client rlc s =
     \<lparr>LeaseMeta = \<lparr>Namespace = ns, meta_Name = name, ResourceVersion = []\<rparr>, Client = client,
      LockConfig = rlc, held_lease = None, cluster = s, kube_events = [], panicked = False\<rparr>"

text \<open>The REST configuration; \<open>connect\<close> stands for the construction of the client.\<close>

record restclient_Config =
  Timeout :: int
  UserAgent :: string

definition NewFromKubeconfig ::
    "(restclient_Config \<Rightarrow> 'c LeasesGetter) \<Rightarrow>
     (restclient_Config \<Rightarrow> string \<Rightarrow> restclient_Config) \<Rightarrow>
     string \<Rightarrow> string \<Rightarrow> kube_Config \<Rightarrow> restclient_Config \<Rightarrow> int \<Rightarrow> 'c \<Rightarrow> 'c LeaseLock" where
  "NewFromKubeconfig connect AddUserAgent ns name rlc kubeconfig renewDeadline s =
     (let timeout = renewDeadline sdiv 2;
          timeout = (if timeout < Second then Second else timeout);
          config = kubeconfig\<lparr>Timeout := timeout\<rparr>
      in kube_New ns name (connect (AddUserAgent config ''leader-election'')) rlc s)"

definition kube_Get :: "ctx \<Rightarrow> 'c LeaseLock \<Rightarrow> (go_error + Record \<times> bytes) \<times> 'c LeaseLock" where
  "kube_Get c ll =
     (let (got, s) = Leases_Get (Client ll) c (Namespace (LeaseMeta ll))
            (meta_Name (LeaseMeta ll)) (cluster ll);
          ll = ll\<lparr>cluster := s\<rparr>
      in case got of
           Inl err \<Rightarrow> (Inl (if IsNotFound (Client ll) err then ErrNotExist else err), ll)
         | Inr lease \<Rightarrow>
             let r = LeaseSpecToLeaderElectionRecord (Spec lease)
             in (Inr (r, json_bytes r), ll\<lparr>held_lease := Some lease\<rparr>))"

definition kube_Create :: "ctx \<Rightarrow> Record \<Rightarrow> 'c LeaseLock \<Rightarrow> go_error option \<times> 'c LeaseLock" where
  "kube_Create c ler ll =
     (let ((lease, err), s) = Leases_Create (Client ll) c (Namespace (LeaseMeta ll))
            \<lparr>lease_Meta = \<lparr>Namespace = Namespace (LeaseMeta ll),
                           meta_Name = meta_Name (LeaseMeta ll), ResourceVersion = []\<rparr>,
             Spec = LeaderElectionRecordToLeaseSpec ler\<rparr> (cluster ll)
      in (err, ll\<lparr>held_lease := lease, cluster := s\<rparr>))"

definition kube_Update :: "ctx \<Rightarrow> Record \<Rightarrow> 'c LeaseLock \<Rightarrow> go_error option \<times> 'c LeaseLock" where
  "kube_Update c ler ll =
     (case held_lease ll of
        None \<Rightarrow> (Some (ErrText ''lease not initialized, call get or create first''), ll)
      | Some l \<Rightarrow>
          let l = l\<lparr>Spec := LeaderElectionRecordToLeaseSpec ler\<rparr>;
              ((lease, err), s) = Leases_Update (Client ll) c (Namespace (LeaseMeta ll)) l (cluster ll)
          in case err of
               Some e \<Rightarrow> (Some (if IsNotFound (Client ll) e then ErrNotExist else e),
                          ll\<lparr>held_lease := Some l, cluster := s\<rparr>)
             | None \<Rightarrow> (None, ll\<lparr>held_lease := lease, cluster := s\<rparr>))"

definition kube_RecordEvent :: "string \<Rightarrow> 'c LeaseLock \<Rightarrow> 'c LeaseLock" where
  "kube_RecordEvent m ll =
     (if \<not> EventRecorder (LockConfig ll) then ll
      else case held_lease ll of
             None \<Rightarrow> ll\<lparr>panicked := True\<rparr>
           | Some l \<Rightarrow>
               ll\<lparr>kube_events := kube_events ll @
                    [\<lparr>subject = lease_Meta l, eventType = ''Normal'', reason = ''LeaderElection'',
                      message = kube_Identity (LockConfig ll) @ '' '' @ m\<rparr>]\<rparr>)"

definition kube_Describe :: "'c LeaseLock \<Rightarrow> string" where
  "kube_Describe ll = Namespace (LeaseMeta ll) @ ''/'' @ meta_Name (LeaseMeta ll)"

definition kube_lock :: "'c LeaseLock Lock" where
  "kube_lock =
     \<lparr>Get = kube_Get, Create = kube_Create, Update = kube_Update,
      RecordEvent = kube_RecordEvent, Identity = (\<lambda>ll. kube_Identity (LockConfig ll)),
      Describe = kube_Describe\<rparr>"

section \<open>The API\<close>

text \<open>
  The documented behaviour of the API for the object \<open>nm\<close> of the namespace \<open>ns\<close>, over the
  object in the store (\<open>lookup\<close>): a read returns the stored object; an object is created only
  when there is none, and replaced only when the resource version sent is the stored one; the
  server then gives it a version of its own. A write that reports an error may still have
  taken effect; the client returns an object without a version in that case. No error of the
  client is \<^verbatim>\<open>os.ErrNotExist\<close>.
\<close>

abbreviation RV :: "Lease \<Rightarrow> string" where
  "RV l \<equiv> ResourceVersion (lease_Meta l)"

definition api_read ::
    "'c LeasesGetter \<Rightarrow> string \<Rightarrow> string \<Rightarrow> ('c \<Rightarrow> Lease option) \<Rightarrow> bool" where
  "api_read K ns nm lookup \<longleftrightarrow>
     (\<forall>c s l s'. Leases_Get K c ns nm s = (Inr l, s') \<longrightarrow> lookup s = Some l \<and> lookup s' = lookup s) \<and>
     (\<forall>c s e s'. Leases_Get K c ns nm s = (Inl e, s') \<longrightarrow>
        lookup s' = lookup s \<and> (IsNotFound K e \<longrightarrow> lookup s = None) \<and> \<not> errors_Is e ErrNotExist)"

definition api_create ::
    "'c LeasesGetter \<Rightarrow> string \<Rightarrow> string \<Rightarrow> ('c \<Rightarrow> Lease option) \<Rightarrow> bool" where
  "api_create K ns nm lookup \<longleftrightarrow>
     (\<forall>c s l lo e s'. meta_Name (lease_Meta l) = nm \<and> Leases_Create K c ns l s = ((lo, e), s') \<longrightarrow>
        (e \<noteq> None \<longrightarrow> (\<forall>x. lo = Some x \<longrightarrow> RV x = [])) \<and>
        (lookup s' = lookup s \<and> e \<noteq> None \<or>
         lookup s = None \<and>
         (\<exists>new. lookup s' = Some new \<and> Spec new = Spec l \<and> (e = None \<longrightarrow> lo = Some new))))"

definition api_update ::
    "'c LeasesGetter \<Rightarrow> string \<Rightarrow> string \<Rightarrow> ('c \<Rightarrow> Lease option) \<Rightarrow> bool" where
  "api_update K ns nm lookup \<longleftrightarrow>
     (\<forall>c s l lo e s'. Leases_Update K c ns l s = ((lo, e), s') \<longrightarrow>
        lookup s' = lookup s \<and> e \<noteq> None \<or>
        (\<exists>old new. lookup s = Some old \<and> RV l = RV old \<and> lookup s' = Some new \<and>
           Spec new = Spec l \<and> RV new \<noteq> RV old \<and> (e = None \<longrightarrow> lo = Some new)))"

definition optimistic_api ::
    "'c LeasesGetter \<Rightarrow> string \<Rightarrow> string \<Rightarrow> ('c \<Rightarrow> Lease option) \<Rightarrow> bool" where
  "optimistic_api K ns nm lookup \<longleftrightarrow>
     api_read K ns nm lookup \<and> api_create K ns nm lookup \<and> api_update K ns nm lookup \<and>
     (\<forall>s l. lookup s = Some l \<longrightarrow> RV l \<noteq> [])"

text \<open>Reads that never fail on an existing object.\<close>

definition reliable_reads ::
    "'c LeasesGetter \<Rightarrow> string \<Rightarrow> string \<Rightarrow> ('c \<Rightarrow> Lease option) \<Rightarrow> bool" where
  "reliable_reads K ns nm lookup \<longleftrightarrow>
     (\<forall>c s l. lookup s = Some l \<longrightarrow> (\<exists>s'. Leases_Get K c ns nm s = (Inr l, s')))"

section \<open>What the storage format keeps\<close>

definition kube_view :: "Record \<Rightarrow> Record" where
  "kube_view r = LeaseSpecToLeaderElectionRecord (LeaderElectionRecordToLeaseSpec r)"

lemma leaseSeconds_small:
  assumes "0 \<le> ms" and "ms < 2 ^ 31"
  shows "leaseSeconds ms = (if ms < 1000 then 1 else ms div 1000)"
proof -
  have "i32 ms sdiv 1000 = ms div 1000"
    using assms by (simp add: i32_id is_i32_def sdiv_nonneg)
  moreover have "(ms div 1000 = 0) = (ms < 1000)" using assms by (auto simp: zdiv_eq_0_iff)
  ultimately show ?thesis by (simp add: leaseSeconds_def Let_def)
qed

lemma leaseSeconds_bounds:
  assumes "0 \<le> ms" and "ms < 2 ^ 31"
  shows "0 < leaseSeconds ms" and "leaseSeconds ms * 1000 < 2 ^ 31"
proof -
  have "ms div 1000 * 1000 \<le> ms" by simp
  then show "0 < leaseSeconds ms" "leaseSeconds ms * 1000 < 2 ^ 31"
    using assms by (auto simp: leaseSeconds_small pos_imp_zdiv_pos_iff)
qed

lemma kube_view_simps [simp]:
  "HolderIdentity (kube_view r) = HolderIdentity r"
  "LeaseDurationMilliSeconds (kube_view r) = i64 (leaseSeconds (LeaseDurationMilliSeconds r) * 1000)"
  "AcquireTime (kube_view r) = i64 (AcquireTime r)"
  "RenewTime (kube_view r) = i64 (RenewTime r)"
  "LeaderTransitions (kube_view r) = i32 (LeaderTransitions r)"
  by (simp_all add: kube_view_def LeaseSpecToLeaderElectionRecord_def
      LeaderElectionRecordToLeaseSpec_def UnixMilli_def time_UnixMilli_def)

lemma kube_view_fixed:
  assumes "LeaseDurationMilliSeconds r mod 1000 = 0" and "1000 \<le> LeaseDurationMilliSeconds r"
    and "LeaseDurationMilliSeconds r < 2 ^ 31" and "is_i32 (LeaderTransitions r)" and "wf_Record r"
  shows "kube_view r = r"
proof -
  have "leaseSeconds (LeaseDurationMilliSeconds r) * 1000 = LeaseDurationMilliSeconds r"
    using assms by (simp add: leaseSeconds_small) (metis div_mult_mod_eq add.right_neutral)
  then show ?thesis using assms(4,5)
    by (intro Record.equality) (simp_all add: wf_Record_def i64_id i32_id)
qed

text \<open>
  Round trip: a record whose lease is a whole number of seconds, at least one second and
  below 2^31 milliseconds, whose transition count fits in 32 bits and whose times fit in 64,
  comes back from a Lease object unchanged.
\<close>

theorem kube_view_exact:
  assumes "LeaseDurationMilliSeconds r mod 1000 = 0" and "1000 \<le> LeaseDurationMilliSeconds r"
    and "LeaseDurationMilliSeconds r < 2 ^ 31" and "is_i32 (LeaderTransitions r)" and "wf_Record r"
  shows "LeaseSpecToLeaderElectionRecord (LeaderElectionRecordToLeaseSpec r) = r"
  using kube_view_fixed [OF assms] by (simp add: kube_view_def)

theorem kube_view_exact_witness:
  "LeaseSpecToLeaderElectionRecord (LeaderElectionRecordToLeaseSpec (demo_record ''a'')) =
     demo_record ''a''"
  by (rule kube_view_exact) (simp_all add: demo_record_def wf_Record_def is_i32_def is_i64_def)

text \<open>The format keeps what an election needs of a lease of whole seconds.\<close>

lemma kube_format:
  assumes "1 \<le> k" and "k < 2147483"
  shows "lease_format (1000 * k) kube_view"
  unfolding lease_format_def
proof (intro allI impI)
  fix r :: Record
  assume "wf_Record r"
  let ?ms = "LeaseDurationMilliSeconds r"
  have small: "leaseSeconds ms = 1" if "ms \<in> {1..1000}" for ms
    using that by (cases "ms = 1000") (simp_all add: leaseSeconds_small)
  have "leaseSeconds (1000 * k) = k" using assms by (simp add: leaseSeconds_small)
  then have k: "LeaseDurationMilliSeconds (kube_view r) = 1000 * k" if "?ms = 1000 * k"
    using that assms by (simp add: i64_id is_i64_def)
  have s: "LeaseDurationMilliSeconds (kube_view r) = 1000" if "?ms \<in> {1..1000}"
    using small [OF that] by (simp add: i64_id is_i64_def)
  show "wf_Record (kube_view r) \<and> HolderIdentity (kube_view r) = HolderIdentity r \<and>
      (?ms = 1000 * k \<longrightarrow> LeaseDurationMilliSeconds (kube_view r) = 1000 * k) \<and>
      (?ms \<in> {1..1000} \<longrightarrow> LeaseDurationMilliSeconds (kube_view r) \<in> {1..1000})"
    using k s by (simp add: wf_Record_def is_i64_i64 is_i32_is_i64 is_i32_i32)
qed

text \<open>
  C22. The stored lease: for durations below 2^31 milliseconds it is the number of whole
  seconds, one second at least, so it is never longer than a second more and less than a second
  shorter than asked for. From 2^31 milliseconds on the conversion to 32 bits wraps around: a
  lease of 2^31 milliseconds is stored as a negative one.
\<close>

theorem kube_lease_bounds:
  assumes "0 \<le> LeaseDurationMilliSeconds r" and "LeaseDurationMilliSeconds r < 2 ^ 31"
  shows "(let ms = LeaseDurationMilliSeconds r;
              ms' = LeaseDurationMilliSeconds
                (LeaseSpecToLeaderElectionRecord (LeaderElectionRecordToLeaseSpec r))
          in ms' = max 1000 (ms - ms mod 1000) \<and> ms - 1000 < ms' \<and> ms' \<le> max 1000 ms) \<and>
         LeaseDurationMilliSeconds (LeaseSpecToLeaderElectionRecord
           (LeaderElectionRecordToLeaseSpec (r\<lparr>LeaseDurationMilliSeconds := 2 ^ 31\<rparr>))) = - 2147483000"
proof -
  let ?ms = "LeaseDurationMilliSeconds r"
  have "i64 (leaseSeconds ?ms * 1000) = leaseSeconds ?ms * 1000"
    using leaseSeconds_bounds [OF assms] by (intro i64_id) (simp add: is_i64_def)
  also have "\<dots> = max 1000 (?ms - ?ms mod 1000)"
  proof (cases "?ms < 1000")
    case False
    then have "1 \<le> ?ms div 1000" by (simp add: zdiv_mono1 [of 1000 _ 1000, simplified])
    then have "1000 \<le> ?ms div 1000 * 1000" by simp
    then show ?thesis using False assms by (simp add: leaseSeconds_small minus_mod_eq_div_mult)
  qed (use assms in \<open>simp add: leaseSeconds_small\<close>)
  finally have "LeaseDurationMilliSeconds (kube_view r) = max 1000 (?ms - ?ms mod 1000)" by simp
  moreover have "?ms mod 1000 < 1000" "0 \<le> ?ms mod 1000" by simp_all
  moreover have "leaseSeconds (2 ^ 31) = - 2147483"
    by (simp add: leaseSeconds_def i32_def signed_divide_int_def)
  ultimately show ?thesis
    using assms(1) unfolding kube_view_def [symmetric] by (auto simp: Let_def i64_def)
qed

theorem kube_lease_bounds_witness:
  "LeaseDurationMilliSeconds (LeaseSpecToLeaderElectionRecord
     (LeaderElectionRecordToLeaseSpec ((demo_record ''a'')\<lparr>LeaseDurationMilliSeconds := 1900\<rparr>))) = 1000"
  using kube_lease_bounds [of "(demo_record ''a'')\<lparr>LeaseDurationMilliSeconds := 1900\<rparr>"]
  by (simp add: Let_def)

section \<open>The lock contract\<close>

lemma kube_lock_sel [simp]:
  "Get kube_lock = kube_Get" "Create kube_lock = kube_Create" "Update kube_lock = kube_Update"
  "RecordEvent kube_lock = kube_RecordEvent"
  "Identity kube_lock ll = kube_Identity (LockConfig ll)"
  by (simp_all add: kube_lock_def)

lemma kube_Get_frame:
  "LockConfig (snd (kube_Get c ll)) = LockConfig ll"
  "LeaseMeta (snd (kube_Get c ll)) = LeaseMeta ll" "Client (snd (kube_Get c ll)) = Client ll"
  by (simp_all add: kube_Get_def split_beta Let_def split: sum.splits)

lemma kube_Create_frame:
  "LockConfig (snd (kube_Create c r ll)) = LockConfig ll"
  "LeaseMeta (snd (kube_Create c r ll)) = LeaseMeta ll" "Client (snd (kube_Create c r ll)) = Client ll"
  by (simp_all add: kube_Create_def split_beta Let_def)

lemma kube_Update_frame:
  "LockConfig (snd (kube_Update c r ll)) = LockConfig ll"
  "LeaseMeta (snd (kube_Update c r ll)) = LeaseMeta ll" "Client (snd (kube_Update c r ll)) = Client ll"
  by (simp_all add: kube_Update_def split_beta Let_def split: option.splits)

lemma kube_RecordEvent_frame:
  "LockConfig (kube_RecordEvent m ll) = LockConfig ll"
  by (simp add: kube_RecordEvent_def split: option.splits)

lemmas kube_frame = kube_Get_frame kube_Create_frame kube_Update_frame kube_RecordEvent_frame

text \<open>The API that a lock talks to, and the object it finds there.\<close>

definition on_api :: "('c \<Rightarrow> Lease option) \<Rightarrow> 'c LeaseLock \<Rightarrow> bool" where
  "on_api lookup ll \<longleftrightarrow>
     optimistic_api (Client ll) (Namespace (LeaseMeta ll)) (meta_Name (LeaseMeta ll)) lookup"

definition kube_ready :: "'c LeaseLock \<Rightarrow> bool" where
  "kube_ready ll \<longleftrightarrow>
     (\<exists>lookup. on_api lookup ll \<and>
        reliable_reads (Client ll) (Namespace (LeaseMeta ll)) (meta_Name (LeaseMeta ll)) lookup)"

lemma api_createD:
  assumes "optimistic_api K ns nm lookup" and "Leases_Create K c ns l s = ((lo, e), s')"
    and "meta_Name (lease_Meta l) = nm"
  shows "(e \<noteq> None \<longrightarrow> (\<forall>x. lo = Some x \<longrightarrow> RV x = [])) \<and>
    (lookup s' = lookup s \<and> e \<noteq> None \<or>
     lookup s = None \<and>
     (\<exists>new. lookup s' = Some new \<and> Spec new = Spec l \<and> (e = None \<longrightarrow> lo = Some new)))"
  using assms unfolding optimistic_api_def api_create_def by blast

lemma api_updateD:
  assumes "optimistic_api K ns nm lookup" and "Leases_Update K c ns l s = ((lo, e), s')"
  shows "lookup s' = lookup s \<and> e \<noteq> None \<or>
    (\<exists>old new. lookup s = Some old \<and> RV l = RV old \<and> lookup s' = Some new \<and>
       Spec new = Spec l \<and> RV new \<noteq> RV old \<and> (e = None \<longrightarrow> lo = Some new))"
  using assms unfolding optimistic_api_def api_update_def by blast

lemma api_readD:
  assumes "optimistic_api K ns nm lookup" and "Leases_Get K c ns nm s = (x, s')"
  shows "lookup s' = lookup s"
    and "x = Inr l \<Longrightarrow> lookup s = Some l"
    and "x = Inl e \<Longrightarrow> IsNotFound K e \<Longrightarrow> lookup s = None"
    and "x = Inl e \<Longrightarrow> \<not> errors_Is e ErrNotExist"
  using assms unfolding optimistic_api_def api_read_def by (cases x; blast)+

lemma kube_Get_outcome:
  assumes "on_api lookup ll" and "kube_Get c ll = (x, ll')"
  obtains (Absent) "x = Inl ErrNotExist" and "lookup (cluster ll) = None"
      and "lookup (cluster ll') = lookup (cluster ll)" and "held_lease ll' = held_lease ll"
  | (Failed) e where "x = Inl e" and "\<not> errors_Is e ErrNotExist"
      and "lookup (cluster ll') = lookup (cluster ll)" and "held_lease ll' = held_lease ll"
  | (Found) l where "x = Inr (LeaseSpecToLeaderElectionRecord (Spec l),
        json_bytes (LeaseSpecToLeaderElectionRecord (Spec l)))"
      and "lookup (cluster ll) = Some l" and "lookup (cluster ll') = lookup (cluster ll)"
      and "held_lease ll' = Some l"
proof -
  obtain got s where get: "Leases_Get (Client ll) c (Namespace (LeaseMeta ll)) (meta_Name (LeaseMeta ll))
      (cluster ll) = (got, s)" by (meson surj_pair)
  note read = api_readD [OF assms(1) [unfolded on_api_def] get]
  show thesis
  proof (cases got)
    case (Inl e)
    then show thesis using assms(2) get read Absent Failed
      by (cases "IsNotFound (Client ll) e") (auto simp: kube_Get_def)
  next
    case (Inr l)
    then show thesis using assms(2) get read(1) read(2) [of l] Found [of l]
      by (auto simp: kube_Get_def Let_def)
  qed
qed

lemma kube_Create_outcome:
  assumes "on_api lookup ll" and "kube_Create c r ll = (e, ll')"
  shows "(e \<noteq> None \<longrightarrow> (\<forall>x. held_lease ll' = Some x \<longrightarrow> RV x = [])) \<and>
    (lookup (cluster ll') = lookup (cluster ll) \<and> e \<noteq> None \<or>
     lookup (cluster ll) = None \<and>
     (\<exists>new. lookup (cluster ll') = Some new \<and> LeaseSpecToLeaderElectionRecord (Spec new) = kube_view r \<and>
        (e = None \<longrightarrow> held_lease ll' = Some new)))"
proof -
  let ?l = "\<lparr>lease_Meta = \<lparr>Namespace = Namespace (LeaseMeta ll), meta_Name = meta_Name (LeaseMeta ll),
    ResourceVersion = []\<rparr>, Spec = LeaderElectionRecordToLeaseSpec r\<rparr>"
  obtain lo s where call: "Leases_Create (Client ll) c (Namespace (LeaseMeta ll)) ?l (cluster ll) = ((lo, e), s)"
    and ll': "ll' = ll\<lparr>held_lease := lo, cluster := s\<rparr>"
    using assms(2) by (auto simp: kube_Create_def Let_def split: prod.splits)
  from api_createD [OF assms(1) [unfolded on_api_def] call] show ?thesis
    by (auto simp: ll' kube_view_def)
qed

lemma kube_Update_outcome:
  assumes "on_api lookup ll" and "kube_Update c r ll = (e, ll')"
  obtains (Refused) "e \<noteq> None" and "lookup (cluster ll') = lookup (cluster ll)"
      and "\<And>x. held_lease ll' = Some x \<Longrightarrow> \<exists>y. held_lease ll = Some y \<and> RV y = RV x"
  | (Applied) h old new where "held_lease ll = Some h" and "lookup (cluster ll) = Some old"
      and "RV h = RV old" and "lookup (cluster ll') = Some new"
      and "LeaseSpecToLeaderElectionRecord (Spec new) = kube_view r" and "RV new \<noteq> RV old"
      and "if e = None then held_lease ll' = Some new
           else \<exists>x. held_lease ll' = Some x \<and> RV x = RV old"
proof (cases "held_lease ll")
  case None
  then show thesis using assms(2) Refused by (auto simp: kube_Update_def)
next
  case (Some h)
  let ?l = "h\<lparr>Spec := LeaderElectionRecordToLeaseSpec r\<rparr>"
  obtain lo err s where call:
      "Leases_Update (Client ll) c (Namespace (LeaseMeta ll)) ?l (cluster ll) = ((lo, err), s)"
    by (metis surj_pair)
  have e: "(e = None) = (err = None)" and c': "cluster ll' = s"
    and h': "held_lease ll' = (if err = None then lo else Some ?l)"
    using assms(2) Some call by (auto simp: kube_Update_def Let_def split: option.splits)
  from api_updateD [OF assms(1) [unfolded on_api_def] call] show thesis
  proof
    assume "lookup s = lookup (cluster ll) \<and> err \<noteq> None"
    then show thesis using Refused Some e c' h' by auto
  next
    assume "\<exists>old new. lookup (cluster ll) = Some old \<and> RV ?l = RV old \<and> lookup s = Some new \<and>
       Spec new = Spec ?l \<and> RV new \<noteq> RV old \<and> (err = None \<longrightarrow> lo = Some new)"
    then show thesis using Applied Some e c' h' by (auto simp: kube_view_def split: if_splits)
  qed
qed

text \<open>With reliable reads, what was written is read next, as far as the format keeps it.\<close>

lemma kube_read_back:
  assumes "on_api lookup ll"
    and "reliable_reads (Client ll) (Namespace (LeaseMeta ll)) (meta_Name (LeaseMeta ll)) lookup"
    and "lookup (cluster ll) = Some l"
  shows "\<exists>raw s''. kube_Get c ll = (Inr (LeaseSpecToLeaderElectionRecord (Spec l), raw), s'')"
  using assms(2,3) unfolding reliable_reads_def kube_Get_def Let_def
  by (metis (mono_tags, lifting) case_prod_conv old.sum.simps(6))

interpretation kube: lock_store kube_lock kube_view "\<lambda>_. True" kube_ready
proof
  fix s :: "'a LeaseLock" and r c s' c'
  assume "kube_ready s"
  then obtain lookup where api: "on_api lookup s"
      "reliable_reads (Client s) (Namespace (LeaseMeta s)) (meta_Name (LeaseMeta s)) lookup"
    by (auto simp: kube_ready_def)
  {
    assume "Create kube_lock c r s = (None, s')"
    then have w: "kube_Create c r s = (None, s')" by simp
    then have "LeaseMeta s' = LeaseMeta s" "Client s' = Client s"
      using kube_Create_frame [of c r s] by simp_all
    then show "\<exists>raw s''. Get kube_lock c' s' = (Inr (kube_view r, raw), s'')"
      using kube_read_back [of lookup s' _ c'] kube_Create_outcome [OF api(1) w] api
      by (auto simp: on_api_def)
  }
  assume "Update kube_lock c r s = (None, s')"
  then have w: "kube_Update c r s = (None, s')" by simp
  then have "LeaseMeta s' = LeaseMeta s" "Client s' = Client s"
    using kube_Update_frame [of c r s] by simp_all
  then have found: "lookup (cluster s') = Some l \<Longrightarrow>
      \<exists>raw s''. kube_Get c' s' = (Inr (LeaseSpecToLeaderElectionRecord (Spec l), raw), s'')" for l
    using kube_read_back [of lookup s' _ c'] api by (simp add: on_api_def)
  from api(1) w show "\<exists>raw s''. Get kube_lock c' s' = (Inr (kube_view r, raw), s'')"
    by (cases rule: kube_Update_outcome) (use found in fastforce)+
qed (simp_all add: kube_frame)

section \<open>Refinement\<close>

text \<open>
  The states of the abstract lock that a lease lock can be in: the same identity and stored
  record, and the abstract client knows the stored version whenever the object that the lease
  lock holds has the stored resource version.
\<close>

definition kube_abs :: "('c \<Rightarrow> Lease option) \<Rightarrow> 'c LeaseLock \<Rightarrow> cas_state \<Rightarrow> bool" where
  "kube_abs lookup ll a \<longleftrightarrow>
     on_api lookup ll \<and> me a = kube_Identity (LockConfig ll) \<and>
     (case lookup (cluster ll) of
        None \<Rightarrow> cell a = None \<and> seen a = None
      | Some l \<Rightarrow> (\<exists>v. cell a = Some (v, LeaseSpecToLeaderElectionRecord (Spec l)) \<and>
          (\<forall>h. held_lease ll = Some h \<and> RV h = RV l \<longrightarrow> seen a = Some v)))"

definition same_answer :: "(go_error + 'x) \<Rightarrow> (go_error + 'x) \<Rightarrow> bool" where
  "same_answer x y \<longleftrightarrow>
     (case (x, y) of
        (Inr a, Inr b) \<Rightarrow> a = b
      | (Inl e, Inl f) \<Rightarrow> errors_Is e ErrNotExist = errors_Is f ErrNotExist
      | _ \<Rightarrow> False)"

text \<open>The abstract lock over a network, which keeps records as a Lease object does.\<close>

abbreviation over_net :: "cas_state \<Rightarrow> bool \<Rightarrow> fault \<Rightarrow> net_state" where
  "over_net a rd wr \<equiv> \<lparr>base = a, rfault = rd, wfault = wr, stores_as = kube_view\<rparr>"

lemma kube_abs_none:
  "kube_abs lookup ll a \<Longrightarrow> lookup (cluster ll) = None \<Longrightarrow> cell a = None \<and> seen a = None"
  by (simp add: kube_abs_def)

lemma kube_abs_some:
  assumes "kube_abs lookup ll a" and "lookup (cluster ll) = Some l"
  obtains v where "cell a = Some (v, LeaseSpecToLeaderElectionRecord (Spec l))"
    and "\<And>h. held_lease ll = Some h \<Longrightarrow> RV h = RV l \<Longrightarrow> seen a = Some v"
  using assms by (auto simp: kube_abs_def)

lemma kube_abs_keep:
  assumes "kube_abs lookup ll a" and "LockConfig ll' = LockConfig ll" and "LeaseMeta ll' = LeaseMeta ll"
    and "Client ll' = Client ll" and "lookup (cluster ll') = lookup (cluster ll)"
    and "\<And>x. held_lease ll' = Some x \<Longrightarrow> \<exists>y. held_lease ll = Some y \<and> RV y = RV x"
  shows "kube_abs lookup ll' a"
  using assms by (fastforce simp: kube_abs_def on_api_def split: option.splits)

lemma on_api_keep:
  "on_api lookup ll \<Longrightarrow> LeaseMeta ll' = LeaseMeta ll \<Longrightarrow> Client ll' = Client ll \<Longrightarrow> on_api lookup ll'"
  by (simp add: on_api_def)

lemma kube_Get_refines:
  assumes abs: "kube_abs lookup ll a" and get: "kube_Get c ll = (x, ll')"
  shows "\<exists>rd y a'. net_Get c (over_net a rd NoFault) = (y, over_net a' rd NoFault) \<and>
           same_answer x y \<and> kube_abs lookup ll' a'"
proof -
  have api: "on_api lookup ll" using abs by (simp add: kube_abs_def)
  have fr: "LockConfig ll' = LockConfig ll" "LeaseMeta ll' = LeaseMeta ll" "Client ll' = Client ll"
    using kube_Get_frame [of c ll] get by simp_all
  from api get show ?thesis
  proof (cases rule: kube_Get_outcome)
    case Absent
    then have "net_Get c (over_net a False NoFault) = (Inl ErrNotExist, over_net a False NoFault)"
      using kube_abs_none [OF abs] by (simp add: net_Get_def cas_Get_def)
    moreover have "kube_abs lookup ll' a" by (intro kube_abs_keep [OF abs fr]) (simp_all add: Absent(3,4))
    ultimately show ?thesis using Absent by (fastforce simp: same_answer_def)
  next
    case (Failed e)
    have "net_Get c (over_net a True NoFault) = (Inl (ErrText ''unavailable''), over_net a True NoFault)"
      by (simp add: net_Get_def)
    moreover have "kube_abs lookup ll' a" by (intro kube_abs_keep [OF abs fr]) (simp_all add: Failed(3,4))
    ultimately show ?thesis using Failed by (fastforce simp: same_answer_def)
  next
    case (Found l)
    obtain v where v: "cell a = Some (v, LeaseSpecToLeaderElectionRecord (Spec l))"
      using abs Found(2) by (rule kube_abs_some)
    let ?a = "a\<lparr>seen := Some v\<rparr>"
    have "net_Get c (over_net a False NoFault) = (x, over_net ?a False NoFault)"
      using v Found(1) by (simp add: net_Get_def cas_Get_def)
    moreover have "kube_abs lookup ll' ?a"
      using abs v Found fr on_api_keep [OF api fr(2,3)] by (simp add: kube_abs_def)
    moreover have "same_answer x x" using Found(1) by (simp add: same_answer_def)
    ultimately show ?thesis by blast
  qed
qed

lemma kube_Create_refines:
  assumes abs: "kube_abs lookup ll a" and create: "kube_Create c r ll = (e, ll')"
  shows "\<exists>wr f a'. net_write (cas_Create c (kube_view r)) (over_net a False wr) = (f, over_net a' False wr) \<and>
           (e = None \<longleftrightarrow> f = None) \<and> kube_abs lookup ll' a' \<and>
           (cell a' = cell a \<longleftrightarrow> lookup (cluster ll') = lookup (cluster ll)) \<and>
           (lookup (cluster ll') = lookup (cluster ll) \<longrightarrow> wr = Refused)"
proof -
  have api: "on_api lookup ll" using abs by (simp add: kube_abs_def)
  have fr: "LockConfig ll' = LockConfig ll" "LeaseMeta ll' = LeaseMeta ll" "Client ll' = Client ll"
    using kube_Create_frame [of c r ll] create by simp_all
  note api' = on_api_keep [OF api fr(2,3)]
  have rv: "lookup s = Some l \<Longrightarrow> RV l \<noteq> []" for s l
    using api by (simp add: on_api_def optimistic_api_def)
  note out = kube_Create_outcome [OF api create]
  show ?thesis
  proof (cases "lookup (cluster ll') = lookup (cluster ll) \<and> e \<noteq> None")
    case True
    then have "kube_abs lookup ll' a"
      using abs fr api' out rv by (fastforce simp: kube_abs_def split: option.splits)
    then show ?thesis using True
      by (intro exI [of _ Refused] exI [of _ "Some (ErrText ''refused'')"] exI [of _ a])
        (simp add: net_write_def)
  next
    case False
    then obtain new where new: "lookup (cluster ll) = None" "lookup (cluster ll') = Some new"
        "LeaseSpecToLeaderElectionRecord (Spec new) = kube_view r" "e = None \<longrightarrow> held_lease ll' = Some new"
      using out by blast
    note none = kube_abs_none [OF abs new(1)]
    let ?wr = "if e = None then NoFault else LostAck"
    let ?a = "a\<lparr>cell := Some (0, kube_view r), seen := (if e = None then Some 0 else None)\<rparr>"
    have "net_write (cas_Create c (kube_view r)) (over_net a False ?wr) =
        (if e = None then None else Some DeadlineExceeded, over_net ?a False ?wr)"
      using none by (simp add: net_write_def cas_Create_def)
    moreover have "kube_abs lookup ll' ?a"
      using abs fr api' new out rv [OF new(2)] by (auto simp: kube_abs_def)
    ultimately show ?thesis
      using none new(1,2)
      by (intro exI [of _ ?wr] exI [of _ "if e = None then None else Some DeadlineExceeded"] exI [of _ ?a])
        simp
  qed
qed

lemma kube_Update_refines:
  assumes abs: "kube_abs lookup ll a" and update: "kube_Update c r ll = (e, ll')"
  shows "\<exists>wr f a'. net_write (cas_Update c (kube_view r)) (over_net a False wr) = (f, over_net a' False wr) \<and>
           (e = None \<longleftrightarrow> f = None) \<and> kube_abs lookup ll' a' \<and>
           (cell a' = cell a \<longleftrightarrow> lookup (cluster ll') = lookup (cluster ll)) \<and>
           (lookup (cluster ll') = lookup (cluster ll) \<longrightarrow> wr = Refused)"
proof -
  have api: "on_api lookup ll" using abs by (simp add: kube_abs_def)
  have fr: "LockConfig ll' = LockConfig ll" "LeaseMeta ll' = LeaseMeta ll" "Client ll' = Client ll"
    using kube_Update_frame [of c r ll] update by simp_all
  from api update show ?thesis
  proof (cases rule: kube_Update_outcome)
    case Refused
    then have "kube_abs lookup ll' a" by (intro kube_abs_keep [OF abs fr]) auto
    then show ?thesis using Refused(1,2)
      by (intro exI [of _ fault.Refused] exI [of _ "Some (ErrText ''refused'')"] exI [of _ a])
        (simp add: net_write_def)
  next
    case (Applied h old new)
    obtain v where v: "cell a = Some (v, LeaseSpecToLeaderElectionRecord (Spec old))" "seen a = Some v"
      using abs Applied(1-3) by (auto elim!: kube_abs_some)
    let ?wr = "if e = None then NoFault else LostAck"
    let ?a = "a\<lparr>cell := Some (Suc v, kube_view r), seen := (if e = None then Some (Suc v) else Some v)\<rparr>"
    have "net_write (cas_Update c (kube_view r)) (over_net a False ?wr) =
        (if e = None then None else Some DeadlineExceeded, over_net ?a False ?wr)"
      using v by (simp add: net_write_def cas_Update_def)
    moreover have "kube_abs lookup ll' ?a"
      using abs fr Applied on_api_keep [OF api fr(2,3)] by (auto simp: kube_abs_def split: if_splits)
    moreover have "lookup (cluster ll') \<noteq> lookup (cluster ll)" using Applied(2,4,6) by auto
    ultimately show ?thesis
      using v(1)
      by (intro exI [of _ ?wr] exI [of _ "if e = None then None else Some DeadlineExceeded"] exI [of _ ?a])
        simp
  qed
qed


text \<open>An API server with one object; the resource version counts the writes.\<close>

definition demo_lease :: "nat \<times> (ObjectMeta \<times> LeaseSpec) option \<Rightarrow> Lease option" where
  "demo_lease s =
     (case snd s of
        None \<Rightarrow> None
      | Some (m, sp) \<Rightarrow>
          Some \<lparr>lease_Meta = m\<lparr>ResourceVersion := replicate (Suc (fst s)) (CHR ''v'')\<rparr>, Spec = sp\<rparr>)"

definition demo_api :: "(nat \<times> (ObjectMeta \<times> LeaseSpec) option) LeasesGetter" where
  "demo_api =
     \<lparr>Leases_Get = (\<lambda>c ns nm s. (case demo_lease s of None \<Rightarrow> Inl (ErrStatusNotFound nm) | Some l \<Rightarrow> Inr l, s)),
      Leases_Create = (\<lambda>c ns l s. case demo_lease s of
          None \<Rightarrow> let s' = (Suc (fst s), Some (lease_Meta l, Spec l)) in ((demo_lease s', None), s')
        | Some _ \<Rightarrow> ((None, Some (ErrText ''already exists'')), s)),
      Leases_Update = (\<lambda>c ns l s. case demo_lease s of
          None \<Rightarrow> ((None, Some (ErrStatusNotFound [])), s)
        | Some old \<Rightarrow>
            if RV l = RV old
            then let s' = (Suc (fst s), Some (lease_Meta l, Spec l)) in ((demo_lease s', None), s')
            else ((None, Some (ErrText ''conflict'')), s)),
      IsNotFound = (\<lambda>e. case e of ErrStatusNotFound _ \<Rightarrow> True | _ \<Rightarrow> False)\<rparr>"

definition demo_kube :: "(nat \<times> (ObjectMeta \<times> LeaseSpec) option) LeaseLock" where
  "demo_kube = kube_New ''ns'' ''lock'' demo_api \<lparr>kube_Identity = ''a'', EventRecorder = True\<rparr> (0, None)"

lemma demo_api_optimistic: "optimistic_api demo_api ns nm demo_lease"
proof -
  have "api_read demo_api ns nm demo_lease"
    by (auto simp: api_read_def demo_api_def demo_lease_def split: option.splits)
  moreover have "api_create demo_api ns nm demo_lease"
    by (auto simp: api_create_def demo_api_def demo_lease_def Let_def split: option.splits)
  moreover have "api_update demo_api ns nm demo_lease"
    by (auto simp: api_update_def demo_api_def demo_lease_def Let_def split: option.splits if_splits)
  ultimately show ?thesis
    by (auto simp: optimistic_api_def demo_lease_def split: option.splits)
qed

lemma demo_kube_abs: "kube_abs demo_lease demo_kube \<lparr>me = ''a'', cell = None, seen = None\<rparr>"
  by (simp add: kube_abs_def on_api_def demo_kube_def kube_New_def demo_api_optimistic)
    (simp add: demo_lease_def)


section \<open>Leases with fractions of a second\<close>

definition short_config :: "'c LeaseLock Config" where
  "short_config =
     (demo_config kube_lock)\<lparr>LeaseDuration := 1900 * Millisecond, RenewDeadline := 1500 * Millisecond,
       RetryPeriod := Second\<rparr>"

text \<open>
  \<^verbatim>\<open>New\<close> accepts a configuration whose lease, stored in whole seconds, is shorter than
  the renew deadline: with a lease of 1.9 s and a deadline of 1.5 s the Lease object says 1 s, so
  that another client may take over while the leader is still within its deadline.
\<close>

theorem kube_lease_below_deadline:
  "\<exists>le. New oor mk fac clk s short_config = Inr le \<and>
     Millisecond * LeaseDurationMilliSeconds (LeaseSpecToLeaderElectionRecord
       (LeaderElectionRecordToLeaseSpec (freshRecord le))) < RenewDeadline (config le)"
proof -
  have "jitter_duration oor (RetryPeriod short_config) < RenewDeadline short_config"
    by (rule jitter_duration_le) (simp_all add: short_config_def Second_def Millisecond_def)
  then obtain le where le: "New oor mk fac clk s short_config = Inr le" "config le = short_config"
    by (simp add: New_def Let_def short_config_def demo_config_def Second_def Millisecond_def)
  have "LeaseDurationMilliSeconds (freshRecord le) = 1900"
    by (simp add: le short_config_def Millisecond_def sdiv_nonneg)
  then have "LeaseDurationMilliSeconds (kube_view (freshRecord le)) = 1000"
    by (simp add: leaseSeconds_small i64_id is_i64_def)
  then show ?thesis using le
    by (intro exI [of _ le]) (simp add: kube_view_def short_config_def Millisecond_def)
qed

end
