(* ===== verification/Kube_Attempt.thy ===== *)
theory Kube_Attempt
  imports Election_Interleaved Kube_Lease
begin

text \<open>
  The two phases of an attempt, and a release, over the lease lock of \<open>Kube_Lease\<close>: each of them
  is the same phase over the abstract lock, for some faults of its network, with the same result
  and the same plan for the write. The resource versions of the API are never given out twice.
\<close>

section \<open>Electors over different locks\<close>

text \<open>Electors over different locks that agree on everything an attempt looks at.\<close>

definition same_elector_view :: "'s LeaderElector \<Rightarrow> 't LeaderElector \<Rightarrow> bool" where
  "same_elector_view le la \<longleftrightarrow>
     observedRecord la = observedRecord le \<and> observedRawRecord la = observedRawRecord le \<and>
     observedTime la = observedTime le \<and> le_clock la = le_clock le \<and>
     LeaseDuration (config la) = LeaseDuration (config le)"

lemma le_clock_simps:
  "le_clock (snd (le_Now le)) = snd (clock_Now (le_clock le))"
  "le_clock (setObservedRecord r le) = snd (clock_Now (le_clock le))"
  "le_clock (after_Get s le) = snd (clock_Now (le_clock le))"
  by (simp_all add: le_Now_def setObservedRecord_def after_Get_def split_beta Let_def)

lemma same_view_after_Get:
  "same_elector_view le la \<Longrightarrow> same_elector_view (after_Get s le) (after_Get t la)"
  by (simp add: same_elector_view_def le_clock_simps)

lemma same_view_lockState [simp]:
  "same_elector_view (le\<lparr>lockState := s\<rparr>) la = same_elector_view le la"
  "same_elector_view le (la\<lparr>lockState := t\<rparr>) = same_elector_view le la"
  by (simp_all add: same_elector_view_def)

lemma same_view_set:
  "same_elector_view le la \<Longrightarrow> same_elector_view (setObservedRecord r le) (setObservedRecord r la)"
  by (simp add: same_elector_view_def le_clock_simps)

lemma same_view_observe:
  "same_elector_view le la \<Longrightarrow> same_elector_view (observe old raw le) (observe old raw la)"
  by (simp add: observe_def same_elector_view_def le_clock_simps)

lemma same_view_time: "same_elector_view le la \<Longrightarrow> attempt_time la = attempt_time le"
  by (simp add: same_elector_view_def attempt_time_def)

lemma same_view_fresh:
  "same_elector_view le la \<Longrightarrow> Identity (lock la) (lockState la) = Identity (lock le) (lockState le) \<Longrightarrow>
   freshRecord la = freshRecord le"
  by (intro Record.equality) (simp_all add: same_view_time, simp add: same_elector_view_def)

lemma same_view_leader:
  "same_elector_view le la \<Longrightarrow> Identity (lock la) (lockState la) = Identity (lock le) (lockState le) \<Longrightarrow>
   IsLeader la = IsLeader le"
  by (simp add: IsLeader_iff same_elector_view_def)

lemma same_view_held:
  "same_elector_view le la \<Longrightarrow> Identity (lock la) (lockState la) = Identity (lock le) (lockState le) \<Longrightarrow>
   heldByOther old now la = heldByOther old now le"
  using same_view_leader [of le la] by (simp add: heldByOther_def leaseRunning_def same_elector_view_def)

lemma same_view_correct:
  "same_elector_view le la \<Longrightarrow> Identity (lock la) (lockState la) = Identity (lock le) (lockState le) \<Longrightarrow>
   correctRecord old la r = correctRecord old le r"
  using same_view_leader [of le la] by (simp add: correctRecord_def)

text \<open>The elector over the abstract lock, with the faults that an attempt will meet.\<close>

abbreviation over :: "net_state LeaderElector \<Rightarrow> cas_state \<Rightarrow> bool \<Rightarrow> fault \<Rightarrow> net_state LeaderElector" where
  "over la a rd wr \<equiv> la\<lparr>lockState := over_net a rd wr\<rparr>"

lemma kube_abs_me: "kube_abs lookup ll a \<Longrightarrow> me a = kube_Identity (LockConfig ll)"
  by (simp add: kube_abs_def)

lemma fresh_over:
  "same_elector_view le la \<Longrightarrow> lock le = kube_lock \<Longrightarrow> lock la = net_lock \<Longrightarrow>
   kube_abs lookup (lockState le) a \<Longrightarrow> freshRecord (over la a rd wr) = freshRecord le"
  by (rule same_view_fresh) (simp_all add: kube_abs_me)

lemma net_Get_fault: "net_Get c (over_net a rd NoFault) = (y, over_net a' rd NoFault) \<Longrightarrow>
  net_Get c (over_net a rd wr) = (y, over_net a' rd wr)"
  by (auto simp: net_Get_def split_beta Let_def split: if_splits)

lemma net_Get_cell: "net_Get c (over_net a rd wr) = (y, over_net a' rd wr) \<Longrightarrow> cell a' = cell a"
  by (auto simp: net_Get_def split_beta Let_def split: if_splits)

lemma net_Get_answers:
  "net_Get c (over_net a rd wr) = (Inr x, s) \<Longrightarrow> \<not> rd"
  "net_Get c (over_net a rd wr) = (Inl e, s) \<Longrightarrow> errors_Is e ErrNotExist \<Longrightarrow> \<not> rd"
  by (auto simp: net_Get_def split: if_splits)

section \<open>The phases\<close>

text \<open>The read of an attempt over a lease and that of the abstract attempt.\<close>

lemma read_refines:
  assumes "kube_abs lookup (lockState le) a" and "kube_Get c (lockState le) = (x, s1)"
  obtains rd y a1 where "net_Get c (over_net a rd NoFault) = (y, over_net a1 rd NoFault)"
    and "same_answer x y" and "kube_abs lookup s1 a1" and "cell a1 = cell a"
    and "lookup (cluster s1) = lookup (cluster (lockState le))"
    and "kube_Identity (LockConfig s1) = kube_Identity (LockConfig (lockState le))"
proof -
  have "on_api lookup (lockState le)" using assms(1) by (simp add: kube_abs_def)
  from this assms(2) have "lookup (cluster s1) = lookup (cluster (lockState le))"
    by (cases rule: kube_Get_outcome) simp_all
  moreover have "LockConfig s1 = LockConfig (lockState le)"
    using kube_Get_frame(1) [of c "lockState le"] assms(2) by simp
  ultimately show thesis using kube_Get_refines [OF assms] net_Get_cell that by metis
qed

text \<open>An elector over the lease and one over the abstract lock after a phase.\<close>

definition phase_sim ::
    "('c \<Rightarrow> Lease option) \<Rightarrow> 'c LeaseLock LeaderElector \<Rightarrow> cas_state \<Rightarrow> 'c LeaseLock LeaderElector \<Rightarrow>
     net_state LeaderElector \<Rightarrow> bool" where
  "phase_sim lookup le a le' la' \<longleftrightarrow>
     same_elector_view le' la' \<and> lock la' = net_lock \<and> stores_as (lockState la') = kube_view \<and>
     kube_abs lookup (lockState le') (base (lockState la')) \<and>
     (cell (base (lockState la')) = cell a \<longleftrightarrow>
        lookup (cluster (lockState le')) = lookup (cluster (lockState le)))"

lemma same_view_release:
  "same_elector_view le la \<Longrightarrow> releaseRecord la t = releaseRecord le t"
  by (simp add: releaseRecord_def same_elector_view_def)

lemma read_phase:
  assumes view: "same_elector_view le la" and lk: "lock le = kube_lock" and nk: "lock la = net_lock"
    and abs: "kube_abs lookup (lockState le) a" and read: "attempt_read c le = (p, le')"
  shows "\<exists>rd la'. attempt_read c (over la a rd NoFault) = (p, la') \<and> phase_sim lookup le a le' la' \<and>
     cell (base (lockState la')) = cell a"
proof -
  obtain x s1 where get: "kube_Get c (lockState le) = (x, s1)" by (metis surj_pair)
  obtain rd y a1 where net: "net_Get c (over_net a rd NoFault) = (y, over_net a1 rd NoFault)"
      "same_answer x y" "kube_abs lookup s1 a1" "cell a1 = cell a"
      "lookup (cluster s1) = lookup (cluster (lockState le))"
      "kube_Identity (LockConfig s1) = kube_Identity (LockConfig (lockState le))"
    using abs get by (rule read_refines)
  let ?la = "over la a rd NoFault" and ?s1 = "over_net a1 rd NoFault"
  have fresh: "freshRecord ?la = freshRecord le" using view lk nk abs by (rule fresh_over)
  have got: "same_elector_view (after_Get s1 le) (after_Get ?s1 ?la)"
    using view by (simp add: same_view_after_Get)
  show ?thesis
  proof (cases x)
    case (Inl err)
    then obtain err' where "y = Inl err'" "errors_Is err' ErrNotExist = errors_Is err ErrNotExist"
      using net(2) by (auto simp: same_answer_def split: sum.splits)
    then have "attempt_read c ?la = (p, after_Get ?s1 ?la)" "le' = after_Get s1 le"
      using read get lk nk net(1) Inl fresh by (auto simp: attempt_read_def)
    then show ?thesis using got net(3-5) nk
      by (intro exI [of _ rd] exI [of _ "after_Get ?s1 ?la"]) (simp add: phase_sim_def)
  next
    case (Inr z)
    obtain old raw where z: "z = (old, raw)" by (cases z)
    then have y: "y = Inr (old, raw)" using net(2) Inr by (auto simp: same_answer_def split: sum.splits)
    let ?le3 = "observe old raw (after_Get s1 le)" and ?la3 = "observe old raw (after_Get ?s1 ?la)"
    have v3: "same_elector_view ?le3 ?la3" using got by (rule same_view_observe)
    have ident: "Identity (lock ?la3) (lockState ?la3) = Identity (lock ?le3) (lockState ?le3)"
      using lk nk kube_abs_me [OF net(3)] by simp
    have "attempt_time ?la = attempt_time le" using view by (simp add: same_view_time)
    then have "attempt_read c ?la = (p, ?la3)" "le' = ?le3"
      using read get lk nk net(1) Inr y z fresh same_view_held [OF v3 ident] same_view_correct [OF v3 ident]
      by (auto simp: attempt_read_def Let_def)
    then show ?thesis using v3 net(3-5) nk
      by (intro exI [of _ rd] exI [of _ ?la3]) (simp add: phase_sim_def)
  qed
qed

text \<open>The end of a write, and the two writes.\<close>

lemma conclude_phase:
  assumes "same_elector_view le la" and "lock la = net_lock" and "kube_abs lookup s a'"
    and "cell a' = cell a \<longleftrightarrow> lookup (cluster s) = lookup (cluster (lockState le))"
    and "e = None \<longleftrightarrow> f = None" and "conclude r le (e, s) = (b, le')"
  obtains la' where "conclude r la (f, over_net a' rd wr) = (b, la')" and "phase_sim lookup le a le' la'"
    and "lockState le' = s"
proof
  let ?la' = "snd (conclude r la (f, over_net a' rd wr))"
  note set = same_view_set [of "le\<lparr>lockState := s\<rparr>" "la\<lparr>lockState := over_net a' rd wr\<rparr>" r]
  show "conclude r la (f, over_net a' rd wr) = (b, ?la')" "lockState le' = s"
    using assms(5,6) by (cases e; cases f; auto simp: conclude_def)+
  show "phase_sim lookup le a le' ?la'"
    using assms set by (cases e; cases f; auto simp: conclude_def phase_sim_def)
qed

lemma kube_writes_refine:
  assumes "kube_abs lookup ll a"
  shows "kube_Create c r ll = (e, ll') \<Longrightarrow> \<exists>wr f a'. Create net_lock c r (over_net a False wr) = (f, over_net a' False wr) \<and>
      (e = None \<longleftrightarrow> f = None) \<and> kube_abs lookup ll' a' \<and>
      (cell a' = cell a \<longleftrightarrow> lookup (cluster ll') = lookup (cluster ll)) \<and>
      (lookup (cluster ll') = lookup (cluster ll) \<longrightarrow> wr = Refused)"
    and "kube_Update c r ll = (e, ll') \<Longrightarrow> \<exists>wr f a'. Update net_lock c r (over_net a False wr) = (f, over_net a' False wr) \<and>
      (e = None \<longleftrightarrow> f = None) \<and> kube_abs lookup ll' a' \<and>
      (cell a' = cell a \<longleftrightarrow> lookup (cluster ll') = lookup (cluster ll)) \<and>
      (lookup (cluster ll') = lookup (cluster ll) \<longrightarrow> wr = Refused)"
  using kube_Create_refines [OF assms, of c r e ll'] kube_Update_refines [OF assms, of c r e ll'] by auto

lemma write_phase:
  assumes view: "same_elector_view le la" and lk: "lock le = kube_lock" and nk: "lock la = net_lock"
    and abs: "kube_abs lookup (lockState le) a" and wr: "attempt_write c p le = (b, le')"
  shows "\<exists>wr la'. attempt_write c p (over la a False wr) = (b, la') \<and> phase_sim lookup le a le' la' \<and>
     (lookup (cluster (lockState le')) = lookup (cluster (lockState le)) \<longrightarrow> wr = Refused)"
proof (cases p)
  case Finished
  then show ?thesis using assms
    by (intro exI [of _ Refused] exI [of _ "over la a False Refused"]) (auto simp: phase_sim_def)
next
  case (CreatePlan r)
  obtain e s where w: "kube_Create c r (lockState le) = (e, s)" by (metis surj_pair)
  then have le': "conclude r le (e, s) = (b, le')" using wr CreatePlan lk by simp
  obtain wr f a' where n: "Create net_lock c r (over_net a False wr) = (f, over_net a' False wr)"
      "e = None \<longleftrightarrow> f = None" "kube_abs lookup s a'"
      "cell a' = cell a \<longleftrightarrow> lookup (cluster s) = lookup (cluster (lockState le))"
      "lookup (cluster s) = lookup (cluster (lockState le)) \<longrightarrow> wr = Refused"
    using kube_writes_refine(1) [OF abs w] by blast
  have v: "same_elector_view le (over la a False wr)" "lock (over la a False wr) = net_lock"
    using view nk by simp_all
  obtain la' where "conclude r (over la a False wr) (f, over_net a' False wr) = (b, la')"
      "phase_sim lookup le a le' la'" "lockState le' = s"
    using v n(3,4,2) le' by (rule conclude_phase)
  then show ?thesis using CreatePlan nk n(1,5) by (intro exI [of _ wr] exI [of _ la']) simp
next
  case (UpdatePlan r)
  obtain e s where w: "kube_Update c r (lockState le) = (e, s)" by (metis surj_pair)
  then have le': "conclude r le (e, s) = (b, le')" using wr UpdatePlan lk by simp
  obtain wr f a' where n: "Update net_lock c r (over_net a False wr) = (f, over_net a' False wr)"
      "e = None \<longleftrightarrow> f = None" "kube_abs lookup s a'"
      "cell a' = cell a \<longleftrightarrow> lookup (cluster s) = lookup (cluster (lockState le))"
      "lookup (cluster s) = lookup (cluster (lockState le)) \<longrightarrow> wr = Refused"
    using kube_writes_refine(2) [OF abs w] by blast
  have v: "same_elector_view le (over la a False wr)" "lock (over la a False wr) = net_lock"
    using view nk by simp_all
  obtain la' where "conclude r (over la a False wr) (f, over_net a' False wr) = (b, la')"
      "phase_sim lookup le a le' la'" "lockState le' = s"
    using v n(3,4,2) le' by (rule conclude_phase)
  then show ?thesis using UpdatePlan nk n(1,5) by (intro exI [of _ wr] exI [of _ la']) simp
qed

text \<open>A release is a write of its own after a reading of the clock.\<close>

lemma release_write:
  "release le =
     (if \<not> IsLeader le then (True, le)
      else conclude (releaseRecord le (attempt_time le)) (after_Get (lockState le) le)
        (Update (lock le) context_TODO (releaseRecord le (attempt_time le)) (lockState le)))"
proof -
  have "(after_Get s le)\<lparr>lockState := t\<rparr> = after_Get t le" for s t by (simp add: after_Get_def)
  then show ?thesis by (simp add: release_unfold conclude_def split: option.split prod.split)
qed

lemma release_phase:
  assumes view: "same_elector_view le la" and lk: "lock le = kube_lock" and nk: "lock la = net_lock"
    and abs: "kube_abs lookup (lockState le) a" and rel: "release le = (b, le')"
  shows "\<exists>wr la'. release (over la a False wr) = (b, la') \<and> phase_sim lookup le a le' la' \<and>
     (lookup (cluster (lockState le')) = lookup (cluster (lockState le)) \<longrightarrow> wr = Refused)"
proof -
  let ?r = "releaseRecord le (attempt_time le)"
  have same: "same_elector_view le (over la a False wr)" for wr using view by simp
  have ldr: "IsLeader (over la a False wr) = IsLeader le" for wr
    by (rule same_view_leader [OF same]) (use lk nk kube_abs_me [OF abs] in simp)
  have rec: "releaseRecord (over la a False wr) (attempt_time (over la a False wr)) = ?r" for wr
    using same_view_release [OF same] same_view_time [OF same] by simp
  show ?thesis
  proof (cases "IsLeader le")
    case False
    then show ?thesis using assms ldr [of Refused]
      by (intro exI [of _ Refused] exI [of _ "over la a False Refused"]) (auto simp: release_write phase_sim_def)
  next
    case True
    obtain e s where w: "kube_Update context_TODO ?r (lockState le) = (e, s)" by (metis surj_pair)
    then have le': "conclude ?r (after_Get (lockState le) le) (e, s) = (b, le')"
      using rel True lk by (simp add: release_write)
    obtain wr f a' where n: "Update net_lock context_TODO ?r (over_net a False wr) = (f, over_net a' False wr)"
        "e = None \<longleftrightarrow> f = None" "kube_abs lookup s a'"
        "cell a' = cell a \<longleftrightarrow> lookup (cluster s) = lookup (cluster (lockState le))"
        "lookup (cluster s) = lookup (cluster (lockState le)) \<longrightarrow> wr = Refused"
      using kube_writes_refine(2) [OF abs w] by blast
    let ?la = "over la a False wr"
    let ?leG = "after_Get (lockState le) le" and ?laG = "after_Get (lockState ?la) ?la"
    have v: "same_elector_view ?leG ?laG" "lock ?laG = net_lock"
      using same_view_after_Get [OF same] nk by simp_all
    have c0: "cell a' = cell a \<longleftrightarrow> lookup (cluster s) = lookup (cluster (lockState ?leG))" using n(4) by simp
    obtain la' where la': "conclude ?r ?laG (f, over_net a' False wr) = (b, la')"
        "phase_sim lookup ?leG a le' la'" "lockState le' = s"
      using v n(3) c0 n(2) le' by (rule conclude_phase)
    have "release ?la = (b, la')"
      unfolding release_write [of ?la] rec la'(1) [symmetric] using True ldr nk n(1) by simp
    moreover have "phase_sim lookup le a le' la'" using la'(2) by (simp add: phase_sim_def)
    ultimately show ?thesis using n(5) la'(3) by (intro exI [of _ wr] exI [of _ la']) simp
  qed
qed

section \<open>Resource versions\<close>

text \<open>
  The API never gives out a resource version twice. \<open>used\<close> are the versions given out so
  far: every call only adds to them, and a call that changes the object gives it a new one.
\<close>

definition grows :: "('c \<Rightarrow> Lease option) \<Rightarrow> ('c \<Rightarrow> string set) \<Rightarrow> 'c \<Rightarrow> 'c \<Rightarrow> bool" where
  "grows lookup used s s' \<longleftrightarrow>
     used s \<subseteq> used s' \<and>
     (lookup s' = lookup s \<or> (\<exists>new. lookup s' = Some new \<and> RV new \<notin> used s))"

definition versioned_api ::
    "'c LeasesGetter \<Rightarrow> string \<Rightarrow> string \<Rightarrow> ('c \<Rightarrow> Lease option) \<Rightarrow> ('c \<Rightarrow> string set) \<Rightarrow> bool" where
  "versioned_api K ns nm lookup used \<longleftrightarrow>
     optimistic_api K ns nm lookup \<and>
     (\<forall>s l. lookup s = Some l \<longrightarrow> RV l \<in> used s) \<and>
     (\<forall>c s. grows lookup used s (snd (Leases_Get K c ns nm s))) \<and>
     (\<forall>c l s. meta_Name (lease_Meta l) = nm \<longrightarrow> grows lookup used s (snd (Leases_Create K c ns l s))) \<and>
     (\<forall>c l s. grows lookup used s (snd (Leases_Update K c ns l s)))"

definition on_versioned :: "('c \<Rightarrow> Lease option) \<Rightarrow> ('c \<Rightarrow> string set) \<Rightarrow> 'c LeaseLock \<Rightarrow> bool" where
  "on_versioned lookup used ll \<longleftrightarrow>
     versioned_api (Client ll) (Namespace (LeaseMeta ll)) (meta_Name (LeaseMeta ll)) lookup used"

text \<open>The object that a lease lock holds has a version that was given out, or none.\<close>

definition held_used :: "('c \<Rightarrow> string set) \<Rightarrow> 'c LeaseLock \<Rightarrow> bool" where
  "held_used used ll \<longleftrightarrow> (\<forall>h. held_lease ll = Some h \<longrightarrow> RV h \<in> insert [] (used (cluster ll)))"

lemma grows_refl: "grows lookup used s s"
  by (simp add: grows_def)

lemma grows_trans:
  "grows lookup used s1 s2 \<Longrightarrow> grows lookup used s2 s3 \<Longrightarrow> grows lookup used s1 s3"
  unfolding grows_def by (metis subset_iff)

lemma on_versioned_api: "on_versioned lookup used ll \<Longrightarrow> on_api lookup ll"
  by (simp add: on_versioned_def versioned_api_def on_api_def)

lemma on_versioned_used: "on_versioned lookup used ll \<Longrightarrow> lookup s = Some l \<Longrightarrow> RV l \<in> used s"
  by (simp add: on_versioned_def versioned_api_def)

text \<open>What every operation of a lease lock keeps.\<close>

definition kube_keeps :: "('c \<Rightarrow> Lease option) \<Rightarrow> ('c \<Rightarrow> string set) \<Rightarrow> 'c LeaseLock \<Rightarrow> 'c LeaseLock \<Rightarrow> bool" where
  "kube_keeps lookup used ll ll' \<longleftrightarrow>
     LockConfig ll' = LockConfig ll \<and> LeaseMeta ll' = LeaseMeta ll \<and> Client ll' = Client ll \<and>
     grows lookup used (cluster ll) (cluster ll') \<and> (held_used used ll \<longrightarrow> held_used used ll')"

lemma kube_keeps_trans:
  "kube_keeps lookup used l1 l2 \<Longrightarrow> kube_keeps lookup used l2 l3 \<Longrightarrow> kube_keeps lookup used l1 l3"
  unfolding kube_keeps_def using grows_trans [of lookup used "cluster l1" "cluster l2" "cluster l3"] by simp

lemma kube_keeps_versioned:
  "kube_keeps lookup used ll ll' \<Longrightarrow> on_versioned lookup used ll \<Longrightarrow> on_versioned lookup used ll'"
  by (simp add: kube_keeps_def on_versioned_def)

lemma grows_used: "grows lookup used s s' \<Longrightarrow> v \<in> used s \<Longrightarrow> v \<in> used s'"
  by (auto simp: grows_def)

lemma kube_Get_keeps:
  assumes "on_versioned lookup used ll" and "kube_Get c ll = (x, ll')"
  shows "kube_keeps lookup used ll ll'"
proof -
  have g: "grows lookup used (cluster ll) (cluster ll')"
    using assms unfolding on_versioned_def versioned_api_def
    by (auto simp: kube_Get_def split_beta Let_def split: sum.splits)
  have "held_used used ll'" if "held_used used ll"
    using on_versioned_api [OF assms(1)] assms(2)
  proof (cases rule: kube_Get_outcome)
    case (Found l)
    then show ?thesis using on_versioned_used [OF assms(1), of "cluster ll'" l] by (simp add: held_used_def)
  qed (use that grows_used [OF g] in \<open>auto simp: held_used_def\<close>)
  then show ?thesis using g kube_Get_frame [of c ll] assms(2) by (simp add: kube_keeps_def)
qed

lemma kube_Create_keeps:
  assumes "on_versioned lookup used ll" and "kube_Create c r ll = (e, ll')"
  shows "kube_keeps lookup used ll ll'"
proof -
  have g: "grows lookup used (cluster ll) (cluster ll')"
    using assms unfolding on_versioned_def versioned_api_def
    by (auto simp: kube_Create_def split_beta Let_def)
  have "held_used used ll'"
    using kube_Create_outcome [OF on_versioned_api [OF assms(1)] assms(2)] on_versioned_used [OF assms(1)]
    by (auto simp: held_used_def)
  then show ?thesis using g kube_Create_frame [of c r ll] assms(2) by (simp add: kube_keeps_def)
qed

lemma kube_Update_keeps:
  assumes "on_versioned lookup used ll" and "kube_Update c r ll = (e, ll')"
  shows "kube_keeps lookup used ll ll'"
proof -
  have g: "grows lookup used (cluster ll) (cluster ll')"
    using assms unfolding on_versioned_def versioned_api_def
    by (auto simp: kube_Update_def split_beta Let_def grows_refl split: option.splits)
  have "held_used used ll'" if "held_used used ll"
    using on_versioned_api [OF assms(1)] assms(2)
  proof (cases rule: kube_Update_outcome)
    case Refused
    then show ?thesis using that grows_used [OF g] by (fastforce simp: held_used_def)
  next
    case (Applied h old new)
    then have "RV old \<in> used (cluster ll')" "RV new \<in> used (cluster ll')"
      using on_versioned_used [OF assms(1)] grows_used [OF g] by blast+
    then show ?thesis using Applied(7) by (auto simp: held_used_def split: if_splits)
  qed
  then show ?thesis using g kube_Update_frame [of c r ll] assms(2) by (simp add: kube_keeps_def)
qed

text \<open>What the phases keep.\<close>

lemma kube_keeps_refl: "kube_keeps lookup used ll ll"
  by (simp add: kube_keeps_def grows_refl)

lemma read_keeps:
  assumes "on_versioned lookup used (lockState le)" and "lock le = kube_lock" and "attempt_read c le = (p, le')"
  shows "kube_keeps lookup used (lockState le) (lockState le')"
  using assms(2,3) kube_Get_keeps [OF assms(1), of c]
  by (auto simp: attempt_read_def Let_def split: prod.splits sum.splits)

lemma conclude_state: "lockState (snd (conclude r le (e, s))) = s"
  by (simp add: conclude_def split: option.split)

lemma write_keeps:
  assumes "on_versioned lookup used (lockState le)" and "lock le = kube_lock" and "attempt_write c p le = (b, le')"
  shows "kube_keeps lookup used (lockState le) (lockState le')"
proof (cases p)
  case Finished
  then show ?thesis using assms(3) by (simp add: kube_keeps_refl)
next
  case (CreatePlan r)
  obtain e s where w: "kube_Create c r (lockState le) = (e, s)" by (metis surj_pair)
  then show ?thesis
    using kube_Create_keeps [OF assms(1) w] conclude_state [of r le e s] assms(2,3) CreatePlan by simp
next
  case (UpdatePlan r)
  obtain e s where w: "kube_Update c r (lockState le) = (e, s)" by (metis surj_pair)
  then show ?thesis
    using kube_Update_keeps [OF assms(1) w] conclude_state [of r le e s] assms(2,3) UpdatePlan by simp
qed

lemma release_keeps:
  assumes "on_versioned lookup used (lockState le)" and "lock le = kube_lock" and "release le = (b, le')"
  shows "kube_keeps lookup used (lockState le) (lockState le')"
proof (cases "IsLeader le")
  case True
  let ?r = "releaseRecord le (attempt_time le)"
  obtain e s where w: "kube_Update context_TODO ?r (lockState le) = (e, s)" by (metis surj_pair)
  then show ?thesis
    using kube_Update_keeps [OF assms(1) w] conclude_state [of ?r "after_Get (lockState le) le" e s]
      assms(2,3) True by (simp add: release_write)
qed (use assms(3) in \<open>simp add: release_write kube_keeps_refl\<close>)

text \<open>What the phases leave of the elector itself.\<close>

definition same_settings :: "'s LeaderElector \<Rightarrow> 's LeaderElector \<Rightarrow> bool" where
  "same_settings le le' \<longleftrightarrow> config le' = config le \<and> readings (le_clock le') = readings (le_clock le)"

lemma phases_settings:
  "attempt_read c le = (p, le') \<Longrightarrow> same_settings le le'"
  "attempt_write c p le = (b, le') \<Longrightarrow> same_settings le le'"
  "release le = (b, le') \<Longrightarrow> same_settings le le'"
proof -
  have conc: "conclude r x (e, s) = (b, le') \<Longrightarrow> same_settings x le'" for r x e and s :: 'a and b le'
    by (auto simp: conclude_def same_settings_def split: option.splits)
  show "attempt_read c le = (p, le') \<Longrightarrow> same_settings le le'"
    by (auto simp: attempt_read_def Let_def same_settings_def split: prod.splits sum.splits)
  show "attempt_write c p le = (b, le') \<Longrightarrow> same_settings le le'"
    by (cases p) (auto simp: conclude_def same_settings_def split: prod.splits option.splits)
  assume rel: "release le = (b, le')"
  obtain e s where "Update (lock le) context_TODO (releaseRecord le (attempt_time le)) (lockState le) = (e, s)"
    by (metis surj_pair)
  then have "same_settings (after_Get (lockState le) le) le' \<or> le' = le"
    using rel conc by (auto simp: release_write split: if_splits)
  then show "same_settings le le'" by (auto simp: same_settings_def)
qed

end
