(* ===== verification/Kube_Election.thy ===== *)
theory Kube_Election
  imports Kube_Attempt
begin

text \<open>
  Electors over one Kubernetes lease. The system of \<open>Election_Interleaved\<close> is refined: the shared
  cell becomes a \<^verbatim>\<open>Lease\<close> object behind the API, each elector has a lease lock of
  \<open>Kube_Lease\<close>, the read and the write of an attempt are the phases of the code on that lock, and
  every call that writes may reach the API again later. A simulation carries the mutual
  exclusion of the abstract system over.

  The electors are configured with leases of whole seconds, which is what a \<^verbatim>\<open>Lease\<close> object
  can represent.
\<close>

section \<open>Calls that write\<close>

datatype kube_call = CreateCall Lease | UpdateCall Lease

definition plan_call :: "'c LeaseLock \<Rightarrow> plan \<Rightarrow> kube_call option" where
  "plan_call ll p =
     (case p of
        Finished \<Rightarrow> None
      | CreatePlan r \<Rightarrow>
          Some (CreateCall \<lparr>lease_Meta = \<lparr>Namespace = Namespace (LeaseMeta ll),
                  meta_Name = meta_Name (LeaseMeta ll), ResourceVersion = []\<rparr>,
                Spec = LeaderElectionRecordToLeaseSpec r\<rparr>)
      | UpdatePlan r \<Rightarrow>
          map_option (\<lambda>l. UpdateCall (l\<lparr>Spec := LeaderElectionRecordToLeaseSpec r\<rparr>)) (held_lease ll))"

definition release_call :: "'c LeaseLock LeaderElector \<Rightarrow> kube_call option" where
  "release_call le =
     (if IsLeader le then plan_call (lockState le) (UpdatePlan (releaseRecord le (attempt_time le))) else None)"

fun make_call :: "'c LeaseLock \<Rightarrow> ctx \<Rightarrow> kube_call \<Rightarrow> 'c \<Rightarrow> 'c" where
  "make_call ll c (CreateCall l) s = snd (Leases_Create (Client ll) c (Namespace (LeaseMeta ll)) l s)"
| "make_call ll c (UpdateCall l) s = snd (Leases_Update (Client ll) c (Namespace (LeaseMeta ll)) l s)"

text \<open>These are the calls that the lease lock makes.\<close>

lemma writes_make_call:
  "plan_call ll (CreatePlan r) = Some q \<Longrightarrow> cluster (snd (kube_Create c r ll)) = make_call ll c q (cluster ll)"
  "plan_call ll (UpdatePlan r) = Some q \<Longrightarrow> cluster (snd (kube_Update c r ll)) = make_call ll c q (cluster ll)"
  "plan_call ll (UpdatePlan r) = None \<Longrightarrow> cluster (snd (kube_Update c r ll)) = cluster ll"
  by (auto simp: plan_call_def kube_Create_def kube_Update_def Let_def split: prod.splits option.splits)

fun call_named :: "'c LeaseLock \<Rightarrow> kube_call \<Rightarrow> bool" where
  "call_named ll (CreateCall l) \<longleftrightarrow> meta_Name (lease_Meta l) = meta_Name (LeaseMeta ll)"
| "call_named ll (UpdateCall l) \<longleftrightarrow> True"

lemma plan_call_named: "plan_call ll p = Some q \<Longrightarrow> call_named ll q"
  by (auto simp: plan_call_def split: plan.splits)

fun call_lease :: "kube_call \<Rightarrow> Lease" where
  "call_lease (CreateCall l) = l"
| "call_lease (UpdateCall l) = l"

lemma call_grows:
  "on_versioned lookup used ll \<Longrightarrow> call_named ll q \<Longrightarrow> grows lookup used s (make_call ll c q s)"
  by (cases q) (simp_all add: on_versioned_def versioned_api_def)

lemma call_outcome:
  assumes "on_api lookup ll" and "call_named ll q" and "lookup (make_call ll c q s) \<noteq> lookup s"
  obtains new where "lookup (make_call ll c q s) = Some new" and "Spec new = Spec (call_lease q)"
    and "case q of CreateCall l \<Rightarrow> lookup s = None
         | UpdateCall l \<Rightarrow> \<exists>old. lookup s = Some old \<and> RV old = RV l"
proof (cases q)
  case (CreateCall l)
  obtain lo e s' where "Leases_Create (Client ll) c (Namespace (LeaseMeta ll)) l s = ((lo, e), s')" by (metis surj_pair)
  with api_createD [OF assms(1) [unfolded on_api_def] this] assms(2,3) CreateCall that show thesis by auto
next
  case (UpdateCall l)
  obtain lo e s' where "Leases_Update (Client ll) c (Namespace (LeaseMeta ll)) l s = ((lo, e), s')" by (metis surj_pair)
  with api_updateD [OF assms(1) [unfolded on_api_def] this] assms(3) UpdateCall that show thesis by auto
qed

section \<open>The system\<close>

record 'c kube_system =
  k_now :: int
  api :: 'c
  k_since :: int
  k_hist :: "Record set"
  k_node :: "nat \<Rightarrow> 'c LeaseLock LeaderElector"
  k_lastOK :: "nat \<Rightarrow> int option"
  k_pending :: "nat \<Rightarrow> (plan \<times> int) option"
  k_late :: "(nat \<times> kube_call) set"

text \<open>Elector \<open>i\<close> about to act: its lease lock sees the cluster.\<close>

definition lease_turn :: "'c kube_system \<Rightarrow> nat \<Rightarrow> 'c LeaseLock LeaderElector" where
  "lease_turn S i =
     (k_node S i)\<lparr>lockState := (lockState (k_node S i))\<lparr>cluster := api S\<rparr>\<rparr>"

definition lease_record :: "('c \<Rightarrow> Lease option) \<Rightarrow> 'c \<Rightarrow> Record option" where
  "lease_record lookup s = map_option (\<lambda>l. LeaseSpecToLeaderElectionRecord (Spec l)) (lookup s)"

text \<open>Every write stores a record that was never stored before.\<close>

definition fresh_lease :: "('c \<Rightarrow> Lease option) \<Rightarrow> 'c kube_system \<Rightarrow> 'c \<Rightarrow> bool" where
  "fresh_lease lookup S s \<longleftrightarrow>
     lookup s = lookup (api S) \<or> (\<exists>r. lease_record lookup s = Some r \<and> r \<notin> k_hist S)"

definition after_call :: "('c \<Rightarrow> Lease option) \<Rightarrow> 'c kube_system \<Rightarrow> 'c \<Rightarrow> int \<Rightarrow> 'c kube_system" where
  "after_call lookup S s t =
     S\<lparr>k_now := t, api := s,
       k_since := (if lookup s = lookup (api S) then k_since S else t),
       k_hist := (case lease_record lookup s of None \<Rightarrow> k_hist S | Some r \<Rightarrow> insert r (k_hist S))\<rparr>"

definition after_lease_turn ::
    "('c \<Rightarrow> Lease option) \<Rightarrow> 'c kube_system \<Rightarrow> nat \<Rightarrow> 'c LeaseLock LeaderElector \<Rightarrow> int option \<Rightarrow> int \<Rightarrow>
     'c kube_system" where
  "after_lease_turn lookup S i le' ok t =
     (after_call lookup S (cluster (lockState le')) t)
       \<lparr>k_node := (k_node S)(i := le'), k_lastOK := (k_lastOK S)(i := ok)\<rparr>"

definition calls :: "nat \<Rightarrow> kube_call option \<Rightarrow> (nat \<times> kube_call) set" where
  "calls i q = (case q of None \<Rightarrow> {} | Some q \<Rightarrow> {(i, q)})"

inductive kube_step ::
    "('c \<Rightarrow> Lease option) \<Rightarrow> clocks \<Rightarrow> 'c kube_system \<Rightarrow> 'c kube_system \<Rightarrow> bool" for lookup ck where
  pass: "k_now S \<le> t \<Longrightarrow> kube_step lookup ck S (S\<lparr>k_now := t\<rparr>)"
| read: "k_pending S i = None \<Longrightarrow> attempt_read c (lease_turn S i) = (p, le') \<Longrightarrow> k_now S \<le> t \<Longrightarrow>
     reads_within (moment ck i) (k_now S) t (le_clock (k_node S i)) (le_clock le') \<Longrightarrow>
     kube_step lookup ck S ((after_lease_turn lookup S i le' (k_lastOK S i) t)
       \<lparr>k_pending := (k_pending S)(i := if p = Finished then None
          else Some (p, moment ck i (mono_of (attempt_time (k_node S i)))))\<rparr>)"
| send: "k_pending S i = Some (p, x) \<Longrightarrow> attempt_write c p (lease_turn S i) = (b, le') \<Longrightarrow> k_now S \<le> t \<Longrightarrow>
     fresh_lease lookup S (cluster (lockState le')) \<Longrightarrow>
     kube_step lookup ck S ((after_lease_turn lookup S i le' (if b then Some x else k_lastOK S i) t)
       \<lparr>k_pending := (k_pending S)(i := None),
        k_late := k_late S \<union> calls i (plan_call (lockState (lease_turn S i)) p)\<rparr>)"
| give_up: "k_pending S i = None \<Longrightarrow> release (lease_turn S i) = (b, le') \<Longrightarrow> k_now S \<le> t \<Longrightarrow>
     fresh_lease lookup S (cluster (lockState le')) \<Longrightarrow>
     kube_step lookup ck S ((after_lease_turn lookup S i le' None t)
       \<lparr>k_late := k_late S \<union> calls i (release_call (lease_turn S i))\<rparr>)"
| arrive: "(i, q) \<in> k_late S \<Longrightarrow> k_now S \<le> t \<Longrightarrow>
     s = make_call (lockState (k_node S i)) c q (api S) \<Longrightarrow> fresh_lease lookup S s \<Longrightarrow>
     kube_step lookup ck S (after_call lookup S s t)"

text \<open>
  A configured elector: a lease lock on the object, a clock with plausible readings, a lease
  of whole seconds.
\<close>

definition wf_lease_node ::
    "('c \<Rightarrow> Lease option) \<Rightarrow> ('c \<Rightarrow> string set) \<Rightarrow> string \<Rightarrow> 'c LeaseLock LeaderElector \<Rightarrow> bool" where
  "wf_lease_node lookup used ident le \<longleftrightarrow>
     lock le = kube_lock \<and> kube_Identity (LockConfig (lockState le)) = ident \<and>
     on_versioned lookup used (lockState le) \<and> real_clock (le_clock le) \<and>
     (\<forall>n. 0 \<le> mono_of (readings (le_clock le) n) \<and> mono_of (readings (le_clock le) n) < 2 ^ 62) \<and>
     (\<exists>k. LeaseDuration (config le) = Second * k \<and> 1 \<le> k \<and> k < 2147483)"

definition init_kube ::
    "('c \<Rightarrow> Lease option) \<Rightarrow> ('c \<Rightarrow> string set) \<Rightarrow> (nat \<Rightarrow> string) \<Rightarrow> 'c kube_system \<Rightarrow> bool" where
  "init_kube lookup used ident S \<longleftrightarrow>
     lookup (api S) = None \<and> k_hist S = {} \<and> k_lastOK S = (\<lambda>_. None) \<and>
     k_pending S = (\<lambda>_. None) \<and> k_late S = {} \<and>
     (\<forall>i. wf_lease_node lookup used (ident i) (k_node S i) \<and> observedRawRecord (k_node S i) = [] \<and>
        observedRecord (k_node S i) = zero_Record \<and> held_lease (lockState (k_node S i)) = None)"

inductive kube_reachable ::
    "('c \<Rightarrow> Lease option) \<Rightarrow> ('c \<Rightarrow> string set) \<Rightarrow> (nat \<Rightarrow> string) \<Rightarrow> clocks \<Rightarrow> 'c kube_system \<Rightarrow> bool"
  for lookup used ident ck where
  start: "init_kube lookup used ident S \<Longrightarrow> kube_reachable lookup used ident ck S"
| step: "kube_reachable lookup used ident ck S \<Longrightarrow> kube_step lookup ck S S' \<Longrightarrow>
    kube_reachable lookup used ident ck S'"

section \<open>The simulation\<close>

lemma lease_turn_simps [simp]:
  "config (lease_turn S i) = config (k_node S i)" "lock (lease_turn S i) = lock (k_node S i)"
  "le_clock (lease_turn S i) = le_clock (k_node S i)"
  "lockState (lease_turn S i) = (lockState (k_node S i))\<lparr>cluster := api S\<rparr>"
  "attempt_time (lease_turn S i) = attempt_time (k_node S i)"
  "same_elector_view (lease_turn S i) la = same_elector_view (k_node S i) la"
  by (simp_all add: lease_turn_def attempt_time_def)

text \<open>The abstract lock of elector \<open>i\<close> in the abstract system.\<close>

definition abs_lock :: "system \<Rightarrow> nat \<Rightarrow> cas_state" where
  "abs_lock C i = (base (lockState (node C i)))\<lparr>cell := store C\<rparr>"

lemma abs_lock_sel [simp]:
  "cell (abs_lock C i) = store C" "seen (abs_lock C i) = version (node C i)"
  by (simp_all add: abs_lock_def)

lemma ready_over:
  "stores_as (lockState (node C i)) = kube_view \<Longrightarrow> ready C i rd wr = over (node C i) (abs_lock C i) rd wr"
  unfolding ready_def abs_lock_def by (intro LeaderElector.equality net_state.equality) simp_all

definition node_sim ::
    "('c \<Rightarrow> Lease option) \<Rightarrow> ('c \<Rightarrow> string set) \<Rightarrow> string \<Rightarrow> 'c kube_system \<Rightarrow> system \<Rightarrow> nat \<Rightarrow> bool" where
  "node_sim lookup used n S C i \<longleftrightarrow>
     wf_lease_node lookup used n (k_node S i) \<and> lock (node C i) = net_lock \<and>
     stores_as (lockState (node C i)) = kube_view \<and> same_elector_view (k_node S i) (node C i) \<and>
     kube_abs lookup (lockState (lease_turn S i)) (abs_lock C i) \<and>
     held_used used (lockState (lease_turn S i))"

definition core_sim ::
    "('c \<Rightarrow> Lease option) \<Rightarrow> ('c \<Rightarrow> string set) \<Rightarrow> (nat \<Rightarrow> string) \<Rightarrow> 'c kube_system \<Rightarrow> system \<Rightarrow> bool" where
  "core_sim lookup used ident S C \<longleftrightarrow>
     now_g C = k_now S \<and> since C = k_since S \<and> hist C = k_hist S \<and> lastOK C = k_lastOK S \<and>
     (\<forall>r. lease_record lookup (api S) = Some r \<longrightarrow> r \<in> k_hist S) \<and>
     (\<forall>i. node_sim lookup used (ident i) S C i)"

text \<open>
  A call that may still reach the API, over the stored object: either it can no longer have an
  effect, or it is among the late requests \<open>L\<close> of the abstract system.
\<close>

abbreviation rec_of :: "Lease \<Rightarrow> Record" where
  "rec_of l \<equiv> LeaseSpecToLeaderElectionRecord (Spec l)"

fun call_sim ::
    "('c \<Rightarrow> Lease option) \<Rightarrow> ('c \<Rightarrow> string set) \<Rightarrow> 'c \<Rightarrow> (nat \<times> Record) option \<Rightarrow>
     (nat \<times> bool \<times> request) set \<Rightarrow> nat \<Rightarrow> kube_call \<Rightarrow> bool" where
  "call_sim lookup used s st L i (CreateCall l) \<longleftrightarrow>
     (lookup s = None \<longrightarrow> (\<exists>full. (i, full, CreateReq (rec_of l)) \<in> L))"
| "call_sim lookup used s st L i (UpdateCall l) \<longleftrightarrow>
     RV l \<in> insert [] (used s) \<and>
     (\<forall>cur. lookup s = Some cur \<and> RV cur = RV l \<longrightarrow>
        (\<exists>v r full. st = Some (v, r) \<and> (i, full, UpdateReq (Some v) (rec_of l)) \<in> L))"

definition kube_sim ::
    "('c \<Rightarrow> Lease option) \<Rightarrow> ('c \<Rightarrow> string set) \<Rightarrow> (nat \<Rightarrow> string) \<Rightarrow> 'c kube_system \<Rightarrow> isystem \<Rightarrow> bool" where
  "kube_sim lookup used ident S A \<longleftrightarrow>
     core_sim lookup used ident S (core A) \<and> pending A = k_pending S \<and>
     (\<forall>(i, q) \<in> k_late S. call_sim lookup used (api S) (store (core A)) (late A) i q \<and>
        call_named (lockState (k_node S i)) q)"

lemma core_simD:
  assumes "core_sim lookup used ident S C"
  shows "now_g C = k_now S" and "since C = k_since S" and "hist C = k_hist S" and "lastOK C = k_lastOK S"
    and "lookup (api S) = Some l \<Longrightarrow> rec_of l \<in> k_hist S" and "node_sim lookup used (ident i) S C i"
  using assms by (auto simp: core_sim_def lease_record_def)

lemma node_simD:
  assumes "node_sim lookup used n S C i"
  shows "wf_lease_node lookup used n (k_node S i)" and "lock (node C i) = net_lock"
    and "stores_as (lockState (node C i)) = kube_view" and "same_elector_view (lease_turn S i) (node C i)"
    and "kube_abs lookup (lockState (lease_turn S i)) (abs_lock C i)"
    and "held_used used (lockState (lease_turn S i))"
    and "on_versioned lookup used (lockState (lease_turn S i))" and "lock (lease_turn S i) = kube_lock"
    and "ready C i rd wr = over (node C i) (abs_lock C i) rd wr"
proof -
  from assms show "wf_lease_node lookup used n (k_node S i)" "lock (node C i) = net_lock"
    "stores_as (lockState (node C i)) = kube_view" "same_elector_view (lease_turn S i) (node C i)"
    "kube_abs lookup (lockState (lease_turn S i)) (abs_lock C i)" "held_used used (lockState (lease_turn S i))"
    by (simp_all add: node_sim_def)
  then show "on_versioned lookup used (lockState (lease_turn S i))" "lock (lease_turn S i) = kube_lock"
    "ready C i rd wr = over (node C i) (abs_lock C i) rd wr"
    by (simp_all add: wf_lease_node_def on_versioned_def ready_over)
qed

lemma kube_abs_store:
  assumes "kube_abs lookup ll a"
  shows "lookup (cluster ll) = None \<longleftrightarrow> cell a = None"
    and "lookup (cluster ll) = Some l \<Longrightarrow> \<exists>v. cell a = Some (v, rec_of l)"
  using assms by (auto simp: kube_abs_def split: option.splits)

text \<open>An abstract elector whose view of the cell is replaced.\<close>

definition recell :: "(nat \<times> Record) option \<Rightarrow> net_state LeaderElector \<Rightarrow> net_state LeaderElector" where
  "recell x le = le\<lparr>lockState := (lockState le)\<lparr>base := (base (lockState le))\<lparr>cell := x\<rparr>\<rparr>\<rparr>"

lemma recell_self: "recell (stored le) le = le"
  unfolding recell_def by (intro LeaderElector.equality net_state.equality cas_state.equality) simp_all

lemma recell_simps [simp]:
  "same_elector_view le (recell x la) = same_elector_view le la" "lock (recell x la) = lock la"
  "stores_as (lockState (recell x la)) = stores_as (lockState la)" "stored (recell x la) = x"
  by (simp_all add: recell_def lock_def)

lemma deliver_recell: "deliver C i q = recell (serve q (store C)) (node C i)"
  by (simp add: deliver_def recell_def)

text \<open>An elector that did not act, after a change of the object.\<close>

lemma other_node_sim:
  assumes sim: "node_sim lookup used n S C j"
    and grow: "grows lookup used (api S) (api S')" and "k_node S' j = k_node S j" and "node C' j = recell x (node C j)"
    and cell: "store C' = store C \<longleftrightarrow> lookup (api S') = lookup (api S)"
    and some: "\<And>l. lookup (api S') = Some l \<Longrightarrow> \<exists>v. store C' = Some (v, rec_of l)"
  shows "node_sim lookup used n S' C' j"
proof -
  let ?ll = "lockState (k_node S j)"
  note d = node_simD [OF sim]
  have abs: "abs_lock C' j = (abs_lock C j)\<lparr>cell := store C'\<rparr>"
    using assms(4) by (simp add: abs_lock_def recell_def)
  have held: "held_used used (?ll\<lparr>cluster := api S'\<rparr>)"
    using d(6) grows_used [OF grow] by (auto simp: held_used_def)
  have "kube_abs lookup (?ll\<lparr>cluster := api S'\<rparr>) (abs_lock C' j)"
  proof (cases "lookup (api S') = lookup (api S)")
    case True
    then have "abs_lock C' j = abs_lock C j" using cell abs by (simp add: abs_lock_def)
    then show ?thesis using d(5) True by (simp add: kube_abs_def on_api_def split: option.splits)
  next
    case False
    then obtain l where l: "lookup (api S') = Some l" "RV l \<notin> used (api S)"
      using grow by (auto simp: grows_def)
    have "RV l \<noteq> []" using on_versioned_api [OF d(7)] l(1) by (simp add: on_api_def optimistic_api_def)
    then have "\<not> (held_lease ?ll = Some h \<and> RV h = RV l)" for h
      using d(6) l(2) by (auto simp: held_used_def)
    then show ?thesis using d(5) l(1) some abs by (force simp: kube_abs_def on_api_def)
  qed
  then show ?thesis using d(1-4) held assms(3,4) by (simp add: node_sim_def)
qed

lemma after_call_simps [simp]:
  "k_now (after_call lookup S s t) = t" "api (after_call lookup S s t) = s"
  "k_node (after_call lookup S s t) = k_node S" "k_lastOK (after_call lookup S s t) = k_lastOK S"
  "k_pending (after_call lookup S s t) = k_pending S" "k_late (after_call lookup S s t) = k_late S"
  by (simp_all add: after_call_def)

lemma after_lease_turn_simps [simp]:
  "k_now (after_lease_turn lookup S i le' ok t) = t"
  "api (after_lease_turn lookup S i le' ok t) = cluster (lockState le')"
  "k_node (after_lease_turn lookup S i le' ok t) = (k_node S)(i := le')"
  "k_lastOK (after_lease_turn lookup S i le' ok t) = (k_lastOK S)(i := ok)"
  "k_pending (after_lease_turn lookup S i le' ok t) = k_pending S"
  "k_late (after_lease_turn lookup S i le' ok t) = k_late S"
  by (simp_all add: after_lease_turn_def)

lemma wf_lease_node_keep:
  assumes "wf_lease_node lookup used n (k_node S i)" and "same_settings (lease_turn S i) le'"
    and "kube_keeps lookup used (lockState (lease_turn S i)) (lockState le')"
  shows "wf_lease_node lookup used n le'"
  using assms
  by (simp add: wf_lease_node_def kube_keeps_def on_versioned_def real_clock_def same_settings_def lock_def)

section \<open>Every step is simulated\<close>

text \<open>A phase of elector \<open>i\<close>, for the state that the electors share.\<close>

lemma turn_core_sim:
  assumes core: "core_sim lookup used ident S C" and set: "same_settings (lease_turn S i) le'"
    and keeps: "kube_keeps lookup used (lockState (lease_turn S i)) (lockState le')"
    and ph: "phase_sim lookup (lease_turn S i) (abs_lock C i) le' la'"
  shows "core_sim lookup used ident (after_lease_turn lookup S i le' ok t) (after_turn C i la' ok t)"
    (is "core_sim _ _ _ ?S ?C")
proof -
  note g = core_simD [OF core]
  note d = node_simD [OF g(6) [of i]]
  have la': "same_elector_view le' la'" "lock la' = net_lock" "stores_as (lockState la') = kube_view"
    "kube_abs lookup (lockState le') (base (lockState la'))"
    "stored la' = store C \<longleftrightarrow> lookup (cluster (lockState le')) = lookup (api S)"
    using ph by (simp_all add: phase_sim_def)
  note st = kube_abs_store [OF la'(4)]
  have grow: "grows lookup used (api S) (cluster (lockState le'))" using keeps by (simp add: kube_keeps_def)
  have "node_sim lookup used (ident j) ?S ?C j" for j
  proof (cases "j = i")
    case True
    have "abs_lock ?C i = base (lockState la')" by (simp add: abs_lock_def)
    then show ?thesis
      using True la' wf_lease_node_keep [OF d(1) set keeps] keeps d(6)
      by (simp add: node_sim_def lease_turn_def kube_keeps_def)
  next
    case False
    show ?thesis
      by (rule other_node_sim [OF g(6) [of j], where x = "stored (node C j)"])
        (use False grow la'(5) st in \<open>simp_all add: recell_self\<close>)
  qed
  moreover have "since ?C = k_since ?S"
    using la'(5) g(2) by (simp add: after_turn_def after_lease_turn_def after_call_def)
  moreover have "hist ?C = k_hist ?S" "\<forall>r. lease_record lookup (api ?S) = Some r \<longrightarrow> r \<in> k_hist ?S"
    using g(3) st by (cases "lookup (cluster (lockState le'))",
      auto simp: after_turn_def after_lease_turn_def after_call_def lease_record_def)
  ultimately show ?thesis using g(4) by (simp add: core_sim_def)
qed

lemma fresh_sim:
  assumes core: "core_sim lookup used ident S C" and ph: "phase_sim lookup (lease_turn S i) (abs_lock C i) le' la'"
    and "fresh_lease lookup S (cluster (lockState le'))"
  shows "fresh_write C la'"
proof -
  have "kube_abs lookup (lockState le') (base (lockState la'))"
    "stored la' = store C \<longleftrightarrow> lookup (cluster (lockState le')) = lookup (api S)"
    using ph by (simp_all add: phase_sim_def)
  with kube_abs_store(2) [OF this(1)] core_simD(3) [OF core] assms(3) show ?thesis
    by (fastforce simp: fresh_write_def fresh_lease_def lease_record_def)
qed

text \<open>Calls that were on their way, and a new one.\<close>

lemma call_sim_turn:
  assumes "call_sim lookup used s st L j q" and "grows lookup used s s'"
    and "st' = st \<longleftrightarrow> lookup s' = lookup s" and "L \<subseteq> L'" and "\<And>l. lookup s' = Some l \<Longrightarrow> RV l \<noteq> []"
  shows "call_sim lookup used s' st' L' j q"
proof (cases "lookup s' = lookup s")
  case True
  then show ?thesis using assms(1-4) by (cases q) (fastforce simp: grows_def)+
next
  case False
  then obtain new where "lookup s' = Some new" "RV new \<notin> used s" using assms(2) by (auto simp: grows_def)
  then show ?thesis using assms(1,2,5) by (cases q) (auto simp: grows_def)
qed

lemma new_call_sim:
  assumes sim: "node_sim lookup used n S C i" and q: "plan_call (lockState (lease_turn S i)) p = Some q"
    and grow: "grows lookup used (api S) s'" and st: "st' = store C \<longleftrightarrow> lookup s' = lookup (api S)"
    and wr: "lookup s' = lookup (api S) \<longrightarrow> wr = Refused"
  shows "call_sim lookup used s' st' (L \<union> left_over i full (plan_request (node C i) p) wr) i q"
proof -
  note d = node_simD [OF sim]
  have rv: "RV l \<noteq> []" if "lookup s = Some l" for s l
    using on_versioned_api [OF d(7)] that by (simp add: on_api_def optimistic_api_def)
  have view: "LeaseSpecToLeaderElectionRecord (LeaderElectionRecordToLeaseSpec r) = kube_view r" for r
    by (simp add: kube_view_def)
  have "call_sim lookup used (api S) (store C) (L \<union> left_over i full (plan_request (node C i) p) Refused) i q"
    (is "call_sim _ _ _ _ ?L i q")
  proof (cases p)
    case (CreatePlan r)
    then show ?thesis using q d(3) by (auto simp: plan_call_def plan_request_def left_over_def view)
  next
    case (UpdatePlan r)
    then obtain h where h: "held_lease (lockState (k_node S i)) = Some h"
        "q = UpdateCall (h\<lparr>Spec := LeaderElectionRecordToLeaseSpec r\<rparr>)"
      using q by (auto simp: plan_call_def)
    have rv_h: "RV h \<in> insert [] (used (api S))" using d(6) h(1) by (simp add: held_used_def)
    have mem: "(i, full, UpdateReq (version (node C i)) (kube_view r)) \<in> ?L"
      using UpdatePlan d(3) by (simp add: plan_request_def left_over_def)
    have "\<exists>v r' full'. store C = Some (v, r') \<and> (i, full', UpdateReq (Some v) (kube_view r)) \<in> ?L"
      if cur: "lookup (api S) = Some cur" "RV cur = RV h" for cur
    proof -
      obtain v where "store C = Some (v, rec_of cur)" "version (node C i) = Some v"
        using kube_abs_some [OF d(5), of cur] cur h(1) by auto
      with mem show ?thesis by auto
    qed
    then show ?thesis unfolding h(2) call_sim.simps by (simp add: view) (use rv_h in blast)
  qed (use q in \<open>simp add: plan_call_def\<close>)
  note before = this
  show ?thesis
  proof (cases "lookup s' = lookup (api S)")
    case True
    then show ?thesis using call_sim_turn [OF before grow st] wr rv by auto
  next
    case False
    have "call_sim lookup used s' st' M i q" for M
    proof -
      obtain new where "lookup s' = Some new" "RV new \<notin> used (api S)" using False grow by (auto simp: grows_def)
      then show ?thesis using before grow rv by (cases q) (auto simp: grows_def)
    qed
    then show ?thesis .
  qed
qed

text \<open>The whole state after a phase that leaves \<open>N\<close> behind.\<close>

lemma turn_kube_sim:
  assumes sim: "kube_sim lookup used ident S A" and set: "same_settings (lease_turn S i) le'"
    and keeps: "kube_keeps lookup used (lockState (lease_turn S i)) (lockState le')"
    and ph: "phase_sim lookup (lease_turn S i) (abs_lock (core A) i) le' la'"
    and new: "\<And>q. nq = Some q \<Longrightarrow>
      call_sim lookup used (cluster (lockState le')) (stored la') (late A \<union> L) i q \<and>
      call_named (lockState (k_node S i)) q"
  shows "kube_sim lookup used ident
     ((after_lease_turn lookup S i le' ok t)\<lparr>k_pending := pn, k_late := k_late S \<union> calls i nq\<rparr>)
     (A\<lparr>core := after_turn (core A) i la' ok t, pending := pn, late := late A \<union> L\<rparr>)"
proof -
  have core: "core_sim lookup used ident S (core A)"
    and late: "\<And>j q. (j, q) \<in> k_late S \<Longrightarrow> call_sim lookup used (api S) (store (core A)) (late A) j q \<and>
      call_named (lockState (k_node S j)) q"
    using sim by (auto simp: kube_sim_def)
  note d = node_simD [OF core_simD(6) [OF core, of i]]
  have st: "stored la' = store (core A) \<longleftrightarrow> lookup (cluster (lockState le')) = lookup (api S)"
    using ph by (simp add: phase_sim_def)
  have grow: "grows lookup used (api S) (cluster (lockState le'))" and meta: "LeaseMeta (lockState le') = LeaseMeta (lockState (k_node S i))"
    using keeps by (simp_all add: kube_keeps_def)
  have rv: "RV l \<noteq> []" if "lookup s = Some l" for s l
    using on_versioned_api [OF d(7)] that by (simp add: on_api_def optimistic_api_def)
  have named: "call_named (lockState (((k_node S)(i := le')) j)) q = call_named (lockState (k_node S j)) q" for j q
    using meta by (cases q) auto
  have calls: "call_sim lookup used (cluster (lockState le')) (stored la') (late A \<union> L) j q \<and>
      call_named (lockState (k_node S j)) q" if jq: "(j, q) \<in> k_late S \<union> calls i nq" for j q
  proof -
    consider "(j, q) \<in> k_late S" | "j = i" "nq = Some q" using jq by (auto simp: calls_def split: option.splits)
    then show ?thesis
    proof cases
      case 1
      then show ?thesis using call_sim_turn [OF _ grow st, of "late A" j q "late A \<union> L"] late rv by blast
    qed (use new in blast)
  qed
  have "core_sim lookup used ident ((after_lease_turn lookup S i le' ok t)\<lparr>k_pending := pn, k_late := k_late S \<union> calls i nq\<rparr>)
      (after_turn (core A) i la' ok t)"
    using turn_core_sim [OF core set keeps ph, of ok t] by (simp add: core_sim_def node_sim_def lease_turn_def)
  then show ?thesis unfolding kube_sim_def using calls named by auto
qed

lemma read_simulated:
  assumes sim: "kube_sim lookup used ident S A" and "k_pending S i = None"
    and rd: "attempt_read c (lease_turn S i) = (p, le')" and "k_now S \<le> t"
    and "reads_within (moment ck i) (k_now S) t (le_clock (k_node S i)) (le_clock le')"
  shows "\<exists>A'. isys_step ck A A' \<and> kube_sim lookup used ident ((after_lease_turn lookup S i le' (k_lastOK S i) t)
       \<lparr>k_pending := (k_pending S)(i := if p = Finished then None
          else Some (p, moment ck i (mono_of (attempt_time (k_node S i)))))\<rparr>) A'"
proof -
  have core: "core_sim lookup used ident S (core A)" and pnd: "pending A = k_pending S"
    using sim by (simp_all add: kube_sim_def)
  note g = core_simD [OF core]
  note d = node_simD [OF g(6) [of i]]
  obtain rd la' where la': "attempt_read c (over (node (core A) i) (abs_lock (core A) i) rd NoFault) = (p, la')"
      "phase_sim lookup (lease_turn S i) (abs_lock (core A) i) le' la'"
    using read_phase [OF d(4,8,2,5) rd] by blast
  have clk: "le_clock la' = le_clock le'" "le_clock (node (core A) i) = le_clock (k_node S i)"
    "attempt_time (node (core A) i) = attempt_time (k_node S i)"
    using la'(2) d(4) same_view_time [OF d(4)] by (simp_all add: phase_sim_def same_elector_view_def)
  let ?pn = "(k_pending S)(i := if p = Finished then None
    else Some (p, moment ck i (mono_of (attempt_time (k_node S i)))))"
  let ?A = "A\<lparr>core := after_turn (core A) i la' (k_lastOK S i) t, pending := ?pn\<rparr>"
  have "isys_step ck A ?A"
    unfolding g(4) [symmetric] pnd [symmetric] clk(3) [symmetric]
    by (rule isys_step.read [of A i c rd NoFault]) (use assms(2,4,5) la'(1) clk pnd g(1) in \<open>simp_all add: d(9)\<close>)
  moreover have "kube_sim lookup used ident ((after_lease_turn lookup S i le' (k_lastOK S i) t)\<lparr>k_pending := ?pn\<rparr>) ?A"
    using turn_kube_sim [OF sim phases_settings(1) [OF rd] read_keeps [OF d(7,8) rd] la'(2),
      where nq = None and L = "{}" and ok = "k_lastOK S i" and t = t and pn = ?pn]
    by (simp add: calls_def after_lease_turn_def after_call_def)
  ultimately show ?thesis by blast
qed

lemma send_simulated:
  assumes sim: "kube_sim lookup used ident S A" and "k_pending S i = Some (p, x)"
    and wr: "attempt_write c p (lease_turn S i) = (b, le')" and "k_now S \<le> t"
    and fresh: "fresh_lease lookup S (cluster (lockState le'))"
  shows "\<exists>A'. isys_step ck A A' \<and> kube_sim lookup used ident
      ((after_lease_turn lookup S i le' (if b then Some x else k_lastOK S i) t)
       \<lparr>k_pending := (k_pending S)(i := None),
        k_late := k_late S \<union> calls i (plan_call (lockState (lease_turn S i)) p)\<rparr>) A'"
proof -
  have core: "core_sim lookup used ident S (core A)" and pnd: "pending A = k_pending S"
    using sim by (simp_all add: kube_sim_def)
  note g = core_simD [OF core]
  note d = node_simD [OF g(6) [of i]]
  obtain w la' where la': "attempt_write c p (over (node (core A) i) (abs_lock (core A) i) False w) = (b, la')"
      "phase_sim lookup (lease_turn S i) (abs_lock (core A) i) le' la'"
      "lookup (cluster (lockState le')) = lookup (api S) \<longrightarrow> w = Refused"
    using write_phase [OF d(4,8,2,5) wr] by auto
  note keeps = write_keeps [OF d(7,8) wr]
  let ?ok = "if b then Some x else k_lastOK S i" and ?q = "plan_call (lockState (lease_turn S i)) p"
  let ?L = "left_over i True (plan_request (node (core A) i) p) w"
  let ?A = "A\<lparr>core := after_turn (core A) i la' ?ok t, pending := (k_pending S)(i := None), late := late A \<union> ?L\<rparr>"
  have "isys_step ck A ?A"
    unfolding g(4) [symmetric] pnd [symmetric]
    by (rule isys_step.send [of A i p x c False w])
      (use assms(2,4) la'(1) pnd g(1) fresh_sim [OF core la'(2) fresh] in \<open>simp_all add: d(9)\<close>)
  moreover have "call_sim lookup used (cluster (lockState le')) (stored la') (late A \<union> ?L) i q \<and>
      call_named (lockState (k_node S i)) q" if q: "?q = Some q" for q
  proof -
    have "grows lookup used (api S) (cluster (lockState le'))" "stored la' = store (core A) \<longleftrightarrow> lookup (cluster (lockState le')) = lookup (api S)"
      using keeps la'(2) by (simp_all add: kube_keeps_def phase_sim_def)
    from new_call_sim [OF g(6) q this la'(3)] plan_call_named [OF q] show ?thesis by (cases q) simp_all
  qed
  ultimately show ?thesis
    using turn_kube_sim [OF sim phases_settings(2) [OF wr] keeps la'(2),
      where nq = ?q and L = ?L and ok = ?ok and t = t and pn = "(k_pending S)(i := None)"] by blast
qed

lemma give_up_simulated:
  assumes sim: "kube_sim lookup used ident S A" and "k_pending S i = None"
    and rel: "release (lease_turn S i) = (b, le')" and "k_now S \<le> t"
    and fresh: "fresh_lease lookup S (cluster (lockState le'))"
  shows "\<exists>A'. isys_step ck A A' \<and> kube_sim lookup used ident ((after_lease_turn lookup S i le' None t)
       \<lparr>k_late := k_late S \<union> calls i (release_call (lease_turn S i))\<rparr>) A'"
proof -
  have core: "core_sim lookup used ident S (core A)" and pnd: "pending A = k_pending S"
    using sim by (simp_all add: kube_sim_def)
  note g = core_simD [OF core]
  note d = node_simD [OF g(6) [of i]]
  obtain w la' where la': "release (over (node (core A) i) (abs_lock (core A) i) False w) = (b, la')"
      "phase_sim lookup (lease_turn S i) (abs_lock (core A) i) le' la'"
      "lookup (cluster (lockState le')) = lookup (api S) \<longrightarrow> w = Refused"
    using release_phase [OF d(4,8,2,5) rel] by auto
  note keeps = release_keeps [OF d(7,8) rel]
  have same_pending: "(after_lease_turn lookup S i le' None t)\<lparr>k_pending := k_pending S, k_late := M\<rparr> =
      (after_lease_turn lookup S i le' None t)\<lparr>k_late := M\<rparr>"
    "A\<lparr>core := X, pending := k_pending S, late := Y\<rparr> = A\<lparr>core := X, late := Y\<rparr>" for M X Y
    using pnd by (auto intro: kube_system.equality isystem.equality)
  let ?r = "releaseRecord (lease_turn S i) (attempt_time (lease_turn S i))"
  let ?q = "release_call (lease_turn S i)"
  let ?L = "left_over i False (release_request (ready (core A) i False w)) w"
  let ?A = "A\<lparr>core := after_turn (core A) i la' None t, late := late A \<union> ?L\<rparr>"
  have "isys_step ck A ?A"
    using isys_step.give_up [of A i False w b la' t ck] assms(2,4) la'(1) pnd g(1,4) fresh_sim [OF core la'(2) fresh]
    by (simp add: d(9))
  moreover have "call_sim lookup used (cluster (lockState le')) (stored la') (late A \<union> ?L) i q \<and>
      call_named (lockState (k_node S i)) q" if q: "?q = Some q" for q
  proof -
    have ldr: "IsLeader (lease_turn S i)" and p: "plan_call (lockState (lease_turn S i)) (UpdatePlan ?r) = Some q"
      using q by (auto simp: release_call_def split: if_splits)
    have same: "same_elector_view (lease_turn S i) (ready (core A) i False w)" using d(4) by (simp add: d(9))
    have "IsLeader (ready (core A) i False w)"
      using same_view_leader [OF same] ldr d(2,8) kube_abs_me [OF d(5)] by (simp add: d(9))
    then have "release_request (ready (core A) i False w) = plan_request (node (core A) i) (UpdatePlan ?r)"
      using same_view_release [OF same] same_view_time [OF same] by (simp add: release_request_def plan_request_def)
    moreover have "grows lookup used (api S) (cluster (lockState le'))" "stored la' = store (core A) \<longleftrightarrow> lookup (cluster (lockState le')) = lookup (api S)"
      using keeps la'(2) by (simp_all add: kube_keeps_def phase_sim_def)
    ultimately show ?thesis
      using new_call_sim [OF g(6) p _ _ la'(3)] plan_call_named [OF p] by (cases q) simp_all
  qed
  ultimately show ?thesis
    using turn_kube_sim [OF sim phases_settings(3) [OF rel] keeps la'(2),
      where nq = ?q and L = ?L and ok = None and t = t and pn = "k_pending S"]
    by (intro exI [of _ ?A]) (simp add: same_pending)
qed

text \<open>The whole state after a late call.\<close>

lemma after_call_sim:
  assumes sim: "kube_sim lookup used ident S A" and grow: "grows lookup used (api S) s"
    and A': "now_g (core A') = t" "since (core A') = k_since (after_call lookup S s t)"
      "hist (core A') = k_hist (after_call lookup S s t)" "lastOK (core A') = lastOK (core A)"
      "pending A' = pending A" "late A' = late A" "\<And>j. \<exists>x. node (core A') j = recell x (node (core A) j)"
    and st: "store (core A') = store (core A) \<longleftrightarrow> lookup s = lookup (api S)"
      "\<And>l. lookup s = Some l \<Longrightarrow> \<exists>v. store (core A') = Some (v, rec_of l)"
  shows "kube_sim lookup used ident (after_call lookup S s t) A'"
proof -
  let ?S = "after_call lookup S s t"
  have core: "core_sim lookup used ident S (core A)" and pnd: "pending A = k_pending S"
    and late: "\<And>j q. (j, q) \<in> k_late S \<Longrightarrow> call_sim lookup used (api S) (store (core A)) (late A) j q \<and>
      call_named (lockState (k_node S j)) q"
    using sim by (auto simp: kube_sim_def)
  note g = core_simD [OF core]
  have rv: "RV l \<noteq> []" if "lookup s = Some l" for s l
    using on_versioned_api [OF node_simD(7) [OF g(6)]] that by (simp add: on_api_def optimistic_api_def)
  have "node_sim lookup used (ident j) ?S (core A') j" for j
    using A'(7) [of j] other_node_sim [OF g(6) [of j], where S' = ?S and C' = "core A'"] grow st by auto
  moreover have "\<forall>r. lease_record lookup (api ?S) = Some r \<longrightarrow> r \<in> k_hist ?S" by (auto simp: after_call_def)
  moreover have "call_sim lookup used s (store (core A')) (late A) j q \<and> call_named (lockState (k_node S j)) q"
    if "(j, q) \<in> k_late S" for j q
    using call_sim_turn [OF _ grow st(1) subset_refl] late [OF that] rv by blast
  ultimately show ?thesis using A' g(4) pnd by (auto simp: kube_sim_def core_sim_def)
qed

text \<open>A late call: without an effect it is the passing of time, otherwise a late request.\<close>

lemma arrive_simulated:
  assumes sim: "kube_sim lookup used ident S A" and q: "(i, q) \<in> k_late S" and t: "k_now S \<le> t"
    and s: "s = make_call (lockState (k_node S i)) c q (api S)" and fresh: "fresh_lease lookup S s"
  shows "\<exists>A'. isys_step ck A A' \<and> kube_sim lookup used ident (after_call lookup S s t) A'"
proof -
  let ?C = "core A" and ?S = "after_call lookup S s t"
  have core: "core_sim lookup used ident S ?C"
    and late: "\<And>j q. (j, q) \<in> k_late S \<Longrightarrow> call_sim lookup used (api S) (store ?C) (late A) j q \<and>
      call_named (lockState (k_node S j)) q"
    using sim by (auto simp: kube_sim_def)
  note g = core_simD [OF core]
  note d = node_simD [OF g(6) [of i]]
  have on: "on_versioned lookup used (lockState (k_node S i))" using d(1) by (simp add: wf_lease_node_def)
  have grow: "grows lookup used (api S) s" unfolding s using late [OF q] by (intro call_grows [OF on]) simp
  note finish = after_call_sim [OF sim grow, of _ t]
  show ?thesis
  proof (cases "lookup s = lookup (api S)")
    case True
    let ?A = "A\<lparr>core := ?C\<lparr>now_g := t\<rparr>\<rparr>"
    have "isys_step ck A ?A" using t g(1) by (intro isys_step.pass) simp
    moreover have "k_hist ?S = k_hist S"
      using True g(5) by (auto simp: after_call_def lease_record_def split: option.splits)
    moreover have "\<exists>v. store ?C = Some (v, rec_of l)" if "lookup s = Some l" for l
      using that True kube_abs_store(2) [OF d(5)] by simp
    ultimately have "kube_sim lookup used ident ?S ?A"
      using g True by (intro finish) (auto simp: after_call_def intro: exI [of _ "stored (node ?C _)"] recell_self [symmetric])
    then show ?thesis using \<open>isys_step ck A ?A\<close> by blast
  next
    case False
    obtain new where new: "lookup s = Some new" "Spec new = Spec (call_lease q)"
        "case q of CreateCall l \<Rightarrow> lookup (api S) = None | UpdateCall l \<Rightarrow> \<exists>old. lookup (api S) = Some old \<and> RV old = RV l"
      using call_outcome [OF on_versioned_api [OF on], of q c "api S"] late [OF q] False s by blast
    obtain full req v where req: "(i, full, req) \<in> late A" "serve req (store ?C) = Some (v, rec_of new)"
      using new late [OF q] kube_abs_store(1) [OF d(5)] by (cases q) auto
    let ?D = "deliver ?C i req"
    let ?A = "A\<lparr>core := after_turn ?C i ?D (lastOK ?C i) t\<rparr>"
    have cell: "stored ?D = Some (v, rec_of new)" using req(2) by (simp add: deliver_recell)
    have notin: "rec_of new \<notin> k_hist S" using fresh False new(1) by (auto simp: fresh_lease_def lease_record_def)
    then have changed: "stored ?D \<noteq> store ?C"
      using cell kube_abs_store [OF d(5)] g(5) by (cases "lookup (api S)") auto
    have "fresh_write ?C ?D" using cell notin g(3) by (simp add: fresh_write_def)
    then have step: "isys_step ck A ?A" using req(1) t g(1) by (intro isys_step.arrive) simp_all
    have "kube_sim lookup used ident ?S ?A"
    proof (rule finish)
      show "\<exists>x. node (core ?A) j = recell x (node ?C j)" for j
        using recell_self [of "node ?C j"] by (cases "j = i") (auto simp: deliver_recell intro: exI [of _ "stored (node ?C j)"])
    qed (use cell changed False new(1) g in \<open>auto simp: after_turn_def after_call_def lease_record_def\<close>)
    with step show ?thesis by blast
  qed
qed

lemma kube_step_simulated:
  assumes "kube_sim lookup used ident S A" and "kube_step lookup ck S S'"
  shows "\<exists>A'. isys_step ck A A' \<and> kube_sim lookup used ident S' A'"
  using assms(2)
proof cases
  case (pass t)
  have "isys_step ck A (A\<lparr>core := (core A)\<lparr>now_g := t\<rparr>\<rparr>)"
    using pass(2) assms(1) by (intro isys_step.pass) (simp add: kube_sim_def core_sim_def)
  moreover have "kube_sim lookup used ident S' (A\<lparr>core := (core A)\<lparr>now_g := t\<rparr>\<rparr>)"
    using assms(1) unfolding pass(1)
    by (simp add: kube_sim_def core_sim_def node_sim_def lease_turn_def abs_lock_def)
  ultimately show ?thesis by blast
next
  case (read i c p le' t)
  show ?thesis unfolding read(1) by (rule read_simulated [OF assms(1) read(2-5)])
next
  case (send i p x c b le' t)
  show ?thesis unfolding send(1) by (rule send_simulated [OF assms(1) send(2-5)])
next
  case (give_up i b le' t)
  show ?thesis unfolding give_up(1) by (rule give_up_simulated [OF assms(1) give_up(2-5)])
next
  case (arrive i q t s c)
  show ?thesis unfolding arrive(1) by (rule arrive_simulated [OF assms(1) arrive(2-5)])
qed

text \<open>The abstract system that an initial one refines.\<close>

definition abs_node :: "string \<Rightarrow> 'c LeaseLock LeaderElector \<Rightarrow> net_state LeaderElector" where
  "abs_node n le =
     \<lparr>config = \<lparr>cLock = Some net_lock, LeaseDuration = LeaseDuration (config le),
        RenewDeadline = RenewDeadline (config le), RetryPeriod = RetryPeriod (config le),
        cCallbacks = cCallbacks (config le), WatchDog = WatchDog (config le),
        ReleaseOnCancel = ReleaseOnCancel (config le), Name = Name (config le)\<rparr>,
      observedRecord = observedRecord le, observedRawRecord = observedRawRecord le,
      observedTime = observedTime le, reportedLeader = reportedLeader le, le_clock = le_clock le,
      metrics = metrics le, lockState = over_net \<lparr>me = n, cell = None, seen = None\<rparr> False NoFault,
      effects = effects le\<rparr>"

definition abs_system :: "(nat \<Rightarrow> string) \<Rightarrow> 'c kube_system \<Rightarrow> system" where
  "abs_system ident S =
     \<lparr>now_g = k_now S, store = None, since = k_since S, hist = {}, node = (\<lambda>i. abs_node (ident i) (k_node S i)),
      lastOK = (\<lambda>_. None)\<rparr>"

lemma wf_abs_node:
  assumes "wf_lease_node lookup used n le"
  shows "wf_node n (abs_node n le)"
proof -
  obtain k where k: "LeaseDuration (config le) = Second * k" "1 \<le> k" "k < 2147483"
    using assms by (auto simp: wf_lease_node_def)
  then have "Millisecond \<le> LeaseDuration (config le)" "LeaseDuration (config le) < 2 ^ 62"
    by (simp_all add: Second_def Millisecond_def)
  moreover have "LeaseDuration (config le) = Millisecond * (1000 * k)"
    using k(1) by (simp add: Second_def Millisecond_def)
  then have "leaseMs (abs_node n le) = 1000 * k"
    using k(2) by (simp add: leaseMs_def abs_node_def sdiv_nonneg Millisecond_def)
  ultimately show ?thesis using assms kube_format [OF k(2,3)]
    by (simp add: wf_node_def wf_lease_node_def) (simp add: abs_node_def lock_def)
qed

lemma abs_node_sel:
  "observedRawRecord (abs_node n le) = observedRawRecord le" "observedRecord (abs_node n le) = observedRecord le"
  "version (abs_node n le) = None" "lock (abs_node n le) = net_lock" "stores_as (lockState (abs_node n le)) = kube_view"
  "same_elector_view le (abs_node n le)"
  by (simp_all add: abs_node_def lock_def same_elector_view_def)

lemma kube_start_simulated:
  assumes "init_kube lookup used ident S"
  shows "init_isystem ident (at_rest (abs_system ident S) {}) \<and>
    kube_sim lookup used ident S (at_rest (abs_system ident S) {})"
proof
  have "init_system ident (abs_system ident S)"
    using assms by (auto simp: init_system_def init_kube_def abs_system_def abs_node_sel intro: wf_abs_node)
  then show "init_isystem ident (at_rest (abs_system ident S) {})" by (simp add: init_isystem_def)
  have "node_sim lookup used (ident i) S (abs_system ident S) i" for i
  proof -
    have i: "wf_lease_node lookup used (ident i) (k_node S i)" "held_lease (lockState (k_node S i)) = None"
      "lookup (api S) = None"
      using assms by (simp_all add: init_kube_def)
    have "on_api lookup (lockState (k_node S i))" "kube_Identity (LockConfig (lockState (k_node S i))) = ident i"
      using i(1) on_versioned_api by (auto simp: wf_lease_node_def)
    then have "kube_abs lookup ((lockState (k_node S i))\<lparr>cluster := api S\<rparr>) (abs_lock (abs_system ident S) i)"
      using i(3) by (simp add: kube_abs_def on_api_def abs_lock_def abs_system_def abs_node_def)
    moreover have "node (abs_system ident S) i = abs_node (ident i) (k_node S i)" by (simp add: abs_system_def)
    ultimately show ?thesis using i by (simp add: node_sim_def held_used_def abs_node_sel)
  qed
  then show "kube_sim lookup used ident S (at_rest (abs_system ident S) {})"
    using assms by (simp add: kube_sim_def core_sim_def init_kube_def) (simp add: abs_system_def lease_record_def)
qed

lemma kube_reachable_simulated:
  assumes "kube_reachable lookup used ident ck S"
  shows "\<exists>A. ireachable ident ck A \<and> kube_sim lookup used ident S A"
  using assms
proof induction
  case (start S)
  then show ?case using kube_start_simulated ireachable.start by blast
next
  case (step S S')
  then show ?case using kube_step_simulated ireachable.step by blast
qed

lemma kube_sim_lease: "kube_sim lookup used ident S A \<Longrightarrow> lease (node (core A) n) = lease (k_node S n)"
  by (simp add: kube_sim_def core_sim_def node_sim_def same_elector_view_def lease_def leaseMs_def)

section \<open>Safety on Kubernetes\<close>

text \<open>An elector is within the lease of its last successful attempt.\<close>

definition kube_leading :: "clocks \<Rightarrow> 'c kube_system \<Rightarrow> nat \<Rightarrow> bool" where
  "kube_leading ck S i \<longleftrightarrow> (\<exists>w. k_lastOK S i = Some w \<and> k_now S < w + tmin ck * lease (k_node S i))"

lemma kube_exclusive:
  assumes "wf_ident ident" and "wf_clocks ck" and "kube_reachable lookup used ident ck S" and "i \<noteq> j"
  shows "\<not> (kube_leading ck S i \<and> kube_leading ck S j)"
proof -
  obtain A where A: "ireachable ident ck A" "kube_sim lookup used ident S A"
    using kube_reachable_simulated [OF assms(3)] by blast
  have "now_g (core A) = k_now S" "lastOK (core A) = k_lastOK S"
    using A(2) by (simp_all add: kube_sim_def core_sim_def)
  then show ?thesis
    using Inv_exclusive [OF IInvD(1) [OF ireachable_IInv [OF A(1) assms(1,2)]] assms(1,4)] kube_sim_lease [OF A(2)]
    by (auto simp: kube_leading_def)
qed


section \<open>An example run\<close>

text \<open>Elector 2 reads that there is no lease on the example API, and creates it.\<close>

definition demo_used :: "nat \<times> (ObjectMeta \<times> LeaseSpec) option \<Rightarrow> string set" where
  "demo_used s = (\<lambda>k. replicate (Suc k) (CHR ''v'')) ` {..fst s}"

lemma demo_used_fresh: "n < k \<Longrightarrow> replicate (Suc k) (CHR ''v'') \<notin> demo_used (n, x)"
  unfolding demo_used_def by (auto simp del: replicate_Suc dest: arg_cong [where f = length])

lemma demo_versioned: "versioned_api demo_api ns nm demo_lease demo_used"
proof -
  have mono: "demo_used s \<subseteq> demo_used (Suc (fst s), x)" for s x
    by (auto simp: demo_used_def)
  have new: "demo_lease (Suc (fst s), Some (m, sp)) = Some l \<Longrightarrow> RV l \<notin> demo_used s" for s m sp l
    using demo_used_fresh [of "fst s" "Suc (fst s)" "snd s"] by (auto simp: demo_lease_def)
  have put: "grows demo_lease demo_used s (Suc (fst s), Some (m, sp))" for s m sp
    using mono new [of s m sp] by (auto simp: grows_def demo_lease_def)
  have "RV l \<in> demo_used s" if "demo_lease s = Some l" for s l
    using that by (auto simp: demo_lease_def demo_used_def split: option.splits)
  moreover have "grows demo_lease demo_used s (snd (Leases_Get demo_api c ns nm s))"
    "grows demo_lease demo_used s (snd (Leases_Create demo_api c ns l s))"
    "grows demo_lease demo_used s (snd (Leases_Update demo_api c ns l s))" for c l s
    by (simp_all add: demo_api_def grows_refl Let_def put split: option.splits)
  ultimately show ?thesis
    using demo_api_optimistic unfolding versioned_api_def by blast
qed

definition still_clock :: clock where
  "still_clock = \<lparr>readings = (\<lambda>n. \<lparr>wall = 0, monotonic = Some 0\<rparr>), tick = 0\<rparr>"

definition kube_run_config :: "(nat \<times> (ObjectMeta \<times> LeaseSpec) option) LeaseLock Config" where
  "kube_run_config = (demo_config kube_lock)\<lparr>RenewDeadline := 4 * Second\<rparr>"

definition kube_run0 :: "(nat \<times> (ObjectMeta \<times> LeaseSpec) option) kube_system" where
  "kube_run0 =
     \<lparr>k_now = 0, api = (0, None), k_since = 0, k_hist = {},
      k_node = (\<lambda>i. (demo_elector kube_lock
        (kube_New ''ns'' ''lock'' demo_api \<lparr>kube_Identity = run_ident i, EventRecorder = True\<rparr> (0, None)))
        \<lparr>config := kube_run_config, le_clock := still_clock\<rparr>), k_lastOK = (\<lambda>_. None),
      k_pending = (\<lambda>_. None), k_late = {}\<rparr>"

definition kube_read :: "plan \<times> (nat \<times> (ObjectMeta \<times> LeaseSpec) option) LeaseLock LeaderElector" where
  "kube_read = attempt_read None (lease_turn kube_run0 2)"

definition kube_run1 :: "(nat \<times> (ObjectMeta \<times> LeaseSpec) option) kube_system" where
  "kube_run1 =
     (after_lease_turn demo_lease kube_run0 2 (snd kube_read) None 0)
       \<lparr>k_pending := (\<lambda>_. None)(2 \<mapsto> (fst kube_read, 0))\<rparr>"

definition kube_write :: "bool \<times> (nat \<times> (ObjectMeta \<times> LeaseSpec) option) LeaseLock LeaderElector" where
  "kube_write = attempt_write None (fst kube_read) (lease_turn kube_run1 2)"

definition kube_run2 :: "(nat \<times> (ObjectMeta \<times> LeaseSpec) option) kube_system" where
  "kube_run2 =
     (after_lease_turn demo_lease kube_run1 2 (snd kube_write) (Some 0) 0)
       \<lparr>k_pending := (\<lambda>_. None),
        k_late := calls 2 (plan_call (lockState (lease_turn kube_run1 2)) (fst kube_read))\<rparr>"

lemma kube_run0_sel [simp]:
  "config (k_node kube_run0 i) = kube_run_config" "lock (k_node kube_run0 i) = kube_lock"
  "le_clock (k_node kube_run0 i) = still_clock" "api kube_run0 = (0, None)" "k_now kube_run0 = 0"
  "lockState (k_node kube_run0 i) =
     kube_New ''ns'' ''lock'' demo_api \<lparr>kube_Identity = run_ident i, EventRecorder = True\<rparr> (0, None)"
  "k_lastOK kube_run0 = (\<lambda>_. None)" "k_hist kube_run0 = {}" "demo_lease (0, None) = None"
  "observedRawRecord (k_node kube_run0 i) = []" "observedRecord (k_node kube_run0 i) = zero_Record"
  "k_pending kube_run0 = (\<lambda>_. None)" "k_late kube_run0 = {}"
  by (simp_all add: kube_run0_def demo_elector_def lock_def kube_run_config_def demo_config_def demo_lease_def)

lemma kube_run0_versioned: "on_versioned demo_lease demo_used (lockState (k_node kube_run0 i))"
  using demo_versioned by (simp add: on_versioned_def kube_New_def)

lemma init_kube_run0: "init_kube demo_lease demo_used run_ident kube_run0"
proof -
  have "\<exists>k. 15 * Second = Second * k \<and> 1 \<le> k \<and> k < 2147483" by (rule exI [of _ 15]) simp
  moreover have "real_clock still_clock" "mono_of (readings still_clock n) = 0" for n
    by (simp_all add: still_clock_def real_clock_def mono_of_def)
  ultimately have "wf_lease_node demo_lease demo_used (run_ident i) (k_node kube_run0 i)" for i
    using kube_run0_versioned [of i]
    by (simp add: wf_lease_node_def kube_run_config_def demo_config_def) (simp add: kube_New_def)
  then show ?thesis by (simp add: init_kube_def) (simp add: kube_New_def)
qed

lemma kube_read_result:
  "kube_read = (CreatePlan (freshRecord (lease_turn kube_run0 2)), after_Get (lockState (lease_turn kube_run0 2)) (lease_turn kube_run0 2))"
  by (simp add: kube_read_def attempt_read_def kube_Get_def kube_New_def demo_api_def Let_def)

lemma still_reads: "reads_within (moment run_clocks 2) 0 0 c c'" if "readings c = readings still_clock"
  using that by (simp add: reads_within_def still_clock_def mono_of_def)

lemma kube_run1_step: "kube_step demo_lease run_clocks kube_run0 kube_run1"
proof -
  have "mono_of (attempt_time (k_node kube_run0 2)) = 0"
    by (simp add: attempt_time_def still_clock_def mono_of_def)
  then show ?thesis
    using kube_step.read [of kube_run0 2 None "fst kube_read" "snd kube_read" 0 run_clocks demo_lease] still_reads
    by (simp add: kube_run1_def kube_read_result) (simp add: kube_read_def kube_read_result [unfolded kube_read_def])
qed

lemma kube_write_result: "fst kube_write" "config (snd kube_write) = kube_run_config"
  using phases_settings(2) [of None "fst kube_read" "lease_turn kube_run1 2" "fst kube_write" "snd kube_write"]
  by (simp_all add: kube_write_def kube_run1_def kube_read_result same_settings_def conclude_def kube_Create_def
      kube_New_def demo_api_def Let_def split_beta split: option.splits)

lemma kube_run2_step: "kube_step demo_lease run_clocks kube_run1 kube_run2"
proof -
  have wr: "attempt_write None (fst kube_read) (lease_turn kube_run1 2) = (True, snd kube_write)"
    using kube_write_result(1) by (simp add: kube_write_def prod_eq_iff)
  have run1: "api kube_run1 = (0, None)" "k_hist kube_run1 = {}" "k_now kube_run1 = 0" "k_late kube_run1 = {}"
    "k_pending kube_run1 = (\<lambda>_. None)(2 \<mapsto> (fst kube_read, 0))"
    "lock (lease_turn kube_run1 2) = kube_lock"
    by (simp_all add: kube_run1_def kube_read_result kube_New_def)
      (simp_all add: after_lease_turn_def after_call_def lease_record_def)
  have on: "on_versioned demo_lease demo_used (lockState (lease_turn kube_run1 2))"
    using kube_run0_versioned [of 2] by (simp add: kube_run1_def kube_read_result on_versioned_def kube_New_def)
  have "grows demo_lease demo_used (0, None) (cluster (lockState (snd kube_write)))"
    using write_keeps [OF on run1(6) wr] run1(1) by (simp add: kube_keeps_def)
  then have "fresh_lease demo_lease kube_run1 (cluster (lockState (snd kube_write)))"
    by (auto simp: fresh_lease_def grows_def lease_record_def run1)
  then show ?thesis
    using kube_step.send [of kube_run1 2 "fst kube_read" 0 None True "snd kube_write" 0 demo_lease run_clocks] wr run1
    by (simp add: kube_run2_def fun_upd_idem)
qed

lemma kube_run2_reachable: "kube_reachable demo_lease demo_used run_ident run_clocks kube_run2"
  using kube_reachable.start [OF init_kube_run0] kube_run1_step kube_run2_step kube_reachable.step by blast


end
