(* ===== verification/Leader_Timing.thy ===== *)
theory Leader_Timing
  imports Election_Safety
begin

text \<open>
  When an elector acts as the leader. \<^verbatim>\<open>Run\<close> leads from the first successful attempt until
  \<^verbatim>\<open>renew\<close> ends. Each round of \<^verbatim>\<open>renew\<close> tries until it succeeds or until the renew
  deadline has passed since the round began; after a success \<^verbatim>\<open>wait.Until\<close> rests for the
  retry period before the next round. So the time that an elector leads on after its last
  success is the renew deadline and the retry period together, and what the attempt took.

  Electors over any lock get a mode here, with times on their own clock. Timers are prompt: no
  elector stays in a mode for longer than its timer allows. What the modes see of a system of
  electors is a \<open>lease_view\<close>; the locale \<open>leased_system\<close> is what they rely on. \<open>Leaders\<close> and
  \<open>Kube_Leaders\<close> interpret it.
\<close>

section \<open>The system\<close>

datatype mode = Candidate | Renewing int | Resting int

text \<open>
  Of a system \<open>'n\<close>: the time, when the last successful attempt of each elector since it last gave
  up began, when its attempt that is under way began, and its configuration.
\<close>

record 'n lease_view =
  nowOf :: "'n \<Rightarrow> int"
  okOf :: "'n \<Rightarrow> nat \<Rightarrow> int option"
  begunOf :: "'n \<Rightarrow> nat \<Rightarrow> int option"
  renewOf :: "'n \<Rightarrow> nat \<Rightarrow> int"
  retryOf :: "'n \<Rightarrow> nat \<Rightarrow> int"
  leaseOf :: "'n \<Rightarrow> nat \<Rightarrow> int"

record 'n lsystem =
  net :: 'n
  mode :: "nat \<Rightarrow> mode"

definition leading :: "'n lsystem \<Rightarrow> nat \<Rightarrow> bool" where
  "leading S i \<longleftrightarrow> mode S i \<noteq> Candidate"

text \<open>Until when, on its own clock, an elector may stay in a mode.\<close>

fun expires :: "int \<Rightarrow> int \<Rightarrow> mode \<Rightarrow> int option" where
  "expires renewDeadline retryPeriod Candidate = None"
| "expires renewDeadline retryPeriod (Renewing t) = Some (t + renewDeadline)"
| "expires renewDeadline retryPeriod (Resting t) = Some (t + retryPeriod)"

definition in_time :: "'n lease_view \<Rightarrow> clocks \<Rightarrow> 'n lsystem \<Rightarrow> bool" where
  "in_time V ck S \<longleftrightarrow>
     (\<forall>i d. expires (renewOf V (net S) i) (retryOf V (net S) i) (mode S i) = Some d \<longrightarrow>
        nowOf V (net S) \<le> moment ck i d)"

text \<open>The clock of elector \<open>i\<close> reads \<open>m\<close> at the moment \<open>now\<close>.\<close>

definition reads_at :: "clocks \<Rightarrow> nat \<Rightarrow> int \<Rightarrow> int \<Rightarrow> bool" where
  "reads_at ck i now m \<longleftrightarrow> moment ck i m \<le> now \<and> now < moment ck i (m + 1)"

text \<open>
  The attempt of elector \<open>i\<close> that began at the reading \<open>m\<close> ends with a success. The first success
  starts the first round of \<^verbatim>\<open>renew\<close> at once; a success in a round is followed by a rest.
\<close>

definition won :: "'n lease_view \<Rightarrow> clocks \<Rightarrow> nat \<Rightarrow> int \<Rightarrow> 'n \<Rightarrow> 'n \<Rightarrow> bool" where
  "won V ck i m N N' \<longleftrightarrow>
     begunOf V N i = Some (moment ck i m) \<and> begunOf V N' i = None \<and>
     okOf V N' = (okOf V N)(i \<mapsto> moment ck i m)"

fun after_success :: "int \<Rightarrow> mode \<Rightarrow> mode" where
  "after_success e Candidate = Renewing e"
| "after_success e (Renewing t) = Resting e"
| "after_success e (Resting t) = Resting e"

text \<open>
  A step of the electors that is not a success; an elector that rests makes no attempt. A success,
  which took at most \<open>lat\<close> on its elector's clock. The end of a rest. The end of \<^verbatim>\<open>renew\<close>,
  because its deadline has passed or its context is done, and then the release.
\<close>

inductive lstep ::
    "'n lease_view \<Rightarrow> (clocks \<Rightarrow> 'n \<Rightarrow> 'n \<Rightarrow> bool) \<Rightarrow> clocks \<Rightarrow> int \<Rightarrow> 'n lsystem \<Rightarrow> 'n lsystem \<Rightarrow> bool"
  for V stp ck lat where
  quiet: "stp ck (net S) N \<Longrightarrow> okOf V N = okOf V (net S) \<Longrightarrow>
     (\<And>i t. mode S i = Resting t \<Longrightarrow> begunOf V N i = begunOf V (net S) i) \<Longrightarrow>
     in_time V ck (S\<lparr>net := N\<rparr>) \<Longrightarrow> lstep V stp ck lat S (S\<lparr>net := N\<rparr>)"
| success: "stp ck (net S) N \<Longrightarrow> won V ck i m (net S) N \<Longrightarrow>
     reads_at ck i (nowOf V N) e \<Longrightarrow> e \<le> m + lat \<Longrightarrow>
     (\<And>t. mode S i \<noteq> Resting t) \<Longrightarrow>
     S' = S\<lparr>net := N, mode := (mode S)(i := after_success e (mode S i))\<rparr> \<Longrightarrow> in_time V ck S' \<Longrightarrow>
     lstep V stp ck lat S S'"
| wake: "mode S i = Resting e \<Longrightarrow> reads_at ck i (nowOf V (net S)) t \<Longrightarrow>
     e + retryOf V (net S) i \<le> t \<Longrightarrow>
     S' = S\<lparr>mode := (mode S)(i := Renewing t)\<rparr> \<Longrightarrow> in_time V ck S' \<Longrightarrow> lstep V stp ck lat S S'"
| stop: "S' = S\<lparr>mode := (mode S)(i := Candidate)\<rparr> \<Longrightarrow> lstep V stp ck lat S S'"
| give_up: "mode S i = Candidate \<Longrightarrow> stp ck (net S) N \<Longrightarrow>
     okOf V N = (okOf V (net S))(i := None) \<Longrightarrow> in_time V ck (S\<lparr>net := N\<rparr>) \<Longrightarrow>
     lstep V stp ck lat S (S\<lparr>net := N\<rparr>)"

inductive lreachable ::
    "'n lease_view \<Rightarrow> (clocks \<Rightarrow> 'n \<Rightarrow> 'n \<Rightarrow> bool) \<Rightarrow> ('n \<Rightarrow> bool) \<Rightarrow> clocks \<Rightarrow> int \<Rightarrow> 'n lsystem \<Rightarrow> bool"
  for V stp ini ck lat where
  start: "ini (net S) \<Longrightarrow> mode S = (\<lambda>_. Candidate) \<Longrightarrow> lreachable V stp ini ck lat S"
| step: "lreachable V stp ini ck lat S \<Longrightarrow> lstep V stp ck lat S S' \<Longrightarrow> lreachable V stp ini ck lat S'"

text \<open>How long an elector leads on after the start of its last success.\<close>

definition holdover :: "'n lease_view \<Rightarrow> int \<Rightarrow> 'n \<Rightarrow> nat \<Rightarrow> int" where
  "holdover V lat N i = lat + retryOf V N i + renewOf V N i"

definition margin_ok :: "'n lease_view \<Rightarrow> clocks \<Rightarrow> int \<Rightarrow> 'n \<Rightarrow> nat \<Rightarrow> bool" where
  "margin_ok V ck lat N i \<longleftrightarrow>
     0 \<le> lat \<and> 0 \<le> retryOf V N i \<and> 0 \<le> renewOf V N i \<and>
     tmax ck * holdover V lat N i < tmin ck * leaseOf V N i"

text \<open>What is known of an elector that leads, from the reading \<open>m\<close> of its last success.\<close>

definition lead_ok :: "'n lease_view \<Rightarrow> clocks \<Rightarrow> int \<Rightarrow> 'n lsystem \<Rightarrow> nat \<Rightarrow> bool" where
  "lead_ok V ck lat S i \<longleftrightarrow>
     (\<exists>m. okOf V (net S) i = Some (moment ck i m) \<and>
        (case mode S i of
           Candidate \<Rightarrow> True
         | Resting e \<Rightarrow> e \<le> m + lat
         | Renewing t \<Rightarrow> t \<le> m + lat + max 0 (retryOf V (net S) i)))"

definition LInv :: "'n lease_view \<Rightarrow> clocks \<Rightarrow> int \<Rightarrow> 'n lsystem \<Rightarrow> bool" where
  "LInv V ck lat S \<longleftrightarrow> in_time V ck S \<and> (\<forall>i. leading S i \<longrightarrow> lead_ok V ck lat S i)"

lemma reads_at_le:
  assumes "wf_clocks ck" and "reads_at ck i now t" and "now \<le> moment ck i d"
  shows "t \<le> d"
proof (rule ccontr)
  assume "\<not> t \<le> d"
  then have "moment ck i d + tmin ck * 1 \<le> moment ck i t"
    by (intro wf_clocksD(3) [OF assms(1)]) simp_all
  then show False using assms(2,3) wf_clocksD(1) [OF assms(1)] by (simp add: reads_at_def)
qed

lemma lead_ok_cong:
  assumes "okOf V (net S') i = okOf V (net S) i" and "mode S' i = mode S i"
    and "retryOf V (net S') i = retryOf V (net S) i"
  shows "lead_ok V ck lat S' i = lead_ok V ck lat S i"
  unfolding lead_ok_def assms ..

lemma leading_until:
  assumes "LInv V ck lat S" and "leading S i" and "wf_clocks ck" and "margin_ok V ck lat (net S) i"
  obtains w where "okOf V (net S) i = Some w" and "nowOf V (net S) < w + tmin ck * leaseOf V (net S) i"
proof -
  let ?N = "net S"
  let ?h = "holdover V lat ?N i"
  obtain m where m: "okOf V ?N i = Some (moment ck i m)"
    and le: "case mode S i of Candidate \<Rightarrow> True | Resting e \<Rightarrow> e \<le> m + lat
      | Renewing t \<Rightarrow> t \<le> m + lat + max 0 (retryOf V ?N i)"
    using assms(1,2) by (auto simp: LInv_def lead_ok_def)
  note pos = assms(4) [unfolded margin_ok_def]
  obtain d where d: "expires (renewOf V ?N i) (retryOf V ?N i) (mode S i) = Some d" "d \<le> m + ?h"
    using assms(2) le pos by (cases "mode S i") (auto simp: leading_def holdover_def)
  have "nowOf V ?N \<le> moment ck i d" using assms(1) d(1) by (simp add: LInv_def in_time_def)
  also have "\<dots> \<le> moment ck i (m + ?h)" by (rule wf_clocksD(2) [OF assms(3) d(2)])
  also have "\<dots> \<le> moment ck i m + tmax ck * ?h"
    using pos by (intro wf_clocksD(4) [OF assms(3)]) (simp add: holdover_def)
  also have "\<dots> < moment ck i m + tmin ck * leaseOf V ?N i" using pos by simp
  finally show ?thesis using m that by blast
qed

section \<open>One leader\<close>

text \<open>
  Steps that keep the configurations, and reachable states in which no two electors are both
  within the lease of their last success.
\<close>

locale leased_system =
  fixes V :: "'n lease_view"
    and stp :: "clocks \<Rightarrow> 'n \<Rightarrow> 'n \<Rightarrow> bool"
    and ini :: "(nat \<Rightarrow> string) \<Rightarrow> 'n \<Rightarrow> bool"
    and reach :: "(nat \<Rightarrow> string) \<Rightarrow> clocks \<Rightarrow> 'n \<Rightarrow> bool"
  assumes settings: "stp ck N N' \<Longrightarrow> renewOf V N' i = renewOf V N i \<and> retryOf V N' i = retryOf V N i"
    and reach_start: "ini ident N \<Longrightarrow> reach ident ck N"
    and reach_step: "reach ident ck N \<Longrightarrow> stp ck N N' \<Longrightarrow> reach ident ck N'"
    and exclusive: "wf_ident ident \<Longrightarrow> wf_clocks ck \<Longrightarrow> reach ident ck N \<Longrightarrow> i \<noteq> j \<Longrightarrow>
      okOf V N i = Some w \<Longrightarrow> okOf V N j = Some w' \<Longrightarrow>
      nowOf V N < w + tmin ck * leaseOf V N i \<Longrightarrow> \<not> nowOf V N < w' + tmin ck * leaseOf V N j"
begin

lemma lstep_LInv:
  assumes "lstep V stp ck lat S S'" and "LInv V ck lat S" and "wf_clocks ck"
  shows "LInv V ck lat S'"
  using assms(1)
proof cases
  case (quiet N)
  then have "lead_ok V ck lat S' i = lead_ok V ck lat S i" for i
    by (intro lead_ok_cong) (simp_all add: settings)
  then show ?thesis using assms(2) quiet by (simp add: LInv_def leading_def)
next
  case (success N i m e)
  have "lead_ok V ck lat S' j" if "leading S' j" for j
  proof (cases "j = i")
    case True
    then show ?thesis using success(2-6) settings [OF success(1)]
      by (cases "mode S i") (auto simp: lead_ok_def won_def intro!: exI [of _ m])
  next
    case False
    then have "lead_ok V ck lat S' j = lead_ok V ck lat S j"
      using success(1,2,6) by (intro lead_ok_cong) (simp_all add: settings won_def)
    then show ?thesis using False that success(6) assms(2) by (simp add: LInv_def leading_def)
  qed
  then show ?thesis using success(7) by (simp add: LInv_def)
next
  case (wake i e t)
  have "lead_ok V ck lat S i" using assms(2) wake(1) by (simp add: LInv_def leading_def)
  moreover have "t \<le> e + retryOf V (net S) i"
    using assms(2) wake(1) by (intro reads_at_le [OF assms(3) wake(2)]) (simp add: LInv_def in_time_def)
  ultimately have "lead_ok V ck lat S' i" using wake(1,4) by (fastforce simp: lead_ok_def)
  moreover have "lead_ok V ck lat S' j" if "leading S' j" "j \<noteq> i" for j
    using that wake(4) assms(2) lead_ok_cong [of V S' j S ck lat] by (simp add: LInv_def leading_def)
  ultimately show ?thesis using wake(5) by (auto simp: LInv_def)
next
  case (stop i)
  then have "lead_ok V ck lat S' j = lead_ok V ck lat S j" if "j \<noteq> i" for j
    using that by (intro lead_ok_cong) simp_all
  then show ?thesis using assms(2) stop by (auto simp: LInv_def leading_def in_time_def)
next
  case (give_up i N)
  then have "lead_ok V ck lat S' j = lead_ok V ck lat S j" if "j \<noteq> i" for j
    using that by (intro lead_ok_cong) (simp_all add: settings)
  then have "lead_ok V ck lat S' j" if "leading S' j" for j
    using that give_up(1,2) assms(2) by (cases "j = i") (simp_all add: LInv_def leading_def)
  then show ?thesis using give_up(1,5) by (simp add: LInv_def)
qed

lemma lreachable_LInv: "lreachable V stp (ini ident) ck lat S \<Longrightarrow> wf_clocks ck \<Longrightarrow> LInv V ck lat S"
proof (induction rule: lreachable.induct)
  case (start S)
  then show ?case by (simp add: LInv_def in_time_def leading_def)
qed (auto intro: lstep_LInv)

lemma lreachable_net: "lreachable V stp (ini ident) ck lat S \<Longrightarrow> reach ident ck (net S)"
proof (induction rule: lreachable.induct)
  case (step S S')
  from step(2) show ?case by cases (use step(3) in \<open>auto intro: reach_step\<close>)
qed (auto intro: reach_start)

lemma at_most_one:
  assumes "wf_ident ident" and "wf_clocks ck" and "lreachable V stp (ini ident) ck lat S"
    and "margin_ok V ck lat (net S) i" and "margin_ok V ck lat (net S) j" and "leading S i" and "leading S j"
  shows "i = j"
proof (rule ccontr)
  assume "i \<noteq> j"
  note inv = lreachable_LInv [OF assms(3,2)]
  obtain w where w: "okOf V (net S) i = Some w" "nowOf V (net S) < w + tmin ck * leaseOf V (net S) i"
    by (rule leading_until [OF inv assms(6,2,4)])
  obtain w' where w': "okOf V (net S) j = Some w'" "nowOf V (net S) < w' + tmin ck * leaseOf V (net S) j"
    by (rule leading_until [OF inv assms(7,2,5)])
  from exclusive [OF assms(1,2) lreachable_net [OF assms(3)] \<open>i \<noteq> j\<close> w(1) w'(1) w(2)] w'(2) show False ..
qed

end

end
