(* ===== verification/Kube_Leaders.thy ===== *)
theory Kube_Leaders
  imports Kube_Election Leader_Timing
begin

text \<open>
  The leaders among the electors of \<open>Kube_Election\<close>, in the sense of \<open>Leader_Timing\<close>: at most one
  when the lease leaves enough room.
\<close>

definition kube_net :: "'c kube_system lease_view" where
  "kube_net =
     \<lparr>nowOf = k_now, okOf = k_lastOK, begunOf = (\<lambda>N i. map_option snd (k_pending N i)),
      renewOf = (\<lambda>N i. RenewDeadline (config (k_node N i))),
      retryOf = (\<lambda>N i. RetryPeriod (config (k_node N i))), leaseOf = (\<lambda>N i. lease (k_node N i))\<rparr>"

lemma kube_net_sel [simp]:
  "nowOf kube_net N = k_now N" "okOf kube_net N = k_lastOK N"
  "begunOf kube_net N i = map_option snd (k_pending N i)"
  "renewOf kube_net N i = RenewDeadline (config (k_node N i))"
  "retryOf kube_net N i = RetryPeriod (config (k_node N i))" "leaseOf kube_net N i = lease (k_node N i)"
  by (simp_all add: kube_net_def)

lemma kube_step_config: "kube_step lookup ck N N' \<Longrightarrow> config (k_node N' i) = config (k_node N i)"
  by (induction rule: kube_step.induct) (auto simp: same_settings_def dest!: phases_settings)

interpretation kube_leaders:
  leased_system kube_net "kube_step lookup" "init_kube lookup used" "kube_reachable lookup used" for lookup used
proof
  fix ident ck and N :: "'a kube_system" and i j :: nat and w w'
  assume "wf_ident ident" "wf_clocks ck" "kube_reachable lookup used ident ck N" "i \<noteq> j"
    "okOf kube_net N i = Some w" "okOf kube_net N j = Some w'" "nowOf kube_net N < w + tmin ck * leaseOf kube_net N i"
  then show "\<not> nowOf kube_net N < w' + tmin ck * leaseOf kube_net N j"
    using kube_exclusive [of ident ck lookup used N i j] by (simp add: kube_leading_def)
qed (simp_all add: kube_step_config kube_reachable.start kube_reachable.step)


text \<open>The example run: elector 2 leads.\<close>

definition kube_led :: "(nat \<times> (ObjectMeta \<times> LeaseSpec) option) kube_system lsystem" where
  "kube_led = \<lparr>net = kube_run2, mode = (\<lambda>_. Candidate)(2 := Renewing 0)\<rparr>"

lemma kube_run_configs:
  "config (k_node kube_run1 i) = kube_run_config" "config (k_node kube_run2 i) = kube_run_config"
  using kube_step_config [OF kube_run1_step] kube_step_config [OF kube_run2_step] by simp_all

lemma kube_led_reachable:
  "lreachable kube_net (kube_step demo_lease) (init_kube demo_lease demo_used run_ident) run_clocks Second kube_led"
proof -
  let ?S = "\<lambda>N. \<lparr>net = N, mode = (\<lambda>_. Candidate)\<rparr>"
  let ?lr = "lreachable kube_net (kube_step demo_lease) (init_kube demo_lease demo_used run_ident) run_clocks Second"
  let ?step = "lstep kube_net (kube_step demo_lease) run_clocks Second"
  have "?lr (?S kube_run0)" by (rule lreachable.start) (simp_all add: init_kube_run0)
  moreover have "?step (?S kube_run0) (?S kube_run1)"
    using lstep.quiet [of "kube_step demo_lease" run_clocks "?S kube_run0" kube_run1 kube_net Second] kube_run1_step
    by (simp add: in_time_def) (simp add: kube_run1_def fun_upd_idem)
  moreover have "?step (?S kube_run1) kube_led"
  proof (rule lstep.success)
    show "kube_step demo_lease run_clocks (net (?S kube_run1)) kube_run2" using kube_run2_step by simp
    show "won kube_net run_clocks 2 0 (net (?S kube_run1)) kube_run2"
      by (simp add: won_def kube_run2_def) (simp add: kube_run1_def)
    show "reads_at run_clocks 2 (nowOf kube_net kube_run2) 0" by (simp add: reads_at_def kube_run2_def)
    show "in_time kube_net run_clocks kube_led"
      using kube_write_result(2)
      by (auto simp: in_time_def kube_led_def kube_run2_def kube_run_config_def Second_def split: if_splits)
  qed (simp_all add: kube_led_def Second_def)
  ultimately show ?thesis using lreachable.step by blast
qed


end
