(* ===== verification/Healthz.thy ===== *)
theory Healthz
  imports Elector_Properties
begin

text \<open>
  \<^verbatim>\<open>healthzadaptor.go\<close>: the adaptor between the \<^verbatim>\<open>/healthz\<close> endpoint and an elector
  that may be set later. The adaptor holds a pointer to the elector: electors live in a heap
  (a map from addresses), so that the adaptor sees what the elector does after it was set. The
  mutex makes each operation one function.
\<close>

record HealthzAdaptor =
  hz_le :: "nat option"
  hz_timeout :: int

definition NewLeaderHealthzAdaptor :: "int \<Rightarrow> HealthzAdaptor" where
  "NewLeaderHealthzAdaptor timeout = \<lparr>hz_le = None, hz_timeout = timeout\<rparr>"

definition SetLeaderElection :: "nat \<Rightarrow> HealthzAdaptor \<Rightarrow> HealthzAdaptor" where
  "SetLeaderElection a l = l\<lparr>hz_le := Some a\<rparr>"

definition HealthzAdaptor_Name :: "HealthzAdaptor \<Rightarrow> string" where
  "HealthzAdaptor_Name l = ''leaderElection''"

definition HealthzAdaptor_Check ::
    "(nat \<Rightarrow> 's LeaderElector) \<Rightarrow> HealthzAdaptor \<Rightarrow> go_error option \<times> (nat \<Rightarrow> 's LeaderElector)" where
  "HealthzAdaptor_Check heap l =
     (case hz_le l of
        None \<Rightarrow> (None, heap)
      | Some a \<Rightarrow> let (e, le) = Check (hz_timeout l) (heap a) in (e, heap(a := le)))"

text \<open>
  C21. The health endpoint: before an elector is set the check passes; afterwards it fails
  exactly when the elector, in its current state, observes itself as the holder and its last
  observation is older than the lease plus the tolerated timeout. The check changes nothing of
  the elector but the clock reading it consumes.
\<close>

theorem HealthzAdaptor_Check_iff:
  assumes "hz_le l = Some a" and "is_i64 (LeaseDuration (config (heap a)) + hz_timeout l)"
  shows "fst (HealthzAdaptor_Check heap (NewLeaderHealthzAdaptor t)) = None \<and>
         (fst (HealthzAdaptor_Check heap l) \<noteq> None \<longleftrightarrow>
            IsLeader (heap a) \<and>
            LeaseDuration (config (heap a)) + hz_timeout l <
              time_Sub (readings (le_clock (heap a)) (tick (le_clock (heap a)))) (observedTime (heap a))) \<and>
         (\<forall>b. b \<noteq> a \<longrightarrow> snd (HealthzAdaptor_Check heap l) b = heap b) \<and>
         observedRecord (snd (HealthzAdaptor_Check heap l) a) = observedRecord (heap a) \<and>
         observedTime (snd (HealthzAdaptor_Check heap l) a) = observedTime (heap a)"
  using assms
  by (auto simp: HealthzAdaptor_Check_def NewLeaderHealthzAdaptor_def Check_def clock_Since_def
      split_beta Let_def i64_id)

theorem HealthzAdaptor_Check_iff_witness:
  "fst (HealthzAdaptor_Check (\<lambda>_. demo_expired\<lparr>observedRecord := demo_record ''a''\<rparr>)
     (SetLeaderElection 7 (NewLeaderHealthzAdaptor Second))) \<noteq> None"
proof -
  let ?h = "\<lambda>_. demo_expired\<lparr>observedRecord := demo_record ''a''\<rparr>"
  let ?l = "SetLeaderElection 7 (NewLeaderHealthzAdaptor Second)"
  have c: "config demo_expired = demo_config cas_lock" "le_clock demo_expired = demo_clock\<lparr>tick := 20000\<rparr>"
    by (simp_all add: demo_expired_def demo_cas_def)
  have l: "hz_le ?l = Some 7" "hz_timeout ?l = Second"
    by (simp_all add: SetLeaderElection_def NewLeaderHealthzAdaptor_def)
  have i: "is_i64 (LeaseDuration (config (?h 7)) + hz_timeout ?l)"
    unfolding l(2) by (simp add: c demo_config_def is_i64_def Second_def)
  have "IsLeader (?h 7)" by (simp add: IsLeader_iff lock_def)
    (simp add: demo_expired_def demo_cas_def demo_elector_def demo_config_def demo_record_def)
  moreover have "LeaseDuration (config (?h 7)) + hz_timeout ?l <
      time_Sub (readings (le_clock (?h 7)) (tick (le_clock (?h 7)))) (observedTime (?h 7))"
    unfolding l(2) by (simp add: c demo_config_def demo_clock_def Second_def time_Sub_def sat64_def)
  ultimately show ?thesis using HealthzAdaptor_Check_iff [OF l(1), of ?h, OF i] by blast
qed

end
