(* ===== verification/Election_Loop.thy ===== *)
theory Election_Loop
  imports Elector_Properties Healthz
begin

text \<open>
  The loops of \<^verbatim>\<open>leaderelection.go\<close>: \<^verbatim>\<open>acquire\<close>, \<^verbatim>\<open>renew\<close>, \<^verbatim>\<open>Run\<close> and
  \<^verbatim>\<open>RunOrDie\<close>. The functions of the \<^verbatim>\<open>wait\<close> package are not part of the repository:
  they are parameters (\<open>wait_pkg\<close>), with the documented loops as hypotheses (\<open>wait_doc\<close>). A
  loop may run for ever; that is the value \<open>None\<close>.

  The world of a run is the elector and the contexts: the parent context (cancelled from
  outside), the context that the function derives with \<^verbatim>\<open>context.WithCancel\<close>, and the one
  of the current renewal with its deadline.
\<close>

section \<open>The world and the wait package\<close>

record 's world =
  elector :: "'s LeaderElector"
  parentErr :: ctx
  cancelErr :: ctx
  timeoutErr :: ctx
  succeeded :: bool

text \<open>\<^verbatim>\<open>ctx.Err()\<close> of the derived contexts; a context is done when it has an error.\<close>

definition ctx_Err :: "'s world \<Rightarrow> ctx" where
  "ctx_Err w = (case parentErr w of Some e \<Rightarrow> Some e | None \<Rightarrow> cancelErr w)"

definition timeoutCtx_Err :: "'s world \<Rightarrow> ctx" where
  "timeoutCtx_Err w = (case ctx_Err w of Some e \<Rightarrow> Some e | None \<Rightarrow> timeoutErr w)"

definition ctx_done :: "'s world \<Rightarrow> bool" where
  "ctx_done w \<longleftrightarrow> ctx_Err w \<noteq> None"

definition timeoutCtx_done :: "'s world \<Rightarrow> bool" where
  "timeoutCtx_done w \<longleftrightarrow> timeoutCtx_Err w \<noteq> None"

text \<open>What may happen while a loop waits: the parent is cancelled, the deadline passes.\<close>

definition later :: "'s world \<Rightarrow> 's world \<Rightarrow> bool" where
  "later w w' \<longleftrightarrow>
     (\<exists>p t. w' = w\<lparr>parentErr := p, timeoutErr := t\<rparr> \<and>
        (parentErr w \<noteq> None \<longrightarrow> p = parentErr w) \<and> (timeoutErr w \<noteq> None \<longrightarrow> t = timeoutErr w))"

record 'w wait_pkg =
  JitterUntil :: "('w \<Rightarrow> 'w option) \<Rightarrow> int \<Rightarrow> bool \<Rightarrow> ('w \<Rightarrow> bool) \<Rightarrow> 'w \<Rightarrow> 'w option"
  Until :: "('w \<Rightarrow> 'w option) \<Rightarrow> int \<Rightarrow> ('w \<Rightarrow> bool) \<Rightarrow> 'w \<Rightarrow> 'w option"
  PollImmediateUntil ::
    "int \<Rightarrow> ('w \<Rightarrow> bool \<times> 'w) \<Rightarrow> ('w \<Rightarrow> bool) \<Rightarrow> 'w \<Rightarrow> (go_error option \<times> 'w) option"

text \<open>
  The documented loops. \<^verbatim>\<open>JitterUntil\<close> and \<^verbatim>\<open>Until\<close> look at the stop channel before each
  call of the function. \<^verbatim>\<open>PollImmediateUntil\<close> calls the condition at once, and then again
  until it holds or the stop channel is closed.
\<close>

inductive until_runs :: "('s world \<Rightarrow> 's world option) \<Rightarrow> ('s world \<Rightarrow> bool) \<Rightarrow> 's world \<Rightarrow> 's world \<Rightarrow> bool"
  for f stop where
  stop: "stop w \<Longrightarrow> until_runs f stop w w"
| iter: "\<not> stop w \<Longrightarrow> f w = Some w1 \<Longrightarrow> later w1 w2 \<Longrightarrow> until_runs f stop w2 w' \<Longrightarrow>
    until_runs f stop w w'"

inductive poll_runs ::
    "('s world \<Rightarrow> bool \<times> 's world) \<Rightarrow> ('s world \<Rightarrow> bool) \<Rightarrow> 's world \<Rightarrow> go_error option \<Rightarrow> 's world \<Rightarrow> bool"
  for cond stop where
  holds: "cond w = (True, w') \<Longrightarrow> poll_runs cond stop w None w'"
| again: "cond w = (False, w1) \<Longrightarrow> later w1 w2 \<Longrightarrow> poll_runs cond stop w2 e w' \<Longrightarrow>
    poll_runs cond stop w e w'"
| timeout: "cond w = (False, w1) \<Longrightarrow> later w1 w2 \<Longrightarrow> stop w2 \<Longrightarrow>
    poll_runs cond stop w (Some (ErrText ''timed out waiting for the condition'')) w2"

text \<open>A world from which the loop stops, whatever happens while it waits.\<close>

inductive until_stops :: "('s world \<Rightarrow> 's world option) \<Rightarrow> ('s world \<Rightarrow> bool) \<Rightarrow> 's world \<Rightarrow> bool"
  for f stop where
  stopped: "stop w \<Longrightarrow> until_stops f stop w"
| more: "f w = Some w1 \<Longrightarrow> (\<And>w2. later w1 w2 \<Longrightarrow> until_stops f stop w2) \<Longrightarrow> until_stops f stop w"

definition wait_doc :: "'s world wait_pkg \<Rightarrow> bool" where
  "wait_doc W \<longleftrightarrow>
     (\<forall>f p sl stop w w'. JitterUntil W f p sl stop w = Some w' \<longrightarrow> until_runs f stop w w') \<and>
     (\<forall>f p stop w w'. Until W f p stop w = Some w' \<longrightarrow> until_runs f stop w w') \<and>
     (\<forall>p cond stop w e w'. PollImmediateUntil W p cond stop w = Some (e, w') \<longrightarrow>
        poll_runs cond stop w e w') \<and>
     (\<forall>f p sl stop w. until_stops f stop w \<longrightarrow> JitterUntil W f p sl stop w \<noteq> None) \<and>
     (\<forall>f p stop w. until_stops f stop w \<longrightarrow> Until W f p stop w \<noteq> None)"

section \<open>The loops\<close>

definition on_elector :: "('s LeaderElector \<Rightarrow> 's LeaderElector) \<Rightarrow> 's world \<Rightarrow> 's world" where
  "on_elector f w = w\<lparr>elector := f (elector w)\<rparr>"

definition le_RecordEvent :: "string \<Rightarrow> 's LeaderElector \<Rightarrow> 's LeaderElector" where
  "le_RecordEvent m le = le\<lparr>lockState := RecordEvent (lock le) m (lockState le)\<rparr>"

definition le_leaderOn :: "'s LeaderElector \<Rightarrow> 's LeaderElector" where
  "le_leaderOn le = emit (map Metric (leaderOn (metrics le) (Name (config le)))) le"

definition le_leaderOff :: "'s LeaderElector \<Rightarrow> 's LeaderElector" where
  "le_leaderOff le = emit (map Metric (leaderOff (metrics le) (Name (config le)))) le"

definition acquire_body :: "'s world \<Rightarrow> 's world option" where
  "acquire_body w =
     (let (b, le) = tryAcquireOrRenew (ctx_Err w) (elector w);
          w = w\<lparr>succeeded := b, elector := maybeReportTransition le\<rparr>
      in if \<not> b then Some w
         else
           let w = on_elector (le_RecordEvent ''became leader'') w;
               w = on_elector le_leaderOn w
           in Some (w\<lparr>cancelErr := Some Canceled\<rparr>))"

definition acquire :: "'s world wait_pkg \<Rightarrow> 's world \<Rightarrow> (bool \<times> 's world) option" where
  "acquire W w =
     (let w = w\<lparr>cancelErr := None, succeeded := False\<rparr>
      in case JitterUntil W acquire_body (RetryPeriod (config (elector w))) True ctx_done w of
           None \<Rightarrow> None
         | Some w \<Rightarrow> Some (succeeded w, w\<lparr>cancelErr := Some Canceled\<rparr>))"

definition renew_cond :: "'s world \<Rightarrow> bool \<times> 's world" where
  "renew_cond w =
     (let (b, le) = tryAcquireOrRenew (timeoutCtx_Err w) (elector w) in (b, w\<lparr>elector := le\<rparr>))"

definition renew_body :: "'s world wait_pkg \<Rightarrow> 's world \<Rightarrow> 's world option" where
  "renew_body W w =
     (case PollImmediateUntil W (RetryPeriod (config (elector w))) renew_cond timeoutCtx_done
             (w\<lparr>timeoutErr := None\<rparr>) of
        None \<Rightarrow> None
      | Some (err, w) \<Rightarrow>
          let w = on_elector maybeReportTransition w
          in case err of
               None \<Rightarrow> Some w
             | Some e \<Rightarrow> Some ((on_elector le_leaderOff w)\<lparr>cancelErr := Some Canceled\<rparr>))"

definition renew :: "'s world wait_pkg \<Rightarrow> 's world \<Rightarrow> 's world option" where
  "renew W w =
     (let w = w\<lparr>cancelErr := None\<rparr>
      in case Until W (renew_body W) (RetryPeriod (config (elector w))) ctx_done w of
           None \<Rightarrow> None
         | Some w \<Rightarrow>
             let w = (if ReleaseOnCancel (config (elector w))
                      then on_elector (\<lambda>le. snd (release le)) w else w);
                 w = w\<lparr>cancelErr := Some Canceled\<rparr>
             in Some (on_elector (le_RecordEvent ''stopped leading'') w))"

text \<open>
  \<^verbatim>\<open>Run\<close>: \<^verbatim>\<open>OnStartedLeading\<close> is started in its own goroutine, with a context that the
  deferred \<^verbatim>\<open>cancel\<close> ends before the deferred \<^verbatim>\<open>OnStoppedLeading\<close> runs.
\<close>

definition Run :: "'s world wait_pkg \<Rightarrow> 's world \<Rightarrow> 's world option" where
  "Run W w =
     (case acquire W w of
        None \<Rightarrow> None
      | Some (False, w) \<Rightarrow> Some w
      | Some (True, w) \<Rightarrow>
          let w = on_elector (\<lambda>le. emit [StartedLeading (the (OnStartedLeading (cCallbacks (config le))))] le) w
          in case renew W w of
               None \<Rightarrow> None
             | Some w \<Rightarrow>
                 let w = on_elector (emit [CancelCtx]) w
                 in Some (on_elector (\<lambda>le.
                      emit [StoppedLeading (the (OnStoppedLeading (cCallbacks (config le))))] le) w))"

text \<open>
  \<^verbatim>\<open>RunOrDie\<close> over a heap address \<open>a\<close> for the new elector and the adaptors by name: a
  panic with the error of \<^verbatim>\<open>New\<close>, or the run, with the watchdog set before it.
\<close>

definition RunOrDie ::
    "'s world wait_pkg \<Rightarrow> int \<Rightarrow> (nat \<Rightarrow> SwitchMetric) \<Rightarrow> leaderMetricsFactory \<Rightarrow> clock \<Rightarrow> 's \<Rightarrow> ctx \<Rightarrow>
     's Config \<Rightarrow> nat \<Rightarrow> (nat \<Rightarrow> HealthzAdaptor) \<Rightarrow>
     go_error + (nat \<Rightarrow> HealthzAdaptor) \<times> 's world option" where
  "RunOrDie W oor mk fac clk s c lec a dogs =
     (case New oor mk fac clk s lec of
        Inl err \<Rightarrow> Inl err
      | Inr le \<Rightarrow>
          let dogs = (case WatchDog lec of None \<Rightarrow> dogs
                      | Some d \<Rightarrow> dogs(d := SetLeaderElection a (dogs d)))
          in Inr (dogs, Run W \<lparr>elector = le, parentErr = c, cancelErr = None, timeoutErr = None,
                               succeeded = False\<rparr>))"

section \<open>Running the loops\<close>

lemma wait_docD:
  assumes "wait_doc W"
  shows "JitterUntil W f p sl stop w = Some w' \<Longrightarrow> until_runs f stop w w'"
    and "Until W f p stop w = Some w' \<Longrightarrow> until_runs f stop w w'"
    and "PollImmediateUntil W p cond stop w = Some (e, w') \<Longrightarrow> poll_runs cond stop w e w'"
    and "until_stops f stop w \<Longrightarrow> \<exists>w'. JitterUntil W f p sl stop w = Some w'"
  using assms by (auto simp: wait_doc_def)

lemma later_simps:
  assumes "later w w'"
  shows "elector w' = elector w" and "succeeded w' = succeeded w" and "cancelErr w' = cancelErr w"
    and "parentErr w \<noteq> None \<Longrightarrow> parentErr w' = parentErr w"
  using assms by (auto simp: later_def)

lemma later_refl: "later w w"
  unfolding later_def by (rule exI [of _ "parentErr w"], rule exI [of _ "timeoutErr w"]) simp

text \<open>Invariants of the loops.\<close>

lemma until_runs_inv:
  assumes "until_runs f stop w w'" and "P w"
    and "\<And>w w1 w2. P w \<Longrightarrow> \<not> stop w \<Longrightarrow> f w = Some w1 \<Longrightarrow> later w1 w2 \<Longrightarrow> P w2"
  shows "P w' \<and> stop w'"
  using assms by (induction rule: until_runs.induct) auto

lemma poll_runs_inv:
  assumes "poll_runs cond stop w e w'" and "P w"
    and "\<And>w b w1. P w \<Longrightarrow> cond w = (b, w1) \<Longrightarrow> P w1" and "\<And>w w1. P w \<Longrightarrow> later w w1 \<Longrightarrow> P w1"
  shows "P w'"
  using assms(1,2) by (induction rule: poll_runs.induct) (blast intro: assms(3,4))+

text \<open>What all steps of the loops leave alone of the elector.\<close>

definition same_setup :: "'s LeaderElector \<Rightarrow> 's LeaderElector \<Rightarrow> bool" where
  "same_setup le le' \<longleftrightarrow> config le' = config le \<and> metrics le' = metrics le"

fun is_callback :: "event \<Rightarrow> bool" where
  "is_callback (StartedLeading _) = True"
| "is_callback (StoppedLeading _) = True"
| "is_callback CancelCtx = True"
| "is_callback _ = False"

fun is_metric :: "event \<Rightarrow> bool" where
  "is_metric (Metric _) = True"
| "is_metric _ = False"

abbreviation callbacks_of :: "'s world \<Rightarrow> event list" where
  "callbacks_of w \<equiv> filter is_callback (effects (elector w))"

abbreviation metrics_of :: "'s world \<Rightarrow> event list" where
  "metrics_of w \<equiv> filter is_metric (effects (elector w))"

lemma filter_map_Metric [simp]:
  "filter is_callback (map Metric ms) = []" "filter is_metric (map Metric ms) = map Metric ms"
  by (induction ms) simp_all

lemma maybeReportTransition_frame [simp]:
  "config (maybeReportTransition le) = config le" "metrics (maybeReportTransition le) = metrics le"
  "lockState (maybeReportTransition le) = lockState le"
  "observedRecord (maybeReportTransition le) = observedRecord le"
  "reportedLeader (maybeReportTransition le) = HolderIdentity (observedRecord le)"
  "filter is_callback (effects (maybeReportTransition le)) = filter is_callback (effects le)"
  "filter is_metric (effects (maybeReportTransition le)) = filter is_metric (effects le)"
  by (simp_all add: maybeReportTransition_def emit_def Let_def split: option.splits)

lemma le_RecordEvent_frame [simp]:
  "config (le_RecordEvent m le) = config le" "metrics (le_RecordEvent m le) = metrics le"
  "effects (le_RecordEvent m le) = effects le"
  "observedRecord (le_RecordEvent m le) = observedRecord le"
  "reportedLeader (le_RecordEvent m le) = reportedLeader le"
  by (simp_all add: le_RecordEvent_def)

lemma emit_frame [simp]:
  "config (emit es le) = config le" "metrics (emit es le) = metrics le" "lockState (emit es le) = lockState le"
  "effects (emit es le) = effects le @ es" "observedRecord (emit es le) = observedRecord le"
  "reportedLeader (emit es le) = reportedLeader le"
  by (simp_all add: emit_def)

lemma try_metrics: "tryAcquireOrRenew c le = (b, le') \<Longrightarrow> metrics le' = metrics le"
  by (auto elim!: tryAcquireOrRenew_cases simp: after_Get_def observe_def setObservedRecord_def le_Now_def
      clock_Now_def)

lemma release_frame [simp]:
  "config (snd (release le)) = config le" "effects (snd (release le)) = effects le"
  "metrics (snd (release le)) = metrics le"
  by (simp_all add: release_unfold split_beta split: option.splits)
    (auto simp: after_Get_def setObservedRecord_def le_Now_def clock_Now_def)

lemma lock_config: "config le' = config le \<Longrightarrow> lock le' = lock le"
  by (simp add: lock_def)

section \<open>An example of the wait package\<close>

text \<open>The loops without time; \<open>env\<close> is what happens during each wait.\<close>

partial_function (option) until_loop ::
    "('w \<Rightarrow> 'w) \<Rightarrow> ('w \<Rightarrow> 'w option) \<Rightarrow> ('w \<Rightarrow> bool) \<Rightarrow> 'w \<Rightarrow> 'w option" where
  "until_loop env f stop w =
     (if stop w then Some w
      else Option.bind (f w) (\<lambda>w1. until_loop env f stop (env w1)))"

partial_function (option) poll_loop ::
    "('w \<Rightarrow> 'w) \<Rightarrow> ('w \<Rightarrow> bool \<times> 'w) \<Rightarrow> ('w \<Rightarrow> bool) \<Rightarrow> 'w \<Rightarrow> (go_error option \<times> 'w) option" where
  "poll_loop env cond stop w =
     (if fst (cond w) then Some (None, snd (cond w))
      else if stop (env (snd (cond w)))
      then Some (Some (ErrText ''timed out waiting for the condition''), env (snd (cond w)))
      else poll_loop env cond stop (env (snd (cond w))))"

definition seq_wait :: "('w \<Rightarrow> 'w) \<Rightarrow> 'w wait_pkg" where
  "seq_wait env =
     \<lparr>JitterUntil = (\<lambda>f _ _. until_loop env f), Until = (\<lambda>f _. until_loop env f),
      PollImmediateUntil = (\<lambda>_. poll_loop env)\<rparr>"

lemma until_loop_runs:
  assumes "until_loop env f stop w = Some w'"
  shows "(\<forall>w. later w (env w)) \<longrightarrow> until_runs f stop w w'"
  using assms
proof (induction rule: until_loop.raw_induct [rotated 1, consumes 1, case_names step])
  case (step loop env f stop w w')
  show ?case
  proof (cases "stop w")
    case False
    then obtain w1 where "f w = Some w1" "loop env f stop (env w1) = Some w'"
      using step(2) by (auto simp: bind_eq_Some_conv)
    then show ?thesis using False step(1) by (blast intro: until_runs.iter)
  qed (use step(2) in \<open>simp add: until_runs.stop\<close>)
qed

lemma poll_loop_runs:
  assumes "poll_loop env cond stop w = Some r"
  shows "(\<forall>w. later w (env w)) \<longrightarrow> poll_runs cond stop w (fst r) (snd r)"
  using assms
proof (induction rule: poll_loop.raw_induct [rotated 1, consumes 1, case_names step])
  case (step loop env cond stop w r)
  obtain b w1 where c: "cond w = (b, w1)" by (meson surj_pair)
  show ?case
  proof (cases b)
    case False
    note timeout = poll_runs.timeout [of cond w w1 "env w1" stop]
    show ?thesis using step c False timeout by (auto split: if_splits intro: poll_runs.again)
  qed (use step c in \<open>auto intro: poll_runs.holds\<close>)
qed

lemma until_loop_stops:
  assumes "until_stops f stop w" and "\<And>w. later w (env w)"
  shows "until_loop env f stop w \<noteq> None"
  using assms(1)
proof (induction rule: until_stops.induct)
  case (more w w1)
  then have "until_loop env f stop (env w1) \<noteq> None" using assms(2) by blast
  then show ?case using more(1) by (subst until_loop.simps) simp
qed (simp add: until_loop.simps)

lemma seq_wait_doc: "(\<And>w. later w (env w)) \<Longrightarrow> wait_doc (seq_wait env)"
  using until_loop_runs [of env] poll_loop_runs [of env] until_loop_stops [of _ _ _ env]
  by (fastforce simp: wait_doc_def seq_wait_def)

text \<open>An example: the parent context is cancelled at the first wait.\<close>

definition cancel_parent :: "'s world \<Rightarrow> 's world" where
  "cancel_parent w = w\<lparr>parentErr := Some (case parentErr w of None \<Rightarrow> Canceled | Some e \<Rightarrow> e)\<rparr>"

definition demo_world :: "cas_state world" where
  "demo_world =
     \<lparr>elector = demo_cas None, parentErr = None, cancelErr = None, timeoutErr = None, succeeded = False\<rparr>"

abbreviation demo_wait :: "cas_state world wait_pkg" where
  "demo_wait \<equiv> seq_wait cancel_parent"

lemma demo_wait_doc: "wait_doc demo_wait"
proof (rule seq_wait_doc)
  show "later w (cancel_parent w)" for w :: "cas_state world"
    unfolding later_def cancel_parent_def
    by (rule exI [of _ "Some (case parentErr w of None \<Rightarrow> Canceled | Some e \<Rightarrow> e)"],
        rule exI [of _ "timeoutErr w"]) auto
qed

lemma demo_world_lock: "lock_identity (lock (elector demo_world))"
  by (simp add: demo_world_def demo_cas_def cas.lock_identity_axioms)

lemma demo_try: "fst (tryAcquireOrRenew None (demo_cas None))"
  by (simp add: tryAcquireOrRenew_unfold demo_cas_def cas_Get_def cas_Create_def)

text \<open>The run of the example, step by step.\<close>

definition demo_led :: "cas_state world" where
  "demo_led = the (acquire_body demo_world)"

lemma demo_body:
  "acquire_body demo_world = Some demo_led" "succeeded demo_led" "cancelErr demo_led = Some Canceled"
  "config (elector demo_led) = demo_config cas_lock" "metrics (elector demo_led) = noMetrics"
proof -
  obtain le where att: "tryAcquireOrRenew None (demo_cas None) = (True, le)"
    using demo_try by (metis prod.collapse)
  have "acquire_body demo_world \<noteq> None"
    by (simp add: acquire_body_def split_beta Let_def)
  then show led: "acquire_body demo_world = Some demo_led" by (auto simp: demo_led_def)
  have eq: "demo_led = demo_world\<lparr>succeeded := True,
      elector := le_leaderOn (le_RecordEvent ''became leader'' (maybeReportTransition le)),
      cancelErr := Some Canceled\<rparr>"
    using led att by (simp add: acquire_body_def ctx_Err_def on_elector_def demo_world_def)
  show "succeeded demo_led" "cancelErr demo_led = Some Canceled"
    "config (elector demo_led) = demo_config cas_lock" "metrics (elector demo_led) = noMetrics"
    unfolding eq using tryAcquireOrRenew_frame(1) [OF att] try_metrics [OF att]
    by (simp_all add: le_leaderOn_def demo_cas_def demo_elector_def)
qed

lemma demo_acquire:
  "acquire demo_wait demo_world = Some (True, cancel_parent demo_led)"
proof -
  have w: "demo_world\<lparr>cancelErr := None, succeeded := False\<rparr> = demo_world" by (simp add: demo_world_def)
  have "ctx_done (cancel_parent demo_led)" by (simp add: ctx_done_def ctx_Err_def cancel_parent_def)
  moreover have "\<not> ctx_done demo_world" by (simp add: ctx_done_def ctx_Err_def demo_world_def)
  ultimately have "until_loop cancel_parent acquire_body ctx_done demo_world = Some (cancel_parent demo_led)"
    by (simp add: until_loop.simps [of _ _ _ demo_world] until_loop.simps [of _ _ _ "cancel_parent demo_led"] demo_body)
  then show ?thesis using demo_body(2,3) by (simp add: acquire_def w seq_wait_def cancel_parent_def)
qed

definition demo_done :: "cas_state world" where
  "demo_done = the (Run demo_wait demo_world)"

lemma demo_renew:
  assumes "parentErr w \<noteq> None"
  shows "\<exists>w'. renew demo_wait w = Some w'"
proof -
  have "ctx_done (w\<lparr>cancelErr := None\<rparr>)" using assms by (auto simp: ctx_done_def ctx_Err_def)
  then show ?thesis by (simp add: renew_def seq_wait_def until_loop.simps Let_def)
qed

lemma demo_Run: "Run demo_wait demo_world = Some demo_done"
proof -
  have "\<exists>w. Run demo_wait demo_world = Some w"
    using demo_renew [of "on_elector f (cancel_parent demo_led)" for f]
    by (fastforce simp: Run_def demo_acquire Let_def on_elector_def cancel_parent_def split: option.splits)
  then show ?thesis by (auto simp: demo_done_def)
qed

section \<open>Acquiring\<close>

definition on_metrics :: "'s world \<Rightarrow> event list" where
  "on_metrics w = map Metric (leaderOn (metrics (elector w)) (Name (config (elector w))))"

definition off_metrics :: "'s world \<Rightarrow> event list" where
  "off_metrics w = map Metric (leaderOff (metrics (elector w)) (Name (config (elector w))))"

definition acq_inv :: "'s world \<Rightarrow> 's world \<Rightarrow> bool" where
  "acq_inv w0 w \<longleftrightarrow>
     same_setup (elector w0) (elector w) \<and> callbacks_of w = callbacks_of w0 \<and>
     (if succeeded w
      then IsLeader (elector w) \<and>
           reportedLeader (elector w) = Identity (lock (elector w)) (lockState (elector w)) \<and>
           metrics_of w = metrics_of w0 @ on_metrics w0
      else cancelErr w = None \<and> metrics_of w = metrics_of w0)"

lemma IsLeader_cong:
  "config le' = config le \<Longrightarrow> lockState le' = lockState le \<Longrightarrow> observedRecord le' = observedRecord le \<Longrightarrow>
   IsLeader le' = IsLeader le"
  by (simp add: IsLeader_iff lock_def)

lemma IsLeader_RecordEvent:
  assumes "lock_identity (lock le)"
  shows "IsLeader (le_RecordEvent m le) = IsLeader le"
  using lock_identity.Identity_RecordEvent [OF assms]
  by (simp add: IsLeader_iff lock_config [OF le_RecordEvent_frame(1)]) (simp add: le_RecordEvent_def)

lemma acquire_body_inv:
  assumes id: "lock_identity (lock (elector w0))" and inv: "acq_inv w0 w" and ns: "\<not> succeeded w"
    and body: "acquire_body w = Some w1"
  shows "acq_inv w0 w1"
proof -
  obtain b le where att: "tryAcquireOrRenew (ctx_Err w) (elector w) = (b, le)" by (meson surj_pair)
  have su: "config (elector w) = config (elector w0)" "metrics (elector w) = metrics (elector w0)"
    using inv by (simp_all add: acq_inv_def same_setup_def)
  have le: "config le = config (elector w0)" "metrics le = metrics (elector w0)" "effects le = effects (elector w)"
    using tryAcquireOrRenew_frame [OF att] try_metrics [OF att] su by simp_all
  let ?le = "maybeReportTransition le"
  show ?thesis
  proof (cases b)
    case False
    then show ?thesis using body att le inv ns
      by (auto simp: acquire_body_def acq_inv_def same_setup_def)
  next
    case True
    have id': "lock_identity (lock ?le)" using id le by (simp add: lock_def)
    have "IsLeader le"
      using lock_identity.try_success_leader [OF _ refl, of "elector w"] att True id su
      by (simp add: lock_def)
    then have "IsLeader ?le" using IsLeader_cong [of ?le le] by simp
    then have lead: "IsLeader (le_RecordEvent ''became leader'' ?le)"
      using IsLeader_RecordEvent [OF id'] by simp
    have w1: "w1 = w\<lparr>succeeded := True, elector := le_leaderOn (le_RecordEvent ''became leader'' ?le),
        cancelErr := Some Canceled\<rparr>"
      using body att True by (simp add: acquire_body_def on_elector_def)
    have "IsLeader (elector w1)"
      using lead IsLeader_cong [of "elector w1" "le_RecordEvent ''became leader'' ?le"]
      by (simp add: w1 le_leaderOn_def)
    moreover have "reportedLeader (elector w1) = HolderIdentity (observedRecord (elector w1))"
      by (simp add: w1 le_leaderOn_def)
    ultimately show ?thesis using inv ns le
      by (simp add: acq_inv_def same_setup_def w1 le_leaderOn_def on_metrics_def IsLeader_iff)
  qed
qed

lemma acq_inv_later: "acq_inv w0 w \<Longrightarrow> later w w' \<Longrightarrow> acq_inv w0 w'"
  using later_simps(1-3) [of w w'] by (simp add: acq_inv_def)

lemma acquire_inv:
  assumes "wait_doc W" and "lock_identity (lock (elector w))" and "acquire W w = Some (b, w')"
  shows "acq_inv w (w'\<lparr>cancelErr := None\<rparr>) \<and> succeeded w' = b \<and> (b \<or> parentErr w' \<noteq> None)"
proof -
  let ?w = "w\<lparr>cancelErr := None, succeeded := False\<rparr>"
  obtain w2 where loop: "JitterUntil W acquire_body (RetryPeriod (config (elector w))) True ctx_done ?w = Some w2"
    and w': "w' = w2\<lparr>cancelErr := Some Canceled\<rparr>" "b = succeeded w2"
    using assms(3) by (auto simp: acquire_def split: option.splits)
  note run = wait_docD(1) [OF assms(1) loop]
  let ?P = "\<lambda>u. acq_inv w u \<and> (succeeded u \<longrightarrow> cancelErr u \<noteq> None)"
  have "?P w2 \<and> ctx_done w2"
  proof (rule until_runs_inv [OF run])
    show "?P ?w" by (simp add: acq_inv_def same_setup_def)
    fix u w1 u2
    assume P: "?P u" and stop: "\<not> ctx_done u" and f: "acquire_body u = Some w1" and l: "later w1 u2"
    have ns: "\<not> succeeded u" using P stop by (auto simp: ctx_done_def ctx_Err_def split: option.splits)
    have "acq_inv w w1" using acquire_body_inv [OF assms(2) _ ns f] P by simp
    moreover have "succeeded w1 \<longrightarrow> cancelErr w1 \<noteq> None"
      using f by (auto simp: acquire_body_def on_elector_def Let_def split: prod.splits if_splits)
    ultimately show "?P u2" using acq_inv_later [OF _ l] later_simps(2,3) [OF l] by simp
  qed
  then show ?thesis
    by (auto simp: w' acq_inv_def ctx_done_def ctx_Err_def split: option.splits if_splits)
qed

text \<open>
  C9. Acquiring: when \<^verbatim>\<open>acquire\<close> reports success, the elector observes itself as the
  holder, has reported itself as the new leader, and switched its metric on exactly once; when
  it reports failure, the caller's context is done and no metric was touched. Neither calls
  the leading callbacks.
\<close>

theorem acquire_result:
  assumes "wait_doc W" and "lock_identity (lock (elector w))" and "acquire W w = Some (b, w')"
  shows "callbacks_of w' = callbacks_of w \<and>
         (if b
          then IsLeader (elector w') \<and>
               reportedLeader (elector w') = Identity (lock (elector w')) (lockState (elector w')) \<and>
               metrics_of w' = metrics_of w @ on_metrics w
          else parentErr w' \<noteq> None \<and> metrics_of w' = metrics_of w)"
  using acquire_inv [OF assms] by (auto simp: acq_inv_def split: if_splits)

theorem acquire_result_witness:
  "IsLeader (elector (cancel_parent demo_led))"
  using acquire_result [OF demo_wait_doc demo_world_lock demo_acquire] by simp

text \<open>
  C10. Acquiring ends: with a done context \<^verbatim>\<open>acquire\<close> returns false without an attempt,
  and with a live one it returns true as soon as an attempt succeeds, here the first.
\<close>

theorem acquire_returns:
  assumes "wait_doc W"
  shows "(parentErr w \<noteq> None \<longrightarrow>
            (\<exists>w'. acquire W w = Some (False, w') \<and> elector w' = elector w)) \<and>
         (parentErr w = None \<and> fst (tryAcquireOrRenew None (elector w)) \<longrightarrow>
            (\<exists>w'. acquire W w = Some (True, w')))"
proof -
  let ?w = "w\<lparr>cancelErr := None, succeeded := False\<rparr>" 
  let ?run = "JitterUntil W acquire_body (RetryPeriod (config (elector ?w))) True ctx_done ?w"
  have "\<exists>w'. acquire W w = Some (False, w') \<and> elector w' = elector w" if p: "parentErr w \<noteq> None"
  proof -
    have st: "ctx_done ?w" using p by (auto simp: ctx_done_def ctx_Err_def)
    obtain w2 where w2: "?run = Some w2" using wait_docD(4) [OF assms until_stops.stopped] st by blast
    have "w2 = ?w" using wait_docD(1) [OF assms w2] st by (cases rule: until_runs.cases) auto
    with w2 show ?thesis by (auto simp: acquire_def Let_def)
  qed
  moreover have "\<exists>w'. acquire W w = Some (True, w')"
    if p: "parentErr w = None" and ok: "fst (tryAcquireOrRenew None (elector w))"
  proof -
    have ns: "\<not> ctx_done ?w" and ce: "ctx_Err ?w = None" using p by (simp_all add: ctx_done_def ctx_Err_def)
    obtain w1 where w1: "acquire_body ?w = Some w1" "succeeded w1" "cancelErr w1 \<noteq> None"
      using ok ce by (auto simp: acquire_body_def on_elector_def Let_def split_beta)
    have st: "ctx_done u \<and> succeeded u" if "later w1 u" for u
      using later_simps(2,3) [OF that] w1 by (auto simp: ctx_done_def ctx_Err_def split: option.splits)
    have "until_stops acquire_body ctx_done ?w"
      by (rule until_stops.more [of acquire_body, OF w1(1)]) (rule until_stops.stopped, use st in blast)
    then obtain w2 where w2: "?run = Some w2" using wait_docD(4) [OF assms] by blast
    from wait_docD(1) [OF assms w2] have "succeeded w2"
    proof (cases rule: until_runs.cases)
      case (iter u1 u2)
      then have "ctx_done u2 \<and> succeeded u2" using st w1 by simp
      with iter(4) show ?thesis by (auto elim: until_runs.cases)
    qed (use ns in auto)
    with w2 show ?thesis by (simp add: acquire_def)
  qed
  ultimately show ?thesis by blast
qed

theorem acquire_returns_witness: "\<exists>w'. acquire demo_wait demo_world = Some (True, w')"
  using acquire_returns [OF demo_wait_doc, of demo_world] demo_try by (simp add: demo_world_def)

section \<open>Renewing\<close>

lemma renew_cond_frame:
  assumes "renew_cond w = (b, w1)"
  shows "same_setup (elector w) (elector w1)" and "effects (elector w1) = effects (elector w)"
    and "cancelErr w1 = cancelErr w" and "parentErr w1 = parentErr w"
proof -
  obtain le where att: "tryAcquireOrRenew (timeoutCtx_Err w) (elector w) = (b, le)"
    and w1: "w1 = w\<lparr>elector := le\<rparr>"
    using assms by (auto simp: renew_cond_def split: prod.splits)
  show "same_setup (elector w) (elector w1)" "effects (elector w1) = effects (elector w)"
    "cancelErr w1 = cancelErr w" "parentErr w1 = parentErr w"
    using tryAcquireOrRenew_frame [OF att] try_metrics [OF att] by (simp_all add: w1 same_setup_def)
qed

lemma poll_frame:
  assumes "poll_runs renew_cond stop w e w'"
  shows "same_setup (elector w) (elector w') \<and> effects (elector w') = effects (elector w) \<and>
         cancelErr w' = cancelErr w"
proof (rule poll_runs_inv [OF assms])
  fix u b u1
  assume "same_setup (elector w) (elector u) \<and> effects (elector u) = effects (elector w) \<and>
      cancelErr u = cancelErr w" and "renew_cond u = (b, u1)"
  then show "same_setup (elector w) (elector u1) \<and> effects (elector u1) = effects (elector w) \<and>
      cancelErr u1 = cancelErr w"
    using renew_cond_frame [of u b u1] by (simp add: same_setup_def)
next
  fix u u1
  assume "same_setup (elector w) (elector u) \<and> effects (elector u) = effects (elector w) \<and>
      cancelErr u = cancelErr w" and "later u u1"
  then show "same_setup (elector w) (elector u1) \<and> effects (elector u1) = effects (elector w) \<and>
      cancelErr u1 = cancelErr w"
    using later_simps(1,3) [of u u1] by simp
qed (simp add: same_setup_def)

definition ren_inv :: "'s world \<Rightarrow> 's world \<Rightarrow> bool" where
  "ren_inv w0 w \<longleftrightarrow>
     same_setup (elector w0) (elector w) \<and> callbacks_of w = callbacks_of w0 \<and>
     (if cancelErr w = None then metrics_of w = metrics_of w0
      else metrics_of w = metrics_of w0 @ off_metrics w0)"

lemma renew_body_inv:
  assumes "wait_doc W" and inv: "ren_inv w0 w" and nc: "cancelErr w = None"
    and body: "renew_body W w = Some w1"
  shows "ren_inv w0 w1"
proof -
  obtain e w2 where loop: "PollImmediateUntil W (RetryPeriod (config (elector w))) renew_cond timeoutCtx_done
      (w\<lparr>timeoutErr := None\<rparr>) = Some (e, w2)"
    and w1: "w1 = (let v = on_elector maybeReportTransition w2
        in case e of None \<Rightarrow> v | Some _ \<Rightarrow> (on_elector le_leaderOff v)\<lparr>cancelErr := Some Canceled\<rparr>)"
    using body by (auto simp: renew_body_def Let_def split: option.splits)
  have "same_setup (elector w0) (elector w2)" "effects (elector w2) = effects (elector w)" "cancelErr w2 = None"
    using poll_frame [OF wait_docD(3) [OF assms(1) loop]] inv nc by (auto simp: ren_inv_def same_setup_def)
  then show ?thesis using inv nc
    by (cases e) (simp_all add: w1 ren_inv_def same_setup_def on_elector_def le_leaderOff_def off_metrics_def)
qed

lemma ren_inv_later: "ren_inv w0 w \<Longrightarrow> later w w' \<Longrightarrow> ren_inv w0 w'"
  using later_simps(1,3) [of w w'] by (simp add: ren_inv_def)

lemma renew_loop:
  assumes "wait_doc W" and "renew W w = Some w'"
  obtains u where "ren_inv w u" and "parentErr u \<noteq> None \<or> cancelErr u \<noteq> None"
    and "w' = on_elector (le_RecordEvent ''stopped leading'')
      ((if ReleaseOnCancel (config (elector u)) then on_elector (\<lambda>le. snd (release le)) u else u)
        \<lparr>cancelErr := Some Canceled\<rparr>)"
proof -
  let ?w = "w\<lparr>cancelErr := None\<rparr>"
  obtain u where loop: "Until W (renew_body W) (RetryPeriod (config (elector w))) ctx_done ?w = Some u"
    and w': "w' = on_elector (le_RecordEvent ''stopped leading'')
      ((if ReleaseOnCancel (config (elector u)) then on_elector (\<lambda>le. snd (release le)) u else u)
        \<lparr>cancelErr := Some Canceled\<rparr>)"
    using assms(2) by (auto simp: renew_def Let_def split: option.splits)
  have "ren_inv w u \<and> ctx_done u"
  proof (rule until_runs_inv [OF wait_docD(2) [OF assms(1) loop]])
    show "ren_inv w ?w" by (simp add: ren_inv_def same_setup_def)
    fix a b c
    assume inv: "ren_inv w a" and stop: "\<not> ctx_done a" and f: "renew_body W a = Some b" and l: "later b c"
    have "cancelErr a = None" using stop by (auto simp: ctx_done_def ctx_Err_def split: option.splits)
    then show "ren_inv w c" using ren_inv_later [OF renew_body_inv [OF assms(1) inv _ f] l] by simp
  qed
  then show thesis using that [of u] w' by (auto simp: ctx_done_def ctx_Err_def split: option.splits)
qed



lemma renew_callbacks:
  assumes "wait_doc W" and "renew W w = Some w'"
  shows "callbacks_of w' = callbacks_of w \<and> config (elector w') = config (elector w)"
  using assms
  by (rule renew_loop) (simp add: on_elector_def ren_inv_def same_setup_def)

section \<open>The whole run\<close>

lemma acquire_frame:
  assumes "wait_doc W" and "lock_identity (lock (elector w))" and "acquire W w = Some (b, w')"
  shows "callbacks_of w' = callbacks_of w \<and> config (elector w') = config (elector w)"
  using acquire_inv [OF assms] by (simp add: acq_inv_def same_setup_def)

text \<open>
  C8. The callbacks of a run: either none is called, or \<^verbatim>\<open>OnStartedLeading\<close> is started
  once, then its context is cancelled, and then \<^verbatim>\<open>OnStoppedLeading\<close> is called once.
  Nothing is called after it.
\<close>

theorem Run_callbacks:
  assumes "wait_doc W" and "lock_identity (lock (elector w))" and "Run W w = Some w'"
    and "OnStartedLeading (cCallbacks (config (elector w))) = Some f"
    and "OnStoppedLeading (cCallbacks (config (elector w))) = Some g"
  shows "callbacks_of w' = callbacks_of w \<and> parentErr w' \<noteq> None \<or>
         callbacks_of w' = callbacks_of w @ [StartedLeading f, CancelCtx, StoppedLeading g]"
proof -
  obtain b w1 where a: "acquire W w = Some (b, w1)"
    using assms(3) by (cases "acquire W w") (auto simp: Run_def)
  note fr = acquire_frame [OF assms(1,2) a]
  show ?thesis
  proof (cases b)
    case False
    then show ?thesis using a assms(3) fr acquire_inv [OF assms(1,2) a] by (simp add: Run_def)
  next
    case True
    let ?w = "on_elector (\<lambda>le. emit [StartedLeading (the (OnStartedLeading (cCallbacks (config le))))] le) w1"
    obtain w2 where r: "renew W ?w = Some w2"
      and w': "w' = on_elector (\<lambda>le. emit [StoppedLeading (the (OnStoppedLeading (cCallbacks (config le))))] le)
          (on_elector (emit [CancelCtx]) w2)"
      using a True assms(3) by (auto simp: Run_def Let_def split: option.splits)
    show ?thesis using renew_callbacks [OF assms(1) r] fr assms(4,5) by (simp add: w' on_elector_def)
  qed
qed

theorem Run_callbacks_witness:
  "callbacks_of demo_done = [] \<or>
   callbacks_of demo_done = [StartedLeading 1, CancelCtx, StoppedLeading 2]"
proof -
  have "callbacks_of demo_world = []" and c: "config (elector demo_world) = demo_config cas_lock"
    by (simp_all add: demo_world_def demo_cas_def demo_elector_def)
  moreover have "OnStartedLeading (cCallbacks (config (elector demo_world))) = Some 1"
    "OnStoppedLeading (cCallbacks (config (elector demo_world))) = Some 2"
    unfolding c by (simp_all add: demo_config_def)
  ultimately show ?thesis using Run_callbacks [OF demo_wait_doc demo_world_lock demo_Run] by auto
qed


end
