(* ===== verification/Leaders.thy ===== *)
theory Leaders
  imports Election_Interleaved Election_Loop Leader_Timing
begin

text \<open>
  The leaders among the electors of \<open>Election_Interleaved\<close>, in the sense of \<open>Leader_Timing\<close>: at
  most one when the lease leaves enough room, and two when it does not, although \<^verbatim>\<open>New\<close>
  accepts the configuration.
\<close>

section \<open>One leader\<close>

abbreviation cfg_of :: "isystem \<Rightarrow> nat \<Rightarrow> net_state Config" where
  "cfg_of N i \<equiv> config (node (core N) i)"

definition inet :: "isystem lease_view" where
  "inet =
     \<lparr>nowOf = (\<lambda>N. now_g (core N)), okOf = (\<lambda>N. lastOK (core N)),
      begunOf = (\<lambda>N i. map_option snd (pending N i)), renewOf = (\<lambda>N i. RenewDeadline (cfg_of N i)),
      retryOf = (\<lambda>N i. RetryPeriod (cfg_of N i)), leaseOf = (\<lambda>N i. lease (node (core N) i))\<rparr>"

lemma inet_sel [simp]:
  "nowOf inet N = now_g (core N)" "okOf inet N = lastOK (core N)"
  "begunOf inet N i = map_option snd (pending N i)" "renewOf inet N i = RenewDeadline (cfg_of N i)"
  "retryOf inet N i = RetryPeriod (cfg_of N i)" "leaseOf inet N i = lease (node (core N) i)"
  by (simp_all add: inet_def)

lemma attempt_read_config: "attempt_read c le = (p, le') \<Longrightarrow> config le' = config le"
  by (auto simp: attempt_read_def Let_def split: prod.splits sum.splits)

lemma attempt_write_config: "attempt_write c p le = (b, le') \<Longrightarrow> config le' = config le"
  by (cases p) (auto simp: conclude_def split: prod.splits option.splits)

lemma release_config: "release le = (b, le') \<Longrightarrow> config le' = config le"
  using release_frame(1) [of le] by simp

lemma isys_step_config: "isys_step ck N N' \<Longrightarrow> cfg_of N' i = cfg_of N i"
  by (induction rule: isys_step.induct)
    (auto simp: deliver_def dest!: attempt_read_config attempt_write_config release_config)

interpretation leaders: leased_system inet isys_step init_isystem ireachable
proof
  fix ident ck N and i j :: nat and w w'
  assume "wf_ident ident" "wf_clocks ck" "ireachable ident ck N" "i \<noteq> j"
    "okOf inet N i = Some w" "okOf inet N j = Some w'" "nowOf inet N < w + tmin ck * leaseOf inet N i"
  then show "\<not> nowOf inet N < w' + tmin ck * leaseOf inet N j"
    using Inv_exclusive [OF IInvD(1) [OF ireachable_IInv], of ident ck N i j w w'] by simp
qed (simp_all add: isys_step_config ireachable.start ireachable.step)


abbreviation led :: "(nat \<Rightarrow> string) \<Rightarrow> clocks \<Rightarrow> int \<Rightarrow> isystem lsystem \<Rightarrow> bool" where
  "led ident \<equiv> lreachable inet isys_step (init_isystem ident)"

section \<open>Whole attempts\<close>

text \<open>An attempt with nothing in between, for example runs.\<close>

definition on_time :: "clocks \<Rightarrow> system \<Rightarrow> (nat \<Rightarrow> mode) \<Rightarrow> int \<Rightarrow> bool" where
  "on_time ck S md t \<longleftrightarrow> (\<forall>j d. expires (RenewDeadline (config (node S j))) (RetryPeriod (config (node S j))) (md j) = Some d \<longrightarrow> t \<le> moment ck j d)"

lemma in_time_on_time:
  "now_g (core N) = t \<Longrightarrow> (\<And>j. cfg_of N j = config (node S j)) \<Longrightarrow>
   in_time inet ck \<lparr>net = N, mode = md\<rparr> = on_time ck S md t"
  by (simp add: in_time_def on_time_def)

lemma l_attempt:
  assumes wf: "wf_ident ident" "wf_clocks ck"
    and reach: "led ident ck lat \<lparr>net = at_rest S L, mode = md\<rparr>"
    and att: "tryAcquireOrRenew c (ready S i rd wr) = (b, le')" and t: "now_g S \<le> t"
    and reads: "reads_within (moment ck i) (now_g S) t (le_clock (node S i)) (le_clock le')"
    and fresh: "fresh_write S le'" and awake: "\<And>t. md i \<noteq> Resting t"
    and e: "b \<Longrightarrow> reads_at ck i t e \<and> e \<le> mono_of (attempt_time (node S i)) + lat"
    and time: "on_time ck S md t" "b \<Longrightarrow> on_time ck S (md(i := after_success e (md i))) t"
  shows "\<exists>L'. led ident ck lat
    \<lparr>net = at_rest (after_turn S i le' (if b then Some (moment ck i (mono_of (attempt_time (node S i)))) else lastOK S i) t) L',
     mode = (if b then md(i := after_success e (md i)) else md)\<rparr>"
proof -
  let ?m = "mono_of (attempt_time (node S i))"
  let ?T = "after_turn S i le' (if b then Some (moment ck i ?m) else lastOK S i) t"
  have inv: "Inv ident ck S"
    using IInvD(1) [OF ireachable_IInv [OF leaders.lreachable_net [OF reach] wf]] by simp
  obtain M L' p where M: "isys_step ck (at_rest S L) M" "now_g (core M) = t" "lastOK (core M) = lastOK S"
      "M = at_rest ?T L' \<and> \<not> b \<or>
       isys_step ck M (at_rest ?T L') \<and> pending M = (\<lambda>_. None)(i \<mapsto> (p, moment ck i ?m))"
    using attempt_interleaved [OF inv att t reads fresh, of L] by blast
  have cfgM: "cfg_of M j = config (node S j)" for j using isys_step_config [OF M(1), of j] by simp
  have cfgT: "cfg_of (at_rest ?T L') j = config (node S j)" for j
    using tryAcquireOrRenew_frame(1) [OF att] by simp
  have rest: "pending M j = None" if "md j = Resting u" for j u
    using M(4)
  proof
    assume "M = at_rest ?T L' \<and> \<not> b"
    then have "pending M = pending (at_rest ?T L')" by (intro arg_cong [where f = pending]) blast
    then show ?thesis by simp
  qed (use that awake [of u] in auto)
  then have "lstep inet isys_step ck lat \<lparr>net = at_rest S L, mode = md\<rparr> \<lparr>net = M, mode = md\<rparr>"
    using lstep.quiet [of isys_step ck "\<lparr>net = at_rest S L, mode = md\<rparr>" M inet lat] M(1,3) time(1)
      in_time_on_time [OF M(2) cfgM, of ck md] by simp
  then have reachM: "led ident ck lat \<lparr>net = M, mode = md\<rparr>" using reach lreachable.step by blast
  show ?thesis
  proof (cases "M = at_rest ?T L' \<and> \<not> b")
    case True
    then show ?thesis using reachM by auto
  next
    case False
    then have step: "isys_step ck M (at_rest ?T L')" and pnd: "pending M = (\<lambda>_. None)(i \<mapsto> (p, moment ck i ?m))"
      using M(4) by auto
    have "lstep inet isys_step ck lat \<lparr>net = M, mode = md\<rparr>
        \<lparr>net = at_rest ?T L', mode = (if b then md(i := after_success e (md i)) else md)\<rparr>"
    proof (cases b)
      case True
      then have "won inet ck i ?m M (at_rest ?T L')" using M(3) pnd by (auto simp: won_def)
      then show ?thesis
        using lstep.success [of isys_step ck "\<lparr>net = M, mode = md\<rparr>" "at_rest ?T L'" inet i ?m e lat] step True e awake
          in_time_on_time [OF _ cfgT, of t] time(2) by simp
    next
      case False
      then show ?thesis
        using lstep.quiet [of isys_step ck "\<lparr>net = M, mode = md\<rparr>" "at_rest ?T L'" inet lat] step M(3) rest
          in_time_on_time [OF _ cfgT, of t] time(1) by simp
    qed
    then show ?thesis using reachM lreachable.step by blast
  qed
qed

section \<open>The guard of New\<close>

text \<open>
  \<^verbatim>\<open>New\<close> compares the lease with the renew deadline only. Two electors with a lease of 15 s,
  a renew deadline of 14 s and a retry period of 2 s, which it accepts, on clocks that agree: the
  first leads from 0 s, renews at 1 ms, rests until 2.001 s and then tries until 16.001 s in
  vain. The second sees the record of 1 ms at once and takes over at 15.001 s.
\<close>

definition gap_config :: "'s Lock \<Rightarrow> 's Config" where
  "gap_config L = (demo_config L)\<lparr>RenewDeadline := 14 * Second\<rparr>"

definition gap_clock :: "int \<Rightarrow> int \<Rightarrow> clock" where
  "gap_clock a b =
     \<lparr>readings = (\<lambda>n. if n < 2 then \<lparr>wall = a, monotonic = Some a\<rparr> else \<lparr>wall = b, monotonic = Some b\<rparr>),
      tick = 0\<rparr>"

definition gap_node :: "nat \<Rightarrow> net_state LeaderElector" where
  "gap_node i =
     (demo_elector net_lock
        \<lparr>base = \<lparr>me = run_ident i, cell = None, seen = None\<rparr>, rfault = False, wfault = NoFault, stores_as = id\<rparr>)
     \<lparr>config := gap_config net_lock,
      le_clock := (if i = 2 then gap_clock 0 Millisecond else gap_clock Millisecond (15001 * Millisecond))\<rparr>"

definition same_clocks :: clocks where
  "same_clocks = \<lparr>moment = (\<lambda>i m. m), tmin = 1, tmax = 1\<rparr>"

definition gap0 :: system where
  "gap0 = \<lparr>now_g = 0, store = None, since = 0, hist = {}, node = gap_node, lastOK = (\<lambda>_. None)\<rparr>"

definition gap_next :: "system \<Rightarrow> nat \<Rightarrow> int \<Rightarrow> system" where
  "gap_next S i t =
     after_turn S i (snd (run_try S i))
       (if fst (run_try S i) then Some (moment same_clocks i (mono_of (attempt_time (node S i)))) else lastOK S i) t"

definition gap1 :: system where "gap1 = gap_next gap0 2 0"
definition gap2 :: system where "gap2 = gap_next gap1 2 Millisecond"
definition gap3 :: system where "gap3 = gap_next gap2 3 Millisecond"
definition gap4 :: system where "gap4 = gap_next (gap3\<lparr>now_g := 2001 * Millisecond\<rparr>) 3 (15001 * Millisecond)"

lemma same_clocks_sel [simp]:
  "moment same_clocks i m = m" "tmin same_clocks = 1" "tmax same_clocks = 1" "wf_clocks same_clocks"
  "reads_at same_clocks i t m = (t = m)"
  by (auto simp: same_clocks_def wf_clocks_def reads_at_def)

lemmas gap_defs = gap_node_def gap_config_def gap_clock_def run_defs

lemma gap_try1:
  "run_try gap0 2 = (True, (gap_node 2)\<lparr>observedRecord := run_record 2 0 0,
     observedTime := \<lparr>wall = 0, monotonic = Some 0\<rparr>, le_clock := (gap_clock 0 Millisecond)\<lparr>tick := 2\<rparr>,
     lockState := \<lparr>base = \<lparr>me = run_ident 2, cell = Some (0, run_record 2 0 0), seen = Some 0\<rparr>,
        rfault = False, wfault = NoFault, stores_as = id\<rparr>\<rparr>)"
  by (simp add: gap0_def gap_defs)

lemma gap1_sel:
  "now_g gap1 = 0" "store gap1 = Some (0, run_record 2 0 0)" "since gap1 = 0"
  "hist gap1 = {run_record 2 0 0}" "node gap1 = gap_node(2 := snd (run_try gap0 2))"
  "lastOK gap1 = (\<lambda>_. None)(2 \<mapsto> 0)"
  by (simp_all add: gap1_def gap_next_def gap_try1 after_turn_def)
    (simp_all add: gap0_def attempt_time_def gap_node_def gap_clock_def mono_of_def fun_eq_iff)

definition gap_renewed :: Record where
  "gap_renewed = (run_record 2 0 0)\<lparr>RenewTime := 1\<rparr>"

lemma gap_try2:
  "run_try gap1 2 = (True, (snd (run_try gap0 2))\<lparr>observedRecord := gap_renewed,
     observedRawRecord := json_bytes (run_record 2 0 0),
     observedTime := \<lparr>wall = Millisecond, monotonic = Some Millisecond\<rparr>,
     le_clock := (gap_clock 0 Millisecond)\<lparr>tick := 5\<rparr>,
     lockState := \<lparr>base = \<lparr>me = run_ident 2, cell = Some (Suc 0, gap_renewed), seen = Some (Suc 0)\<rparr>,
        rfault = False, wfault = NoFault, stores_as = id\<rparr>\<rparr>)"
proof -
  have n: "node gap1 2 = snd (run_try gap0 2)" by (simp add: gap1_sel)
  have "json_bytes (run_record 2 0 0) \<noteq> []"
    by (simp add: json_bytes_def json_Marshal_def)
  then show ?thesis unfolding run_try_def [of gap1] ready_def n gap1_sel(2) gap_try1 snd_conv gap_renewed_def
    by (simp add: gap_defs)
qed

lemma gap2_sel:
  "now_g gap2 = Millisecond" "store gap2 = Some (Suc 0, gap_renewed)" "since gap2 = Millisecond"
  "hist gap2 = {gap_renewed, run_record 2 0 0}" "node gap2 = gap_node(2 := snd (run_try gap1 2))"
  "lastOK gap2 = (\<lambda>_. None)(2 \<mapsto> Millisecond)"
  by (simp_all add: gap2_def gap_next_def gap_try2 after_turn_def gap1_sel gap_try1)
    (simp_all add: attempt_time_def gap_clock_def mono_of_def)

lemma gap_try3:
  "run_try gap2 3 = (False, (gap_node 3)\<lparr>observedRecord := gap_renewed,
     observedRawRecord := json_bytes gap_renewed,
     observedTime := \<lparr>wall = Millisecond, monotonic = Some Millisecond\<rparr>,
     le_clock := (gap_clock Millisecond (15001 * Millisecond))\<lparr>tick := 2\<rparr>,
     lockState := \<lparr>base = \<lparr>me = run_ident 3, cell = Some (Suc 0, gap_renewed), seen = Some (Suc 0)\<rparr>,
        rfault = False, wfault = NoFault, stores_as = id\<rparr>\<rparr>)"
proof -
  have "HolderIdentity gap_renewed = run_ident 2" "LeaseDurationMilliSeconds gap_renewed = 15000"
    by (simp_all add: gap_renewed_def run_record_def)
  then show ?thesis by (simp add: gap2_sel gap_defs)
qed

lemma gap3_sel:
  "now_g gap3 = Millisecond" "store gap3 = Some (Suc 0, gap_renewed)" "since gap3 = Millisecond"
  "hist gap3 = {gap_renewed, run_record 2 0 0}" "node gap3 = (node gap2)(3 := snd (run_try gap2 3))"
  "lastOK gap3 = (\<lambda>_. None)(2 \<mapsto> Millisecond)"
  by (auto simp: gap3_def gap_next_def gap_try3 after_turn_def gap2_sel)

abbreviation gap3' :: system where "gap3' \<equiv> gap3\<lparr>now_g := 2001 * Millisecond\<rparr>"

lemma gap_try4:
  "run_try gap3' 3 = (True, (snd (run_try gap2 3))\<lparr>observedRecord := run_record 3 15001 1,
     observedTime := \<lparr>wall = 15001 * Millisecond, monotonic = Some (15001 * Millisecond)\<rparr>,
     le_clock := (gap_clock Millisecond (15001 * Millisecond))\<lparr>tick := 4\<rparr>,
     lockState := \<lparr>base = \<lparr>me = run_ident 3, cell = Some (Suc (Suc 0), run_record 3 15001 1),
        seen = Some (Suc (Suc 0))\<rparr>, rfault = False, wfault = NoFault, stores_as = id\<rparr>\<rparr>)"
proof -
  have n: "node gap3' 3 = snd (run_try gap2 3)" and st: "store gap3' = Some (Suc 0, gap_renewed)"
    by (simp_all add: gap3_sel)
  have r: "HolderIdentity gap_renewed = run_ident 2" "LeaseDurationMilliSeconds gap_renewed = 15000"
    "LeaderTransitions gap_renewed = 0" by (simp_all add: gap_renewed_def run_record_def)
  show ?thesis unfolding run_try_def [of gap3'] ready_def n st gap_try3 snd_conv
    by (simp add: gap_defs r)
qed

lemma init_gap0: "init_system run_ident gap0"
  by (auto simp: init_system_def gap0_def gap_node_def wf_node_def demo_elector_def lock_def gap_config_def
      demo_config_def gap_clock_def real_clock_def mono_of_def Second_def Millisecond_def)

lemma gap_config_of:
  "config (node gap0 i) = gap_config net_lock" "config (node gap1 i) = gap_config net_lock"
  "config (node gap2 i) = gap_config net_lock" "config (node gap3 i) = gap_config net_lock"
proof -
  have "node gap0 = gap_node" by (simp add: gap0_def)
  then show "config (node gap0 i) = gap_config net_lock" "config (node gap1 i) = gap_config net_lock"
    "config (node gap2 i) = gap_config net_lock" "config (node gap3 i) = gap_config net_lock"
    by (auto simp: gap1_sel gap2_sel gap3_sel gap_try1 gap_try2 gap_try3 gap_node_def)
qed

lemma gap_config_sel [simp]:
  "RetryPeriod (gap_config L) = 2 * Second" "RenewDeadline (gap_config L) = 14 * Second"
  "LeaseDuration (gap_config L) = 15 * Second"
  by (simp_all add: gap_config_def demo_config_def)

text \<open>A step of the run, for electors that are configured so and attempts that take no time.\<close>

definition gap_on_time :: "(nat \<Rightarrow> mode) \<Rightarrow> int \<Rightarrow> bool" where
  "gap_on_time md t \<longleftrightarrow> (\<forall>j d. expires (14 * Second) (2 * Second) (md j) = Some d \<longrightarrow> t \<le> d)"

lemma gap_step:
  assumes reach: "led run_ident same_clocks 0 \<lparr>net = at_rest S L, mode = md\<rparr>"
    and cfg: "\<And>j. config (node S j) = gap_config net_lock" and t: "now_g S \<le> t"
    and reads: "reads_within id (now_g S) t (le_clock (node S i)) (le_clock (snd (run_try S i)))"
    and fresh: "fresh_write S (snd (run_try S i))" and awake: "\<And>t. md i \<noteq> Resting t"
    and e: "fst (run_try S i) \<Longrightarrow> mono_of (attempt_time (node S i)) = t"
    and time: "gap_on_time md t" "fst (run_try S i) \<Longrightarrow> gap_on_time (md(i := after_success t (md i))) t"
  shows "\<exists>L'. led run_ident same_clocks 0 \<lparr>net = at_rest (gap_next S i t) L',
           mode = (if fst (run_try S i) then md(i := after_success t (md i)) else md)\<rparr>"
proof -
  have try_eq: "tryAcquireOrRenew None (ready S i False NoFault) = (fst (run_try S i), snd (run_try S i))"
    by (simp add: run_try_def)
  have "on_time same_clocks S md' t = gap_on_time md' t" for md'
    by (simp add: on_time_def gap_on_time_def cfg)
  moreover have "reads_within (moment same_clocks i) (now_g S) t (le_clock (node S i)) (le_clock (snd (run_try S i)))"
    using reads by (simp add: reads_within_def)
  ultimately show ?thesis
    using l_attempt [OF wf_run_ident same_clocks_sel(4) reach try_eq t _ fresh awake, of t] e time
    unfolding gap_next_def by simp
qed

lemmas gap_eval = gap1_sel gap2_sel gap3_sel gap_try1 gap_try2 gap_try3 gap_try4 reads_within_def fresh_write_def
  gap_clock_def mono_of_def attempt_time_def gap_on_time_def gap_node_def Second_def Millisecond_def

lemma gap_reachable1:
  "\<exists>L. led run_ident same_clocks 0 \<lparr>net = at_rest gap1 L, mode = (\<lambda>_. Candidate)(2 := Renewing 0)\<rparr>"
proof -
  have "led run_ident same_clocks 0 \<lparr>net = at_rest gap0 {}, mode = (\<lambda>_. Candidate)\<rparr>"
    by (rule lreachable.start) (simp_all add: init_isystem_def init_gap0)
  moreover have "now_g gap0 = 0" "node gap0 = gap_node" "store gap0 = None" "hist gap0 = {}" by (simp_all add: gap0_def)
  ultimately show ?thesis
    using gap_step [of gap0 "{}" "\<lambda>_. Candidate" 0 2] gap_config_of(1) unfolding gap1_def
    by (simp add: gap_eval)
qed

lemma gap_reachable2:
  "\<exists>L. led run_ident same_clocks 0
     \<lparr>net = at_rest gap2 L, mode = (\<lambda>_. Candidate)(2 := Resting Millisecond)\<rparr>"
proof -
  obtain L where "led run_ident same_clocks 0
      \<lparr>net = at_rest gap1 L, mode = (\<lambda>_. Candidate)(2 := Renewing 0)\<rparr>"
    using gap_reachable1 ..
  then show ?thesis
    using gap_step [of gap1 L "(\<lambda>_. Candidate)(2 := Renewing 0)" Millisecond 2] gap_config_of(2) unfolding gap2_def
    by (simp add: gap_eval gap_renewed_def run_record_def)
qed

lemma gap_reachable3:
  "\<exists>L. led run_ident same_clocks 0
     \<lparr>net = at_rest gap3 L, mode = (\<lambda>_. Candidate)(2 := Resting Millisecond)\<rparr>"
proof -
  obtain L where "led run_ident same_clocks 0
      \<lparr>net = at_rest gap2 L, mode = (\<lambda>_. Candidate)(2 := Resting Millisecond)\<rparr>"
    using gap_reachable2 ..
  then show ?thesis
    using gap_step [of gap2 L "(\<lambda>_. Candidate)(2 := Resting Millisecond)" Millisecond 3] gap_config_of(3)
    unfolding gap3_def by (simp add: gap_eval)
qed

text \<open>Elector 2 rests until 2.001 s and begins its next round.\<close>

lemma gap_reachable3':
  "\<exists>L. led run_ident same_clocks 0
     \<lparr>net = at_rest gap3' L, mode = (\<lambda>_. Candidate)(2 := Renewing (2001 * Millisecond))\<rparr>"
proof -
  let ?rest = "(\<lambda>_. Candidate)(2 := Resting Millisecond)" and ?t = "2001 * Millisecond"
  obtain L where L: "led run_ident same_clocks 0 \<lparr>net = at_rest gap3 L, mode = ?rest\<rparr>"
    using gap_reachable3 ..
  have "isys_step same_clocks (at_rest gap3 L) (at_rest gap3' L)"
    using isys_step.pass [of "at_rest gap3 L" ?t same_clocks] by (simp add: gap3_sel Millisecond_def)
  then have "lstep inet isys_step same_clocks 0 \<lparr>net = at_rest gap3 L, mode = ?rest\<rparr> \<lparr>net = at_rest gap3' L, mode = ?rest\<rparr>"
    using lstep.quiet [of isys_step same_clocks "\<lparr>net = at_rest gap3 L, mode = ?rest\<rparr>" "at_rest gap3' L" inet 0]
    by (simp add: in_time_def gap_config_of Second_def Millisecond_def)
  moreover have "lstep inet isys_step same_clocks 0 \<lparr>net = at_rest gap3' L, mode = ?rest\<rparr>
      \<lparr>net = at_rest gap3' L, mode = (\<lambda>_. Candidate)(2 := Renewing ?t)\<rparr>"
    using lstep.wake [of "\<lparr>net = at_rest gap3' L, mode = ?rest\<rparr>" 2 Millisecond same_clocks inet ?t _ isys_step 0]
    by (simp add: in_time_def gap_config_of Second_def Millisecond_def)
  ultimately show ?thesis using L lreachable.step by blast
qed

lemma gap_reachable4:
  "\<exists>L. led run_ident same_clocks 0 \<lparr>net = at_rest gap4 L,
     mode = (\<lambda>_. Candidate)(2 := Renewing (2001 * Millisecond), 3 := Renewing (15001 * Millisecond))\<rparr>"
proof -
  obtain L where "led run_ident same_clocks 0
      \<lparr>net = at_rest gap3' L, mode = (\<lambda>_. Candidate)(2 := Renewing (2001 * Millisecond))\<rparr>"
    using gap_reachable3' ..
  then show ?thesis
    using gap_step [of gap3' L "(\<lambda>_. Candidate)(2 := Renewing (2001 * Millisecond))" "15001 * Millisecond" 3]
      gap_config_of(4) unfolding gap4_def
    by (simp add: gap_eval gap_try4 [unfolded Millisecond_def, simplified] gap_renewed_def run_record_def)
qed

text \<open>
  C6. The check of \<^verbatim>\<open>New\<close> does not ensure one leader: it accepts a lease of 15 s, a renew
  deadline of 14 s and a retry period of 2 s, and two electors so configured, on clocks that
  agree and with attempts that take no time, can both lead at once. The retry period, during
  which a leader rests after a renewal, is not part of the check.
\<close>

theorem New_allows_two_leaders:
  "(\<exists>le. New oor mk fac clk s (gap_config net_lock) = Inr le) \<and>
   (\<exists>S. led run_ident same_clocks 0 S \<and> leading S 2 \<and> leading S 3 \<and>
      (\<forall>i. config (node (core (net S)) i) = gap_config net_lock))"
proof
  have "jitter_duration oor (RetryPeriod (gap_config net_lock)) < RenewDeadline (gap_config net_lock)"
    by (rule jitter_duration_le) (simp_all add: Second_def)
  then show "\<exists>le. New oor mk fac clk s (gap_config net_lock) = Inr le"
    by (simp add: New_def Let_def gap_config_def demo_config_def Second_def)
  obtain L where L: "led run_ident same_clocks 0 \<lparr>net = at_rest gap4 L,
      mode = (\<lambda>_. Candidate)(2 := Renewing (2001 * Millisecond), 3 := Renewing (15001 * Millisecond))\<rparr>"
    using gap_reachable4 ..
  have "config (node gap4 i) = gap_config net_lock" for i
    using gap_config_of(3,4) by (simp add: gap4_def gap_next_def gap_try4 gap_try3 gap_node_def)
  then show "\<exists>S. led run_ident same_clocks 0 S \<and> leading S 2 \<and> leading S 3 \<and>
      (\<forall>i. config (node (core (net S)) i) = gap_config net_lock)"
    using L by (intro exI) (auto simp: leading_def)
qed

section \<open>A leader with skewed clocks\<close>

text \<open>
  The clocks of \<open>Election_Safety\<close>, one of which runs at half the rate of the others: a lease of
  15 s leaves room for a renew deadline of 4 s, a retry period of 2 s and attempts of 1 s.
\<close>

definition skew_node :: "nat \<Rightarrow> net_state LeaderElector" where
  "skew_node i = (run_node i)\<lparr>config := (demo_config net_lock)\<lparr>RenewDeadline := 4 * Second\<rparr>\<rparr>"

definition skew0 :: system where
  "skew0 = run0\<lparr>node := skew_node\<rparr>"

lemma skew0_sel [simp]:
  "now_g skew0 = 0" "store skew0 = None" "hist skew0 = {}" "node skew0 = skew_node"
  by (simp_all add: skew0_def run0_def)

lemma skew_margin: "cfg_of N j = config (skew_node i) \<Longrightarrow> margin_ok inet run_clocks Second N j"
  by (simp add: margin_ok_def holdover_def lease_def leaseMs_def skew_node_def demo_config_def run_clocks_def
      Second_def Millisecond_def sdiv_nonneg)

lemma skew_try:
  "run_try skew0 2 = (True, (skew_node 2)\<lparr>observedRecord := run_record 2 0 0,
     observedTime := \<lparr>wall = 0, monotonic = Some 0\<rparr>, le_clock := run_clock\<lparr>tick := 2\<rparr>,
     lockState := \<lparr>base = \<lparr>me = run_ident 2, cell = Some (0, run_record 2 0 0), seen = Some 0\<rparr>,
        rfault = False, wfault = NoFault, stores_as = id\<rparr>\<rparr>)"
  by (simp add: skew0_def run0_def skew_node_def run_defs)

lemma skew_leader:
  "\<exists>S. led run_ident run_clocks Second S \<and> leading S 2 \<and>
     margin_ok inet run_clocks Second (net S) 2 \<and> margin_ok inet run_clocks Second (net S) 3"
proof -
  let ?le = "snd (run_try skew0 2)"
  have init: "init_system run_ident skew0"
    by (auto simp: init_system_def skew_node_def run_node_def wf_node_def demo_elector_def lock_def demo_config_def
        run_clock_def real_clock_def mono_of_def Second_def Millisecond_def skew0_def run0_def)
  have start: "led run_ident run_clocks Second \<lparr>net = at_rest skew0 {}, mode = (\<lambda>_. Candidate)\<rparr>"
    by (rule lreachable.start) (simp_all add: init_isystem_def init)
  have att: "tryAcquireOrRenew None (ready skew0 2 False NoFault) = (True, ?le)"
    using skew_try by (simp add: run_try_def)
  have reads: "mono_of (attempt_time (skew_node 2)) = 0" "le_clock (skew_node 2) = run_clock"
    by (simp_all add: skew_node_def run_node_def attempt_time_def run_clock_def mono_of_def)
  have rw: "reads_within (moment run_clocks 2) (now_g skew0) 0 (le_clock (node skew0 2)) (le_clock ?le)"
    by (simp add: skew_try reads) (simp add: reads_within_def run_clock_def mono_of_def)
  have fw: "fresh_write skew0 ?le" by (simp add: skew_try fresh_write_def)
  have ot: "on_time run_clocks skew0 (\<lambda>_. Candidate) 0"
    "on_time run_clocks skew0 ((\<lambda>_. Candidate)(2 := Renewing 0)) 0"
    by (auto simp: on_time_def skew_node_def Second_def split: if_splits)
  have "reads_at run_clocks 2 0 0" by (simp add: reads_at_def)
  then obtain L where L: "led run_ident run_clocks Second
      \<lparr>net = at_rest (after_turn skew0 2 ?le (Some 0) 0) L, mode = (\<lambda>_. Candidate)(2 := Renewing 0)\<rparr>"
    using l_attempt [OF wf_run_ident wf_run_clocks start att _ rw fw, of 0] ot reads
    by (auto simp: Second_def)
  let ?N = "at_rest (after_turn skew0 2 ?le (Some 0) 0) L"
  have "margin_ok inet run_clocks Second ?N 2" "margin_ok inet run_clocks Second ?N 3"
    by (rule skew_margin [of _ _ 2], simp add: skew_try) (rule skew_margin [of _ _ 3], simp)
  then show ?thesis using L by (intro exI) (auto simp: leading_def)
qed


end
