(* ===== verification/S3_Lock.thy ===== *)
theory S3_Lock
  imports Elector_Properties
begin

text \<open>
  \<^verbatim>\<open>s3/s3.go\<close>: the lock stored as a JSON object in an S3 bucket. The client
  (\<^verbatim>\<open>minio\<close>) is a parameter; what it promises is \<open>object_store\<close>. \<^verbatim>\<open>set\<close> is the
  composition of its two requests, the check of the entity tag and the upload, because
  another client can act between them. The mutex makes the operations of one client sequential.
\<close>

section \<open>Data and operations\<close>

text \<open>
  The client: \<^verbatim>\<open>StatObject\<close> and \<^verbatim>\<open>PutObject\<close> return an entity tag and an error,
  \<^verbatim>\<open>GetObject\<close> an error or what \<^verbatim>\<open>io.ReadAll\<close> reads from the object.
\<close>

record 'c MinioClient =
  StatObject :: "ctx \<Rightarrow> string \<Rightarrow> string \<Rightarrow> 'c \<Rightarrow> (string \<times> go_error option) \<times> 'c"
  GetObject :: "ctx \<Rightarrow> string \<Rightarrow> string \<Rightarrow> 'c \<Rightarrow> (go_error + bytes \<times> go_error option) \<times> 'c"
  PutObject :: "ctx \<Rightarrow> string \<Rightarrow> string \<Rightarrow> bytes \<Rightarrow> string \<Rightarrow> 'c \<Rightarrow> (string \<times> go_error option) \<times> 'c"

record 'c s3_lock =
  s3_c :: "'c MinioClient"
  s3_id :: string
  s3_name :: string
  bucket :: string
  s3_key :: string
  etag :: string
  s3_store :: 'c

text \<open>\<^verbatim>\<open>New\<close>; \<open>mk\<close> stands for \<^verbatim>\<open>minio.New\<close> on the endpoint and the options.\<close>

definition s3_New ::
    "(go_error + 'c MinioClient) \<Rightarrow> string \<Rightarrow> string \<Rightarrow> string \<Rightarrow> string \<Rightarrow> 'c \<Rightarrow>
     go_error + 'c s3_lock" where
  "s3_New mk buck prefix name i s =
     (case mk of
        Inl err \<Rightarrow> Inl err
      | Inr c \<Rightarrow>
          Inr \<lparr>s3_c = c, s3_id = i, s3_name = name, bucket = buck,
               s3_key = prefix @ ''/'' @ name @ ''.lock.json'', etag = [], s3_store = s\<rparr>)"

text \<open>\<^verbatim>\<open>errors.As(err, &e)\<close> for a \<^verbatim>\<open>minio.ErrorResponse\<close>, and its status code.\<close>

fun response_code :: "go_error \<Rightarrow> int option" where
  "response_code (ErrResponse n m) = Some n"
| "response_code (ErrWrap m e) = response_code e"
| "response_code _ = None"

definition isNotFound :: "go_error option \<Rightarrow> bool" where
  "isNotFound err =
     (case err of
        None \<Rightarrow> False
      | Some e \<Rightarrow> (case response_code e of Some n \<Rightarrow> n = 404 | None \<Rightarrow> False))"

definition s3_Get :: "ctx \<Rightarrow> 'c s3_lock \<Rightarrow> (go_error + Record \<times> bytes) \<times> 'c s3_lock" where
  "s3_Get c l =
     (let ((tag, err), s) = StatObject (s3_c l) c (bucket l) (s3_key l) (s3_store l);
          l = l\<lparr>s3_store := s\<rparr>
      in if isNotFound err then (Inl (ErrWrap (s3_key l) ErrNotExist), l)
         else
           let l = l\<lparr>etag := tag\<rparr>;
               (o', s) = GetObject (s3_c l) c (bucket l) (s3_key l) (s3_store l);
               l = l\<lparr>s3_store := s\<rparr>
           in case o' of
                Inl err \<Rightarrow> (Inl err, l)
              | Inr (b, err) \<Rightarrow>
                  (case json_Unmarshal b zero_Record of
                     Inl err \<Rightarrow> (Inl err, l)
                   | Inr ler \<Rightarrow> (Inr (ler, b), l)))"

definition s3_check :: "ctx \<Rightarrow> 'c s3_lock \<Rightarrow> go_error option \<times> 'c s3_lock" where
  "s3_check c l =
     (let ((tag, err), s) = StatObject (s3_c l) c (bucket l) (s3_key l) (s3_store l);
          l = l\<lparr>s3_store := s\<rparr>
      in if err \<noteq> None \<and> \<not> isNotFound err then (err, l)
         else if tag \<noteq> etag l
         then (Some (ErrText (''etag mismatch: '' @ tag @ '' != '' @ etag l)), l)
         else (None, l))"

definition s3_upload :: "ctx \<Rightarrow> Record \<Rightarrow> 'c s3_lock \<Rightarrow> go_error option \<times> 'c s3_lock" where
  "s3_upload c ler l =
     (let ((tag, err), s) =
            PutObject (s3_c l) c (bucket l) (s3_key l) (json_bytes ler) ''application/json'' (s3_store l);
          l = l\<lparr>s3_store := s\<rparr>
      in case err of
           Some e \<Rightarrow> (Some e, l)
         | None \<Rightarrow> (None, l\<lparr>etag := tag\<rparr>))"

definition s3_set :: "ctx \<Rightarrow> Record \<Rightarrow> 'c s3_lock \<Rightarrow> go_error option \<times> 'c s3_lock" where
  "s3_set c ler l =
     (case s3_check c l of
        (Some e, l) \<Rightarrow> (Some e, l)
      | (None, l) \<Rightarrow> s3_upload c ler l)"

definition s3_Create :: "ctx \<Rightarrow> Record \<Rightarrow> 'c s3_lock \<Rightarrow> go_error option \<times> 'c s3_lock" where
  "s3_Create = s3_set"

definition s3_Update :: "ctx \<Rightarrow> Record \<Rightarrow> 'c s3_lock \<Rightarrow> go_error option \<times> 'c s3_lock" where
  "s3_Update = s3_set"

definition s3_Lock :: "'c s3_lock Lock" where
  "s3_Lock =
     \<lparr>Get = s3_Get, Create = s3_Create, Update = s3_Update, RecordEvent = (\<lambda>_ l. l),
      Identity = s3_id, Describe = (\<lambda>l. ''s3/'' @ s3_name l)\<rparr>"

section \<open>The object store\<close>

text \<open>
  The documented behaviour of the store for one object, over its entity tag and content
  (\<open>lookup\<close>): a request sees the current object; an object that is not there is reported with
  status 404, and no tag comes with an error; an upload that succeeds replaces the object and
  gives it a non-empty tag; one that fails has either no effect or its whole effect.
\<close>

definition stat_doc ::
    "'c MinioClient \<Rightarrow> string \<Rightarrow> string \<Rightarrow> ('c \<Rightarrow> (string \<times> bytes) option) \<Rightarrow> bool" where
  "stat_doc C bu k lookup \<longleftrightarrow>
     (\<forall>c s tag err s'. StatObject C c bu k s = ((tag, err), s') \<longrightarrow>
        lookup s' = lookup s \<and>
        (err = None \<longrightarrow> (\<exists>b. lookup s = Some (tag, b))) \<and>
        (err \<noteq> None \<longrightarrow> tag = []) \<and> (isNotFound err \<longrightarrow> lookup s = None))"

definition get_doc ::
    "'c MinioClient \<Rightarrow> string \<Rightarrow> string \<Rightarrow> ('c \<Rightarrow> (string \<times> bytes) option) \<Rightarrow> bool" where
  "get_doc C bu k lookup \<longleftrightarrow>
     (\<forall>c s x s'. GetObject C c bu k s = (x, s') \<longrightarrow>
        lookup s' = lookup s \<and>
        (\<forall>b. x = Inr (b, None) \<longrightarrow> (\<exists>tag. lookup s = Some (tag, b))))"

definition put_doc ::
    "'c MinioClient \<Rightarrow> string \<Rightarrow> string \<Rightarrow> ('c \<Rightarrow> (string \<times> bytes) option) \<Rightarrow> bool" where
  "put_doc C bu k lookup \<longleftrightarrow>
     (\<forall>c s b t tag err s'. PutObject C c bu k b t s = ((tag, err), s') \<longrightarrow>
        (err = None \<longrightarrow> lookup s' = Some (tag, b)) \<and>
        (err \<noteq> None \<longrightarrow> lookup s' = lookup s \<or> (\<exists>tag'. lookup s' = Some (tag', b))))"

definition object_store ::
    "'c MinioClient \<Rightarrow> string \<Rightarrow> string \<Rightarrow> ('c \<Rightarrow> (string \<times> bytes) option) \<Rightarrow> bool" where
  "object_store C bu k lookup \<longleftrightarrow>
     stat_doc C bu k lookup \<and> get_doc C bu k lookup \<and> put_doc C bu k lookup \<and>
     (\<forall>s tag b. lookup s = Some (tag, b) \<longrightarrow> tag \<noteq> [])"

text \<open>A store whose requests do not fail.\<close>

definition available ::
    "'c MinioClient \<Rightarrow> string \<Rightarrow> string \<Rightarrow> ('c \<Rightarrow> (string \<times> bytes) option) \<Rightarrow> bool" where
  "available C bu k lookup \<longleftrightarrow>
     (\<forall>c s. case lookup s of
        None \<Rightarrow> isNotFound (snd (fst (StatObject C c bu k s)))
      | Some (tag, b) \<Rightarrow> fst (StatObject C c bu k s) = (tag, None) \<and> fst (GetObject C c bu k s) = Inr (b, None)) \<and>
     (\<forall>c s b t. snd (fst (PutObject C c bu k b t s)) = None)"

definition s3_on :: "('c \<Rightarrow> (string \<times> bytes) option) \<Rightarrow> 'c s3_lock \<Rightarrow> bool" where
  "s3_on lookup l \<longleftrightarrow> object_store (s3_c l) (bucket l) (s3_key l) lookup"

definition s3_ready :: "'c s3_lock \<Rightarrow> bool" where
  "s3_ready l \<longleftrightarrow> (\<exists>lookup. s3_on lookup l \<and> available (s3_c l) (bucket l) (s3_key l) lookup)"

section \<open>The contract\<close>

lemma s3_Lock_sel [simp]:
  "Get s3_Lock = s3_Get" "Create s3_Lock = s3_set" "Update s3_Lock = s3_set"
  "RecordEvent s3_Lock m l = l" "Identity s3_Lock = s3_id"
  by (simp_all add: s3_Lock_def s3_Create_def s3_Update_def)

definition same_lock :: "'c s3_lock \<Rightarrow> 'c s3_lock \<Rightarrow> bool" where
  "same_lock l l' \<longleftrightarrow>
     s3_c l' = s3_c l \<and> s3_id l' = s3_id l \<and> bucket l' = bucket l \<and> s3_key l' = s3_key l"

lemma s3_Get_same: "s3_Get c l = (x, l') \<Longrightarrow> same_lock l l'"
  by (auto simp: s3_Get_def same_lock_def Let_def split: prod.splits sum.splits if_splits)

lemma s3_check_same: "s3_check c l = (x, l') \<Longrightarrow> same_lock l l' \<and> etag l' = etag l"
  by (auto simp: s3_check_def same_lock_def Let_def split: prod.splits if_splits)

lemma s3_upload_same: "s3_upload c r l = (x, l') \<Longrightarrow> same_lock l l'"
  by (auto simp: s3_upload_def same_lock_def Let_def split: prod.splits option.splits)

lemma s3_set_same:
  assumes "s3_set c r l = (x, l')"
  shows "same_lock l l'"
  using assms s3_check_same [of c l] s3_upload_same [of c r]
  by (fastforce simp: s3_set_def same_lock_def split: prod.splits option.splits)

lemma same_lock_on: "same_lock l l' \<Longrightarrow> s3_on lookup l' = s3_on lookup l"
  by (simp add: same_lock_def s3_on_def)

lemma s3_statD:
  assumes "s3_on lookup l" and "StatObject (s3_c l) c (bucket l) (s3_key l) s = ((tag, err), s')"
  shows "lookup s' = lookup s" and "err = None \<Longrightarrow> \<exists>b. lookup s = Some (tag, b)"
    and "err \<noteq> None \<Longrightarrow> tag = []" and "isNotFound err \<Longrightarrow> lookup s = None"
proof -
  have "stat_doc (s3_c l) (bucket l) (s3_key l) lookup"
    using assms(1) by (simp add: s3_on_def object_store_def)
  note d = this [unfolded stat_doc_def, rule_format, OF assms(2)]
  from d show "lookup s' = lookup s" "err = None \<Longrightarrow> \<exists>b. lookup s = Some (tag, b)"
    "err \<noteq> None \<Longrightarrow> tag = []" "isNotFound err \<Longrightarrow> lookup s = None"
    by blast+
qed

lemma s3_check_outcome:
  assumes "s3_on lookup l" and "s3_check c l = (e, l')"
  shows "lookup (s3_store l') = lookup (s3_store l)"
    and "e = None \<Longrightarrow> etag l = (case lookup (s3_store l) of None \<Rightarrow> [] | Some (tag, b) \<Rightarrow> tag)"
proof -
  obtain tag err s where st: "StatObject (s3_c l) c (bucket l) (s3_key l) (s3_store l) = ((tag, err), s)"
    by (metis surj_pair)
  note spec = s3_statD [OF assms(1) st]
  show "lookup (s3_store l') = lookup (s3_store l)"
    using spec(1) assms(2) st by (auto simp: s3_check_def Let_def split: if_splits)
  show "etag l = (case lookup (s3_store l) of None \<Rightarrow> [] | Some (tag, b) \<Rightarrow> tag)" if "e = None"
  proof (cases err)
    case None
    then show ?thesis using that spec(2) assms(2) st by (auto simp: s3_check_def Let_def split: if_splits)
  next
    case (Some x)
    then have "isNotFound err" "tag = etag l"
      using that assms(2) st by (auto simp: s3_check_def Let_def split: if_splits)
    then show ?thesis using Some spec(3,4) by simp
  qed
qed

lemma s3_upload_outcome:
  assumes "s3_on lookup l" and "s3_upload c r l = (None, l')"
  shows "lookup (s3_store l') = Some (etag l', json_bytes r)"
proof -
  obtain tag err s where "PutObject (s3_c l) c (bucket l) (s3_key l) (json_bytes r) ''application/json''
      (s3_store l) = ((tag, err), s)" by (metis surj_pair)
  moreover have "put_doc (s3_c l) (bucket l) (s3_key l) lookup"
    using assms(1) by (simp add: s3_on_def object_store_def)
  ultimately show ?thesis using assms(2)
    by (auto simp: s3_upload_def put_doc_def Let_def split: option.splits)
qed

lemma s3_set_success:
  assumes "s3_on lookup l" and "s3_set c r l = (None, l')"
  shows "lookup (s3_store l') = Some (etag l', json_bytes r)"
    and "etag l = (case lookup (s3_store l) of None \<Rightarrow> [] | Some (tag, b) \<Rightarrow> tag)"
proof -
  obtain l1 where c: "s3_check c l = (None, l1)" and u: "s3_upload c r l1 = (None, l')"
    using assms(2) by (auto simp: s3_set_def split: prod.splits option.splits)
  have "s3_on lookup l1" using s3_check_same [OF c] same_lock_on assms(1) by blast
  with u show "lookup (s3_store l') = Some (etag l', json_bytes r)" by (rule s3_upload_outcome [rotated])
  show "etag l = (case lookup (s3_store l) of None \<Rightarrow> [] | Some (tag, b) \<Rightarrow> tag)"
    using s3_check_outcome(2) [OF assms(1) c] by simp
qed

definition s3_good :: "Record \<Rightarrow> bool" where
  "s3_good r \<longleftrightarrow> wf_Record r \<and> valid_utf8 (HolderIdentity r)"

lemma s3_read_back:
  assumes "s3_on lookup l" and "available (s3_c l) (bucket l) (s3_key l) lookup" and "s3_good r"
    and "lookup (s3_store l) = Some (tag, json_bytes r)"
  shows "\<exists>l'. s3_Get c l = (Inr (r, json_bytes r), l')"
proof -
  have av: "lookup s = Some (tag, b) \<Longrightarrow>
      fst (StatObject (s3_c l) c (bucket l) (s3_key l) s) = (tag, None) \<and>
      fst (GetObject (s3_c l) c (bucket l) (s3_key l) s) = Inr (b, None)" for s tag b
    using assms(2) by (auto simp: available_def split: option.splits)
  obtain s1 where st: "StatObject (s3_c l) c (bucket l) (s3_key l) (s3_store l) = ((tag, None), s1)"
    using av [OF assms(4)] by (metis prod.collapse)
  then have "lookup s1 = Some (tag, json_bytes r)" using s3_statD(1) [OF assms(1) st] assms(4) by simp
  then obtain s2 where "GetObject (s3_c l) c (bucket l) (s3_key l) s1 = (Inr (json_bytes r, None), s2)"
    using av by (metis prod.collapse)
  moreover have "json_Unmarshal (json_bytes r) zero_Record = Inr r"
    using assms(3) by (simp add: s3_good_def json_Unmarshal_Marshal)
  ultimately show ?thesis using st by (simp add: s3_Get_def isNotFound_def)
qed

interpretation s3: lock_store s3_Lock id s3_good s3_ready
proof
  fix l :: "'a s3_lock" and c r l' m
  show "Identity s3_Lock (snd (Get s3_Lock c l)) = Identity s3_Lock l"
    using s3_Get_same [of c l] by (cases "s3_Get c l") (simp add: same_lock_def)
  show "Identity s3_Lock (snd (Create s3_Lock c r l)) = Identity s3_Lock l"
    "Identity s3_Lock (snd (Update s3_Lock c r l)) = Identity s3_Lock l"
    using s3_set_same [of c r l] by (cases "s3_set c r l"; simp add: same_lock_def)+
next
  fix l :: "'a s3_lock" and r c l' c'
  assume "s3_ready l" "s3_good r"
  then obtain lookup where on: "s3_on lookup l" "available (s3_c l) (bucket l) (s3_key l) lookup"
    by (auto simp: s3_ready_def)
  have read: "\<exists>raw s''. s3_Get c' l' = (Inr (r, raw), s'')" if w: "s3_set c r l = (None, l')"
    using s3_read_back [of lookup l' r _ c'] s3_set_success(1) [OF on(1) w] s3_set_same [OF w] on
      \<open>s3_good r\<close> by (fastforce simp: same_lock_def s3_on_def)
  then show "Create s3_Lock c r l = (None, l') \<Longrightarrow> \<exists>raw s''. Get s3_Lock c' l' = (Inr (id r, raw), s'')"
    by simp
  show "Update s3_Lock c r l = (None, l') \<Longrightarrow> \<exists>raw s''. Get s3_Lock c' l' = (Inr (id r, raw), s'')"
    using read by simp
qed simp_all

section \<open>A store without failures\<close>

abbreviation tag_of :: "(string \<times> bytes) option \<Rightarrow> string" where
  "tag_of x \<equiv> (case x of None \<Rightarrow> [] | Some (tag, b) \<Rightarrow> tag)"

definition s3_up :: "('c \<Rightarrow> (string \<times> bytes) option) \<Rightarrow> 'c s3_lock \<Rightarrow> bool" where
  "s3_up lookup l \<longleftrightarrow> s3_on lookup l \<and> available (s3_c l) (bucket l) (s3_key l) lookup"

lemma same_lock_up: "same_lock l l' \<Longrightarrow> s3_up lookup l' = s3_up lookup l"
  by (simp add: same_lock_def s3_up_def s3_on_def)

lemma s3_up_store [simp]: "s3_up lookup (l\<lparr>s3_store := s\<rparr>) = s3_up lookup l"
  by (simp add: s3_up_def s3_on_def)

lemma s3_up_stat:
  assumes "s3_up lookup l"
  obtains err s' where "StatObject (s3_c l) c (bucket l) (s3_key l) s = ((tag_of (lookup s), err), s')"
    and "lookup s' = lookup s" and "err = None \<or> isNotFound err" and "isNotFound err = (lookup s = None)"
proof -
  obtain tag err s' where st: "StatObject (s3_c l) c (bucket l) (s3_key l) s = ((tag, err), s')"
    by (metis surj_pair)
  have on: "s3_on lookup l" using assms by (simp add: s3_up_def)
  have av: "case lookup s of None \<Rightarrow> isNotFound err | Some (tag', b) \<Rightarrow> (tag, err) = (tag', None)"
    using assms st unfolding s3_up_def available_def
    by (metis (no_types, lifting) case_prod_beta fst_conv option.case_eq_if snd_conv)
  show thesis
  proof (cases "lookup s")
    case None
    then have "isNotFound err" using av by simp
    moreover from this have "err \<noteq> None" by (cases err) (simp_all add: isNotFound_def)
    ultimately show thesis using that [of err s'] st None s3_statD [OF on st] by simp
  next
    case (Some x)
    then have "tag = fst x" "err = None" using av by (auto split: prod.splits)
    then show thesis using that [of err s'] st Some s3_statD(1) [OF on st]
      by (simp add: isNotFound_def split: prod.splits)
  qed
qed

lemma s3_up_check:
  assumes "s3_up lookup l"
  obtains e l' where "s3_check c l = (e, l')" and "same_lock l l'" and "etag l' = etag l"
    and "lookup (s3_store l') = lookup (s3_store l)"
    and "e = None \<longleftrightarrow> etag l = tag_of (lookup (s3_store l))"
proof -
  obtain err s' where st: "StatObject (s3_c l) c (bucket l) (s3_key l) (s3_store l) =
      ((tag_of (lookup (s3_store l)), err), s')" "lookup s' = lookup (s3_store l)"
      "err = None \<or> isNotFound err"
    using s3_up_stat [OF assms] by metis
  obtain e l' where ck: "s3_check c l = (e, l')" by (meson surj_pair)
  then show thesis
    using that [OF ck] st s3_check_same [OF ck]
    by (auto simp: s3_check_def Let_def split: if_splits)
qed

lemma s3_up_upload:
  assumes "s3_up lookup l"
  obtains l' where "s3_upload c r l = (None, l')" and "same_lock l l'"
    and "lookup (s3_store l') = Some (etag l', json_bytes r)"
proof -
  have "snd (fst (PutObject (s3_c l) c (bucket l) (s3_key l) (json_bytes r) ''application/json''
      (s3_store l))) = None"
    using assms by (simp add: s3_up_def available_def)
  then obtain l' where up: "s3_upload c r l = (None, l')"
    by (simp add: s3_upload_def Let_def split_beta)
  have "s3_on lookup l" using assms by (simp add: s3_up_def)
  from s3_upload_outcome [OF this up] s3_upload_same [OF up] up show thesis by (intro that)
qed

section \<open>Properties\<close>

text \<open>
  C23. The compare of the S3 lock: on an available store a write succeeds exactly when the
  object still has the entity tag that the client last read or wrote (no object, for a client
  that knows none); then the object holds the record, and otherwise it is left alone.
\<close>

theorem s3_set_guard:
  assumes "s3_up lookup l" and "s3_set c r l = (e, l')"
  shows "(e = None \<longleftrightarrow> etag l = tag_of (lookup (s3_store l))) \<and>
         lookup (s3_store l') =
           (if e = None then Some (etag l', json_bytes r) else lookup (s3_store l))"
proof -
  obtain e1 l1 where ck: "s3_check c l = (e1, l1)" "same_lock l l1"
      "lookup (s3_store l1) = lookup (s3_store l)" "e1 = None \<longleftrightarrow> etag l = tag_of (lookup (s3_store l))"
    using s3_up_check [OF assms(1)] by metis
  show ?thesis
  proof (cases e1)
    case None
    obtain l2 where "s3_upload c r l1 = (None, l2)" "lookup (s3_store l2) = Some (etag l2, json_bytes r)"
      using s3_up_upload [of lookup l1 c r] same_lock_up [OF ck(2)] assms(1) by metis
    then show ?thesis using None ck assms(2) by (auto simp: s3_set_def)
  next
    case (Some x)
    then show ?thesis using ck assms(2) by (auto simp: s3_set_def)
  qed
qed

text \<open>An example store: the object with a tag that counts the uploads.\<close>

definition demo_minio :: "(nat \<times> bytes option) MinioClient" where
  "demo_minio =
     \<lparr>StatObject = (\<lambda>c b k s. (case snd s of None \<Rightarrow> ([], Some (ErrResponse 404 ''not found''))
          | Some _ \<Rightarrow> (replicate (Suc (fst s)) (CHR ''t''), None), s)),
      GetObject = (\<lambda>c b k s. (case snd s of None \<Rightarrow> Inl (ErrResponse 404 ''not found'') | Some x \<Rightarrow> Inr (x, None), s)),
      PutObject = (\<lambda>c b k x t s. let n = Suc (fst s) in
          ((replicate (Suc n) (CHR ''t''), None), (n, Some x)))\<rparr>"

definition demo_object :: "nat \<times> bytes option \<Rightarrow> (string \<times> bytes) option" where
  "demo_object s = map_option (Pair (replicate (Suc (fst s)) (CHR ''t''))) (snd s)"

definition demo_s3 :: "string \<Rightarrow> string \<Rightarrow> (nat \<times> bytes option) s3_lock" where
  "demo_s3 i tag =
     \<lparr>s3_c = demo_minio, s3_id = i, s3_name = ''n'', bucket = ''b'', s3_key = ''p/n.lock.json'',
      etag = tag, s3_store = (0, None)\<rparr>"

lemma demo_s3_up [simp]: "s3_up demo_object (demo_s3 i tag)"
proof -
  have "stat_doc demo_minio b k demo_object" "get_doc demo_minio b k demo_object"
    "put_doc demo_minio b k demo_object" for b k
    by (auto simp: stat_doc_def get_doc_def put_doc_def demo_minio_def demo_object_def isNotFound_def
        Let_def split: option.splits)
  moreover have "available demo_minio b k demo_object" for b k
    by (auto simp: available_def demo_minio_def demo_object_def isNotFound_def Let_def split: option.splits)
  ultimately show ?thesis
    by (auto simp: s3_up_def s3_on_def object_store_def demo_s3_def demo_object_def)
qed

theorem s3_set_guard_witness:
  "fst (s3_set None (demo_record ''a'') (demo_s3 ''a'' [])) = None \<and>
   fst (s3_set None (demo_record ''a'') (demo_s3 ''a'' ''x'')) \<noteq> None"
proof -
  have "demo_object (s3_store (demo_s3 i tag)) = None" "etag (demo_s3 i tag) = tag" for i tag
    by (simp_all add: demo_s3_def demo_object_def)
  then show ?thesis
    using s3_set_guard [OF demo_s3_up prod.collapse [symmetric], of None "demo_record ''a''" "''a''" "[]"]
      s3_set_guard [OF demo_s3_up prod.collapse [symmetric], of None "demo_record ''a''" "''a''" "''x''"]
    by simp
qed

text \<open>
  C24. Round trip: what was written successfully is what the next read returns, record and
  bytes, by the same or another client.
\<close>

theorem s3_write_read:
  assumes "s3_up lookup l" and "s3_set c r l = (None, l')"
    and "wf_Record r" and "valid_utf8 (HolderIdentity r)"
  shows "fst (s3_Get c' (l'\<lparr>etag := tag, s3_id := i\<rparr>)) = Inr (r, json_bytes r)"
proof -
  let ?l = "l'\<lparr>etag := tag, s3_id := i\<rparr>"
  have on: "s3_on lookup l" using assms(1) by (simp add: s3_up_def)
  have "s3_on lookup ?l" "available (s3_c ?l) (bucket ?l) (s3_key ?l) lookup"
    using assms(1) s3_set_same [OF assms(2)] by (simp_all add: s3_up_def s3_on_def same_lock_def)
  then obtain l2 where "s3_Get c' ?l = (Inr (r, json_bytes r), l2)"
    using s3_read_back [of lookup ?l r "etag l'" c'] s3_set_success(1) [OF on assms(2)] assms(3,4)
    by (auto simp: s3_good_def)
  then show ?thesis by simp
qed

theorem s3_write_read_witness:
  "fst (s3_Get None ((snd (s3_set None (demo_record ''a'') (demo_s3 ''a'' [])))\<lparr>etag := [], s3_id := ''b''\<rparr>)) =
     Inr (demo_record ''a'', json_bytes (demo_record ''a''))"
proof (rule s3_write_read [OF demo_s3_up])
  show "s3_set None (demo_record ''a'') (demo_s3 ''a'' []) =
      (None, snd (s3_set None (demo_record ''a'') (demo_s3 ''a'' [])))"
    by (simp add: s3_set_def s3_check_def s3_upload_def demo_s3_def demo_minio_def isNotFound_def Let_def)
qed (simp_all add: demo_record_def wf_Record_def is_i64_def rune_size_def)

text \<open>
  C25. The compare and the write of the S3 lock are two requests, and two clients that both know
  the current object can both pass the check before either of them writes: then both writes
  succeed, and the second replaces the record of the first, which believes it holds the lock.
\<close>

theorem s3_set_race:
  assumes "s3_up lookup l1" and "same_lock l1 (l2\<lparr>s3_id := s3_id l1\<rparr>)"
    and "etag l1 = tag_of (lookup (s3_store l1))" and "etag l2 = etag l1"
  shows "let (e1, a) = s3_check c l1;
             (e2, b) = s3_check c (l2\<lparr>s3_store := s3_store a\<rparr>);
             (e3, a') = s3_upload c r1 (a\<lparr>s3_store := s3_store b\<rparr>);
             (e4, b') = s3_upload c r2 (b\<lparr>s3_store := s3_store a'\<rparr>)
         in e1 = None \<and> e2 = None \<and> e3 = None \<and> e4 = None \<and>
            lookup (s3_store a') = Some (etag a', json_bytes r1) \<and>
            lookup (s3_store b') = Some (etag b', json_bytes r2)"
proof -
  obtain a where a: "s3_check c l1 = (None, a)" "same_lock l1 a" "lookup (s3_store a) = lookup (s3_store l1)"
    using s3_up_check [OF assms(1)] assms(3) by metis
  have up2: "s3_up lookup (l2\<lparr>s3_store := s3_store a\<rparr>)"
    using assms(1,2) by (simp add: s3_up_def s3_on_def same_lock_def)
  obtain b where b: "s3_check c (l2\<lparr>s3_store := s3_store a\<rparr>) = (None, b)"
      "same_lock (l2\<lparr>s3_store := s3_store a\<rparr>) b"
    using s3_up_check [OF up2] assms(3,4) a(3)
    by (metis s3_lock.select_convs(6,7) s3_lock.surjective s3_lock.update_convs(7))
  have upa: "s3_up lookup (a\<lparr>s3_store := s3_store b\<rparr>)" using same_lock_up [OF a(2)] assms(1) by simp
  obtain a' where a': "s3_upload c r1 (a\<lparr>s3_store := s3_store b\<rparr>) = (None, a')"
      "lookup (s3_store a') = Some (etag a', json_bytes r1)"
    using s3_up_upload [OF upa] by metis
  have upb: "s3_up lookup (b\<lparr>s3_store := s3_store a'\<rparr>)" using same_lock_up [OF b(2)] up2 by simp
  obtain b' where b': "s3_upload c r2 (b\<lparr>s3_store := s3_store a'\<rparr>) = (None, b')"
      "lookup (s3_store b') = Some (etag b', json_bytes r2)"
    using s3_up_upload [OF upb] by metis
  show ?thesis using a b a' b' by simp
qed

theorem s3_set_race_witness:
  "let (e1, a) = s3_check None (demo_s3 ''a'' []);
       (e2, b) = s3_check None ((demo_s3 ''b'' [])\<lparr>s3_store := s3_store a\<rparr>);
       (e3, a') = s3_upload None (demo_record ''a'') (a\<lparr>s3_store := s3_store b\<rparr>);
       (e4, b') = s3_upload None (demo_record ''b'') (b\<lparr>s3_store := s3_store a'\<rparr>)
   in e1 = None \<and> e2 = None \<and> e3 = None \<and> e4 = None \<and>
      demo_object (s3_store a') = Some (etag a', json_bytes (demo_record ''a'')) \<and>
      demo_object (s3_store b') = Some (etag b', json_bytes (demo_record ''b''))"
  by (rule s3_set_race [OF demo_s3_up]) (simp_all add: same_lock_def demo_s3_def demo_object_def)

text \<open>
  When the object is deleted, a client that knew it never writes again: every attempt of
  its elector finds no object, tries to create it, and fails because the tag it remembers is
  not the empty one; nothing is stored and the remembered tag does not change.
\<close>

theorem s3_deleted_stuck:
  assumes "lock le = s3_Lock" and "s3_up lookup (lockState le)"
    and "lookup (s3_store (lockState le)) = None" and "etag (lockState le) \<noteq> []"
  shows "case tryAcquireOrRenew c le of
           (b, le') \<Rightarrow> \<not> b \<and> lookup (s3_store (lockState le')) = None \<and>
             etag (lockState le') = etag (lockState le) \<and> s3_up lookup (lockState le')"
proof -
  let ?l = "lockState le"
  obtain err s' where st: "StatObject (s3_c ?l) c (bucket ?l) (s3_key ?l) (s3_store ?l) = (([], err), s')"
      "lookup s' = None" "isNotFound err"
    using s3_up_stat [OF assms(2), of c "s3_store ?l"] assms(3) by (metis option.case(1))
  have get: "s3_Get c ?l = (Inl (ErrWrap (s3_key ?l) ErrNotExist), ?l\<lparr>s3_store := s'\<rparr>)"
    using st by (simp add: s3_Get_def)
  obtain e l2 where ck: "s3_check c (?l\<lparr>s3_store := s'\<rparr>) = (e, l2)" "same_lock (?l\<lparr>s3_store := s'\<rparr>) l2"
      "etag l2 = etag ?l" "lookup (s3_store l2) = None" "e \<noteq> None"
    using s3_up_check [of lookup "?l\<lparr>s3_store := s'\<rparr>" c] assms(2,4) st(2)
    by (metis option.case(1) s3_lock.select_convs(6,7) s3_lock.surjective s3_lock.update_convs(7) s3_up_store)
  then obtain x where "s3_set c r (?l\<lparr>s3_store := s'\<rparr>) = (Some x, l2)" for r
    by (auto simp: s3_set_def)
  then show ?thesis
    using get ck assms(1,2) same_lock_up [OF ck(2)]
    by (auto simp: tryAcquireOrRenew_unfold)
qed

theorem s3_deleted_stuck_witness:
  "\<not> fst (tryAcquireOrRenew None (demo_elector s3_Lock (demo_s3 ''a'' ''t'')))"
  using s3_deleted_stuck [of "demo_elector s3_Lock (demo_s3 ''a'' ''t'')" demo_object None]
  by (simp add: split_beta) (simp add: demo_s3_def demo_object_def)

end
