(* ===== verification/Go_Strings.thy ===== *)
theory Go_Strings
  imports Go_Json
begin

text \<open>
  What the backends use of the standard library on strings: the text of an error,
  \<^verbatim>\<open>strings.Contains\<close>, \<^verbatim>\<open>strings.Split\<close> and \<^verbatim>\<open>strings.SplitN\<close>,
  \<^verbatim>\<open>bytes.TrimRight\<close>, \<^verbatim>\<open>bytes.TrimPrefix\<close> and the format verb \<^verbatim>\<open>%q\<close>.
\<close>

section \<open>Errors as text\<close>

text \<open>
  \<^verbatim>\<open>err.Error()\<close>. The text of a library's error is part of the value; the one of a
  Kubernetes "not found" error is made from the name of the object (with an empty resource).
\<close>

fun err_Error :: "go_error \<Rightarrow> string" where
  "err_Error ErrNotExist = ''file does not exist''"
| "err_Error Canceled = ''context canceled''"
| "err_Error DeadlineExceeded = ''context deadline exceeded''"
| "err_Error (ErrText s) = s"
| "err_Error (ErrWrap m e) = m @ '': '' @ err_Error e"
| "err_Error (ErrResponse n m) = m"
| "err_Error (ErrStatusNotFound n) = '' \"'' @ n @ ''\" not found''"
| "err_Error (ErrDNS m b) = m"
| "err_Error (ErrSentinel m) = m"

section \<open>Searching and splitting\<close>

fun has_prefix :: "string \<Rightarrow> string \<Rightarrow> bool" where
  "has_prefix [] s = True"
| "has_prefix (x # xs) [] = False"
| "has_prefix (x # xs) (y # ys) = (x = y \<and> has_prefix xs ys)"

fun strings_Contains :: "string \<Rightarrow> string \<Rightarrow> bool" where
  "strings_Contains [] t = (t = [])"
| "strings_Contains (x # xs) t = (has_prefix t (x # xs) \<or> strings_Contains xs t)"

text \<open>
  The text before the first occurrence of a separator and the text after it.
\<close>

fun strings_Cut :: "string \<Rightarrow> string \<Rightarrow> (string \<times> string) option" where
  "strings_Cut sep [] = None"
| "strings_Cut sep (x # xs) =
     (if has_prefix sep (x # xs) then Some ([], drop (length sep) (x # xs))
      else map_option (\<lambda>(a, b). (x # a, b)) (strings_Cut sep xs))"

lemma has_prefix_iff: "has_prefix p s \<longleftrightarrow> (\<exists>t. s = p @ t)"
  by (induction p s rule: has_prefix.induct) auto

lemma strings_Contains_iff: "strings_Contains s t \<longleftrightarrow> (\<exists>a b. s = a @ t @ b)"
proof (induction s)
  case (Cons x s)
  show ?case
  proof
    assume "strings_Contains (x # s) t"
    then consider "\<exists>b. x # s = t @ b" | "\<exists>a b. s = a @ t @ b"
      using Cons by (auto simp: has_prefix_iff)
    then show "\<exists>a b. x # s = a @ t @ b"
    proof cases
      case 1
      then show ?thesis by (metis append_Nil)
    next
      case 2
      then show ?thesis by (metis append_Cons)
    qed
  next
    assume "\<exists>a b. x # s = a @ t @ b"
    then obtain a b where "x # s = a @ t @ b" by blast
    then have "has_prefix t (x # s) \<or> (\<exists>a b. s = a @ t @ b)"
      by (cases a) (auto simp: has_prefix_iff)
    then show "strings_Contains (x # s) t" using Cons by simp
  qed
qed auto

lemma strings_Cut_Some: "strings_Cut sep s = Some (a, b) \<Longrightarrow> s = a @ sep @ b"
  by (induction s arbitrary: a) (auto simp: has_prefix_iff split: if_splits)

lemma strings_Cut_None: "sep \<noteq> [] \<Longrightarrow> strings_Cut sep s = None \<longleftrightarrow> \<not> strings_Contains s sep"
  by (induction s) auto

lemma strings_Cut_shorter:
  assumes "strings_Cut sep s = Some (a, b)" and "sep \<noteq> []"
  shows "length b < length s"
  using strings_Cut_Some [OF assms(1)] assms(2) by simp

text \<open>\<^verbatim>\<open>strings.Split\<close> for a separator that is not empty, and \<^verbatim>\<open>strings.SplitN(s, sep, 2)\<close>.\<close>

function strings_Split :: "string \<Rightarrow> string \<Rightarrow> string list" where
  "strings_Split sep s =
     (if sep = [] then map (\<lambda>c. [c]) s
      else case strings_Cut sep s of
             None \<Rightarrow> [s]
           | Some (a, b) \<Rightarrow> a # strings_Split sep b)"
  by pat_completeness auto

termination
  by (relation "measure (length \<circ> snd)") (auto dest: strings_Cut_shorter)

declare strings_Split.simps [simp del]

definition strings_SplitN2 :: "string \<Rightarrow> string \<Rightarrow> string list" where
  "strings_SplitN2 sep s =
     (case strings_Cut sep s of None \<Rightarrow> [s] | Some (a, b) \<Rightarrow> [a, b])"

text \<open>\<^verbatim>\<open>bytes.TrimRight(b, "c")\<close> for a single ASCII character, and \<^verbatim>\<open>bytes.TrimPrefix\<close>.\<close>

definition TrimRight :: "char \<Rightarrow> bytes \<Rightarrow> bytes" where
  "TrimRight c b = rev (dropWhile (\<lambda>x. x = c) (rev b))"

definition TrimPrefix :: "bytes \<Rightarrow> bytes \<Rightarrow> bytes" where
  "TrimPrefix p b = (if has_prefix p b then drop (length p) b else b)"

text \<open>
  The format verb \<^verbatim>\<open>%q\<close> on a byte string. Bytes from 128 on are written as
  hexadecimal escapes, which is what the library does where they are not valid UTF-8.
\<close>

definition quote_byte :: "char \<Rightarrow> string" where
  "quote_byte c =
     (if c = CHR 0x22 \<or> c = CHR 0x5C then [CHR 0x5C, c]
      else if 32 \<le> byte c \<and> byte c < 127 then [c]
      else if c = CHR 0x07 then [CHR 0x5C, CHR ''a'']
      else if c = CHR 0x08 then [CHR 0x5C, CHR ''b'']
      else if c = CHR 0x0C then [CHR 0x5C, CHR ''f'']
      else if c = CHR 0x0A then [CHR 0x5C, CHR ''n'']
      else if c = CHR 0x0D then [CHR 0x5C, CHR ''r'']
      else if c = CHR 0x09 then [CHR 0x5C, CHR ''t'']
      else if c = CHR 0x0B then [CHR 0x5C, CHR ''v'']
      else [CHR 0x5C, CHR ''x'', hex_digit (byte c div 16), hex_digit (byte c mod 16)])"

definition quoted :: "string \<Rightarrow> string" where
  "quoted s = [CHR 0x22] @ concat (map quote_byte s) @ [CHR 0x22]"

end
