(* ===== verification/Git_Lock.thy ===== *)
theory Git_Lock
  imports Elector_Properties Go_Strings
begin

text \<open>
  \<^verbatim>\<open>git/lock.go\<close>: the lock stored as a file of a git repository, written by commit and
  push. The git library is a parameter (\<open>GitRepo\<close>): each call over the state of the repository
  and its worktree, with its error. Every early return of the source is a branch.

  \<^verbatim>\<open>json.Unmarshal\<close> into a pointer to a pointer stores nil for the JSON value null: the
  record is then returned as a nil pointer, which the state notes in \<open>returned_nil\<close>.
\<close>

section \<open>Errors as text\<close>

definition errorContains :: "go_error option \<Rightarrow> string \<Rightarrow> bool" where
  "errorContains err s = (case err of None \<Rightarrow> False | Some e \<Rightarrow> strings_Contains (err_Error e) s)"

section \<open>Data and operations\<close>

definition NoErrAlreadyUpToDate :: go_error where
  "NoErrAlreadyUpToDate = ErrText ''already up-to-date''"

record 'g GitRepo =
  Worktree :: "'g \<Rightarrow> go_error option"
  PullContext :: "ctx \<Rightarrow> 'g \<Rightarrow> go_error option \<times> 'g"
  OpenFile :: "string \<Rightarrow> 'g \<Rightarrow> go_error option"
  ReadFile :: "string \<Rightarrow> 'g \<Rightarrow> go_error + bytes"
  CleanTree :: "'g \<Rightarrow> go_error option \<times> 'g"
  Head :: "'g \<Rightarrow> go_error + string"
  CreateFile :: "string \<Rightarrow> 'g \<Rightarrow> go_error option \<times> 'g"
  WriteFile :: "string \<Rightarrow> bytes \<Rightarrow> 'g \<Rightarrow> go_error option \<times> 'g"
  IsClean :: "'g \<Rightarrow> go_error + bool"
  AddFile :: "string \<Rightarrow> 'g \<Rightarrow> go_error option \<times> 'g"
  Commit :: "string \<Rightarrow> 'g \<Rightarrow> go_error option \<times> 'g"
  PushContext :: "ctx \<Rightarrow> 'g \<Rightarrow> go_error option \<times> 'g"
  Checkout :: "string \<Rightarrow> 'g \<Rightarrow> go_error option \<times> 'g"

record 'g git_lock =
  git_name :: string
  git_repo :: "'g GitRepo"
  git_id :: string
  repo_state :: 'g
  returned_nil :: bool

text \<open>
  \<^verbatim>\<open>New\<close>: \<open>clone\<close> and \<open>init\<close> are the results of \<^verbatim>\<open>git.CloneContext\<close> and
  \<^verbatim>\<open>git.Init\<close>, \<open>remote\<close> is \<^verbatim>\<open>CreateRemote\<close> for the URL.
\<close>

definition git_New ::
    "'g GitRepo \<Rightarrow> go_error + 'g \<Rightarrow> go_error + 'g \<Rightarrow> ('g \<Rightarrow> go_error option \<times> 'g) \<Rightarrow>
     string \<Rightarrow> string \<Rightarrow> go_error + 'g git_lock" where
  "git_New G clone init remote name i =
     (let mk = (\<lambda>g. Inr \<lparr>git_name = name, git_repo = G, git_id = i, repo_state = g,
                         returned_nil = False\<rparr>)
      in case clone of
           Inr g \<Rightarrow> mk g
         | Inl err \<Rightarrow>
             if errorContains (Some err) ''remote repository is empty''
             then (case init of
                     Inl e \<Rightarrow> Inl (ErrWrap ''failed to init repo'' e)
                   | Inr g \<Rightarrow>
                       (case remote g of
                          (Some e, g) \<Rightarrow> Inl e
                        | (None, g) \<Rightarrow> mk g))
             else Inl err)"

text \<open>The decoding of the file: \<open>None\<close> is the nil pointer.\<close>

definition git_decode :: "bytes \<Rightarrow> go_error + Record option" where
  "git_decode b =
     (case parse_json b of
        Some JNull \<Rightarrow> Inr None
      | _ \<Rightarrow> (case json_Unmarshal b zero_Record of Inl e \<Rightarrow> Inl e | Inr r \<Rightarrow> Inr (Some r)))"

definition git_pull :: "ctx \<Rightarrow> 'g git_lock \<Rightarrow> go_error option \<times> 'g git_lock" where
  "git_pull c l =
     (let (err, g) = PullContext (git_repo l) c (repo_state l);
          l = l\<lparr>repo_state := g\<rparr>
      in case err of
           None \<Rightarrow> (None, l)
         | Some e \<Rightarrow>
             if errors_Is e NoErrAlreadyUpToDate then (None, l)
             else if errorContains err ''remote repository is empty''
             then (Some (ErrStatusNotFound (git_name l)), l)
             else (Some (ErrWrap ''failed to pull'' e), l))"

definition git_Get :: "ctx \<Rightarrow> 'g git_lock \<Rightarrow> (go_error + Record \<times> bytes) \<times> 'g git_lock" where
  "git_Get c l =
     (case Worktree (git_repo l) (repo_state l) of
        Some e \<Rightarrow> (Inl (ErrWrap ''failed to get worktree'' e), l)
      | None \<Rightarrow>
          case git_pull c l of
            (Some e, l) \<Rightarrow> (Inl e, l)
          | (None, l) \<Rightarrow>
              case OpenFile (git_repo l) (git_name l) (repo_state l) of
                Some e \<Rightarrow> (Inl (ErrWrap ''failed to open file'' e), l)
              | None \<Rightarrow>
                  case ReadFile (git_repo l) (git_name l) (repo_state l) of
                    Inl e \<Rightarrow> (Inl (ErrWrap ''failed to read file'' e), l)
                  | Inr b \<Rightarrow>
                      case git_decode b of
                        Inl e \<Rightarrow> (Inl (ErrWrap ''failed to decode'' e), l)
                      | Inr r \<Rightarrow>
                          case CleanTree (git_repo l) (repo_state l) of
                            (Some e, g) \<Rightarrow>
                              (Inl (ErrWrap ''failed to clean'' e), l\<lparr>repo_state := g\<rparr>)
                          | (None, g) \<Rightarrow>
                              (Inr (case r of None \<Rightarrow> zero_Record | Some r \<Rightarrow> r, b),
                               l\<lparr>repo_state := g, returned_nil := (r = None)\<rparr>))"

text \<open>The end of \<^verbatim>\<open>set\<close>: add, commit, push, and the checkout after a failed push.\<close>

definition git_publish :: "ctx \<Rightarrow> string \<Rightarrow> Record \<Rightarrow> 'g git_lock \<Rightarrow> go_error option \<times> 'g git_lock" where
  "git_publish c h ler l =
     (let G = git_repo l; upd = (\<lambda>g. l\<lparr>repo_state := g\<rparr>)
      in case AddFile G (git_name l) (repo_state l) of
           (Some e, g) \<Rightarrow> (Some (ErrWrap ''failed to add file'' e), upd g)
         | (None, g) \<Rightarrow>
             case Commit G (HolderIdentity ler @ '' lock'') g of
               (Some e, g) \<Rightarrow> (Some (ErrWrap ''failed to commit'' e), upd g)
             | (None, g) \<Rightarrow>
                 case PushContext G c g of
                   (None, g) \<Rightarrow> (None, upd g)
                 | (Some e, g) \<Rightarrow>
                     case Checkout G h g of
                       (Some e', g) \<Rightarrow> (Some (ErrWrap ''failed to checkout'' e'), upd g)
                     | (None, g) \<Rightarrow> (Some (ErrWrap ''failed to push'' e), upd g))"

definition git_set :: "ctx \<Rightarrow> Record \<Rightarrow> 'g git_lock \<Rightarrow> go_error option \<times> 'g git_lock" where
  "git_set c ler l =
     (let G = git_repo l; upd = (\<lambda>g. l\<lparr>repo_state := g\<rparr>)
      in case Worktree G (repo_state l) of
           Some e \<Rightarrow> (Some (ErrWrap ''failed to get worktree'' e), l)
         | None \<Rightarrow>
             case Head G (repo_state l) of
               Inl e \<Rightarrow> (Some (ErrWrap ''failed to get head'' e), l)
             | Inr h \<Rightarrow>
                 case CreateFile G (git_name l) (repo_state l) of
                   (Some e, g) \<Rightarrow> (Some (ErrWrap ''failed to create file'' e), upd g)
                 | (None, g) \<Rightarrow>
                     case WriteFile G (git_name l) (json_bytes ler) g of
                       (Some e, g) \<Rightarrow> (Some (ErrWrap ''failed to write file'' e), upd g)
                     | (None, g) \<Rightarrow>
                         case IsClean G g of
                           Inl e \<Rightarrow> (Some (ErrWrap ''failed to get status'' e), upd g)
                         | Inr clean \<Rightarrow>
                             if clean then (None, upd g)
                             else git_publish c h ler (upd g))"

definition git_Create :: "ctx \<Rightarrow> Record \<Rightarrow> 'g git_lock \<Rightarrow> go_error option \<times> 'g git_lock" where
  "git_Create = git_set"

definition git_Update :: "ctx \<Rightarrow> Record \<Rightarrow> 'g git_lock \<Rightarrow> go_error option \<times> 'g git_lock" where
  "git_Update = git_set"

definition git_Lock :: "'g git_lock Lock" where
  "git_Lock =
     \<lparr>Get = git_Get, Create = git_Create, Update = git_Update, RecordEvent = (\<lambda>_ l. l),
      Identity = git_id, Describe = git_name\<rparr>"

section \<open>The repository\<close>

text \<open>
  The documented behaviour of the library for the lock's file, over its content in the worktree,
  in the commit that is checked out and in the remote. A pull that succeeds brings the three
  together; writing changes the worktree; the tree is clean when the worktree is that of the
  commit; a commit takes over the worktree; a push that succeeds brings the commit to the remote.
\<close>

record 'g git_view =
  tree :: "'g \<Rightarrow> bytes option"
  headc :: "'g \<Rightarrow> bytes option"
  remote :: "'g \<Rightarrow> bytes option"

definition same_content :: "'g git_view \<Rightarrow> 'g \<Rightarrow> 'g \<Rightarrow> bool" where
  "same_content V g g' \<longleftrightarrow> tree V g' = tree V g \<and> headc V g' = headc V g \<and> remote V g' = remote V g"

definition git_doc :: "'g GitRepo \<Rightarrow> string \<Rightarrow> 'g git_view \<Rightarrow> bool" where
  "git_doc G nm V \<longleftrightarrow>
     (\<forall>c g g'. PullContext G c g = (None, g') \<or>
        (\<exists>e. PullContext G c g = (Some e, g') \<and> errors_Is e NoErrAlreadyUpToDate) \<longrightarrow>
        remote V g' = remote V g \<and> headc V g' = remote V g \<and> tree V g' = remote V g) \<and>
     (\<forall>g b. ReadFile G nm g = Inr b \<longrightarrow> tree V g = Some b) \<and>
     (\<forall>g g'. CleanTree G g = (None, g') \<longrightarrow> same_content V g g') \<and>
     (\<forall>g g'. CreateFile G nm g = (None, g') \<longrightarrow> headc V g' = headc V g \<and> remote V g' = remote V g) \<and>
     (\<forall>b g g'. WriteFile G nm b g = (None, g') \<longrightarrow>
        tree V g' = Some b \<and> headc V g' = headc V g \<and> remote V g' = remote V g) \<and>
     (\<forall>g x. IsClean G g = Inr x \<longrightarrow> x = (tree V g = headc V g)) \<and>
     (\<forall>g g'. AddFile G nm g = (None, g') \<longrightarrow> same_content V g g') \<and>
     (\<forall>m g g'. Commit G m g = (None, g') \<longrightarrow>
        headc V g' = tree V g \<and> tree V g' = tree V g \<and> remote V g' = remote V g) \<and>
     (\<forall>c g g'. PushContext G c g = (None, g') \<longrightarrow>
        remote V g' = headc V g \<and> headc V g' = headc V g \<and> tree V g' = tree V g)"

text \<open>A repository whose reads do not fail.\<close>

definition git_reliable :: "'g GitRepo \<Rightarrow> string \<Rightarrow> 'g git_view \<Rightarrow> bool" where
  "git_reliable G nm V \<longleftrightarrow>
     (\<forall>g. Worktree G g = None) \<and> (\<forall>c g. \<exists>g'. PullContext G c g = (None, g')) \<and>
     (\<forall>g b. tree V g = Some b \<longrightarrow> OpenFile G nm g = None \<and> ReadFile G nm g = Inr b) \<and>
     (\<forall>g. \<exists>g'. CleanTree G g = (None, g'))"

definition in_sync :: "'g git_view \<Rightarrow> 'g git_lock \<Rightarrow> bool" where
  "in_sync V l \<longleftrightarrow> headc V (repo_state l) = remote V (repo_state l)"

definition git_ready :: "'g git_lock \<Rightarrow> bool" where
  "git_ready l \<longleftrightarrow>
     (\<exists>V. git_doc (git_repo l) (git_name l) V \<and> git_reliable (git_repo l) (git_name l) V \<and> in_sync V l)"

section \<open>The contract\<close>

lemma git_docD:
  assumes "git_doc G nm V"
  shows "PullContext G c g = (None, g') \<Longrightarrow>
      remote V g' = remote V g \<and> headc V g' = remote V g \<and> tree V g' = remote V g"
    and "CleanTree G g = (None, g') \<Longrightarrow> same_content V g g'"
    and "CreateFile G nm g = (None, g') \<Longrightarrow> headc V g' = headc V g \<and> remote V g' = remote V g"
    and "WriteFile G nm b g = (None, g') \<Longrightarrow>
        tree V g' = Some b \<and> headc V g' = headc V g \<and> remote V g' = remote V g"
    and "IsClean G g = Inr x \<Longrightarrow> x = (tree V g = headc V g)"
    and "AddFile G nm g = (None, g') \<Longrightarrow> same_content V g g'"
    and "Commit G m g = (None, g') \<Longrightarrow>
        headc V g' = tree V g \<and> tree V g' = tree V g \<and> remote V g' = remote V g"
    and "PushContext G c g = (None, g') \<Longrightarrow>
        remote V g' = headc V g \<and> headc V g' = headc V g \<and> tree V g' = tree V g"
  using assms unfolding git_doc_def by metis+

definition same_git :: "'g git_lock \<Rightarrow> 'g git_lock \<Rightarrow> bool" where
  "same_git l l' \<longleftrightarrow> git_repo l' = git_repo l \<and> git_name l' = git_name l \<and> git_id l' = git_id l"

lemma git_pull_same: "git_pull c l = (x, l') \<Longrightarrow> same_git l l'"
  by (auto simp: git_pull_def same_git_def Let_def split: prod.splits option.splits if_splits)

lemma git_Get_same: "git_Get c l = (x, l') \<Longrightarrow> same_git l l'"
  using git_pull_same [of c l]
  by (fastforce simp: git_Get_def same_git_def split: prod.splits option.splits sum.splits)

lemma git_publish_same: "git_publish c h r l = (x, l') \<Longrightarrow> same_git l l'"
  by (auto simp: git_publish_def same_git_def Let_def split: prod.splits option.splits)

lemma git_set_same: "git_set c r l = (x, l') \<Longrightarrow> same_git l l'"
  by (auto simp: git_set_def Let_def same_git_def dest!: git_publish_same
      split: prod.splits option.splits sum.splits if_splits)

lemma git_publish_success:
  assumes "git_doc (git_repo l) (git_name l) V" and "git_publish c h r l = (None, l')"
  shows "headc V (repo_state l') = tree V (repo_state l) \<and> remote V (repo_state l') = tree V (repo_state l)"
  using assms(2)
  by (auto simp: git_publish_def Let_def same_content_def split: prod.splits option.splits
      dest!: git_docD(6,7,8) [OF assms(1)])

text \<open>The two ways in which \<^verbatim>\<open>set\<close> reports success.\<close>

lemma git_set_success:
  assumes "git_doc (git_repo l) (git_name l) V" and "git_set c r l = (None, l')"
  shows "headc V (repo_state l') = Some (json_bytes r) \<and>
         (remote V (repo_state l') = Some (json_bytes r) \<or>
          headc V (repo_state l) = Some (json_bytes r) \<and> remote V (repo_state l') = remote V (repo_state l))"
proof -
  let ?G = "git_repo l"
  obtain h g1 g2 clean where
      c: "CreateFile ?G (git_name l) (repo_state l) = (None, g1)"
    and w: "WriteFile ?G (git_name l) (json_bytes r) g1 = (None, g2)"
    and s: "IsClean ?G g2 = Inr clean"
    and l': "if clean then l' = l\<lparr>repo_state := g2\<rparr> else git_publish c h r (l\<lparr>repo_state := g2\<rparr>) = (None, l')"
    using assms(2) by (auto simp: git_set_def Let_def split: prod.splits option.splits sum.splits if_splits)
  note d = git_docD(3) [OF assms(1) c] git_docD(4) [OF assms(1) w] git_docD(5) [OF assms(1) s]
  show ?thesis
  proof (cases clean)
    case True
    then show ?thesis using l' d by simp
  next
    case False
    then have "git_publish c h r (l\<lparr>repo_state := g2\<rparr>) = (None, l')" using l' by simp
    from git_publish_success [OF _ this, of V] assms(1) d show ?thesis by simp
  qed
qed

lemma git_decode_bytes:
  assumes "wf_Record r" and "valid_utf8 (HolderIdentity r)"
  shows "git_decode (json_bytes r) = Inr (Some r)"
proof -
  note u = json_Unmarshal_Marshal [OF assms]
  have "parse_json (json_bytes r) \<noteq> Some JNull"
  proof
    assume "parse_json (json_bytes r) = Some JNull"
    then have "json_Unmarshal (json_bytes r) r0 = Inr r0" for r0 by (simp add: json_Unmarshal_def)
    from this [of "r\<lparr>AcquireTime := AcquireTime r + 1\<rparr>"] u [of "r\<lparr>AcquireTime := AcquireTime r + 1\<rparr>"]
    have "AcquireTime (r\<lparr>AcquireTime := AcquireTime r + 1\<rparr>) = AcquireTime r" by simp
    then show False by simp
  qed
  then show ?thesis using u [of zero_Record]
    by (auto simp: git_decode_def split: option.splits json.splits)
qed

lemma git_read_back:
  assumes "git_doc (git_repo l) (git_name l) V" and "git_reliable (git_repo l) (git_name l) V"
    and "remote V (repo_state l) = Some (json_bytes r)" and "wf_Record r" and "valid_utf8 (HolderIdentity r)"
  shows "\<exists>l'. git_Get c l = (Inr (r, json_bytes r), l') \<and> \<not> returned_nil l'"
proof -
  obtain g1 where p: "PullContext (git_repo l) c (repo_state l) = (None, g1)"
    using assms(2) unfolding git_reliable_def by blast
  then have "tree V g1 = Some (json_bytes r)" using git_docD(1) [OF assms(1) p] assms(3) by simp
  then have o: "OpenFile (git_repo l) (git_name l) g1 = None"
    "ReadFile (git_repo l) (git_name l) g1 = Inr (json_bytes r)"
    using assms(2) by (auto simp: git_reliable_def)
  obtain g2 where "CleanTree (git_repo l) g1 = (None, g2)" using assms(2) unfolding git_reliable_def by blast
  moreover have "Worktree (git_repo l) (repo_state l) = None" using assms(2) by (simp add: git_reliable_def)
  ultimately show ?thesis using p o git_decode_bytes [OF assms(4,5)]
    by (simp add: git_Get_def git_pull_def)
qed

definition git_good :: "Record \<Rightarrow> bool" where
  "git_good r \<longleftrightarrow> wf_Record r \<and> valid_utf8 (HolderIdentity r)"

lemma git_Lock_sel [simp]:
  "Get git_Lock = git_Get" "Create git_Lock = git_set" "Update git_Lock = git_set"
  "RecordEvent git_Lock m l = l" "Identity git_Lock = git_id"
  by (simp_all add: git_Lock_def git_Create_def git_Update_def)

interpretation git: lock_store git_Lock id git_good git_ready
proof
  fix l :: "'a git_lock" and c r m
  show "Identity git_Lock (snd (Get git_Lock c l)) = Identity git_Lock l"
    using git_Get_same [of c l] by (cases "git_Get c l") (simp add: same_git_def)
  show "Identity git_Lock (snd (Create git_Lock c r l)) = Identity git_Lock l"
    "Identity git_Lock (snd (Update git_Lock c r l)) = Identity git_Lock l"
    using git_set_same [of c r l] by (cases "git_set c r l"; simp add: same_git_def)+
next
  fix l :: "'a git_lock" and r c l' c'
  assume "git_ready l" and good: "git_good r"
  then obtain V where V: "git_doc (git_repo l) (git_name l) V" "git_reliable (git_repo l) (git_name l) V"
      "in_sync V l"
    by (auto simp: git_ready_def)
  have read: "\<exists>raw s''. git_Get c' l' = (Inr (r, raw), s'')" if w: "git_set c r l = (None, l')"
  proof -
    have "remote V (repo_state l') = Some (json_bytes r)"
      using git_set_success [OF V(1) w] V(3) by (auto simp: in_sync_def)
    then show ?thesis
      using git_read_back [of l' V r c'] V(1,2) good git_set_same [OF w] by (auto simp: same_git_def git_good_def)
  qed
  then show "Create git_Lock c r l = (None, l') \<Longrightarrow> \<exists>raw s''. Get git_Lock c' l' = (Inr (id r, raw), s'')"
    by simp
  show "Update git_Lock c r l = (None, l') \<Longrightarrow> \<exists>raw s''. Get git_Lock c' l' = (Inr (id r, raw), s'')"
    using read by simp
qed simp_all

section \<open>An example repository\<close>

text \<open>The file in the worktree, in the commit and in the remote.\<close>

record demo_tree =
  d_tree :: "bytes option"
  d_head :: "bytes option"
  d_remote :: "bytes option"

definition demo_git :: "demo_tree GitRepo" where
  "demo_git =
     \<lparr>Worktree = (\<lambda>g. None),
      PullContext = (\<lambda>c g. (None, g\<lparr>d_tree := d_remote g, d_head := d_remote g\<rparr>)),
      OpenFile = (\<lambda>n g. case d_tree g of None \<Rightarrow> Some ErrNotExist | Some _ \<Rightarrow> None),
      ReadFile = (\<lambda>n g. case d_tree g of None \<Rightarrow> Inl ErrNotExist | Some b \<Rightarrow> Inr b),
      CleanTree = (\<lambda>g. (None, g)), Head = (\<lambda>g. Inr ''h''),
      CreateFile = (\<lambda>n g. (None, g\<lparr>d_tree := Some []\<rparr>)),
      WriteFile = (\<lambda>n b g. (None, g\<lparr>d_tree := Some b\<rparr>)),
      IsClean = (\<lambda>g. Inr (d_tree g = d_head g)), AddFile = (\<lambda>n g. (None, g)),
      Commit = (\<lambda>m g. (None, g\<lparr>d_head := d_tree g\<rparr>)),
      PushContext = (\<lambda>c g. (None, g\<lparr>d_remote := d_head g\<rparr>)), Checkout = (\<lambda>h g. (None, g))\<rparr>"

definition demo_view :: "demo_tree git_view" where
  "demo_view = \<lparr>tree = d_tree, headc = d_head, remote = d_remote\<rparr>"

definition demo_git_lock :: "bytes option \<Rightarrow> demo_tree git_lock" where
  "demo_git_lock b =
     \<lparr>git_name = ''lock'', git_repo = demo_git, git_id = ''a'',
      repo_state = \<lparr>d_tree = b, d_head = b, d_remote = b\<rparr>, returned_nil = False\<rparr>"

lemma demo_git_doc:
  "git_doc (git_repo (demo_git_lock b)) (git_name (demo_git_lock b)) demo_view"
  "git_reliable (git_repo (demo_git_lock b)) (git_name (demo_git_lock b)) demo_view"
  by (auto simp: git_doc_def git_reliable_def demo_git_lock_def demo_git_def demo_view_def same_content_def
      split: option.splits)

lemma demo_git_sync: "in_sync demo_view (demo_git_lock b)"
  by (simp add: in_sync_def demo_git_lock_def demo_view_def)

lemma demo_git_set:
  "git_set None (demo_record ''a'') (demo_git_lock None) =
     (None, snd (git_set None (demo_record ''a'') (demo_git_lock None)))"
  by (simp add: git_set_def git_publish_def demo_git_lock_def demo_git_def)

section \<open>Properties\<close>



text \<open>
  Round trip through the repository: the record that was written is what the next read
  returns, with the same bytes.
\<close>

theorem git_write_read:
  assumes "git_doc (git_repo l) (git_name l) V" and "git_reliable (git_repo l) (git_name l) V"
    and "in_sync V l" and "git_set c r l = (None, l')"
    and "wf_Record r" and "valid_utf8 (HolderIdentity r)"
  shows "fst (git_Get c' l') = Inr (r, json_bytes r)"
proof -
  have "remote V (repo_state l') = Some (json_bytes r)"
    using git_set_success [OF assms(1,4)] assms(3) by (auto simp: in_sync_def)
  then obtain l2 where "git_Get c' l' = (Inr (r, json_bytes r), l2)"
    using git_read_back [of l' V r c'] assms(1,2,5,6) git_set_same [OF assms(4)] by (auto simp: same_git_def)
  then show ?thesis by simp
qed

theorem git_write_read_witness:
  "fst (git_Get None (snd (git_set None (demo_record ''a'') (demo_git_lock None)))) =
     Inr (demo_record ''a'', json_bytes (demo_record ''a''))"
  by (rule git_write_read [OF demo_git_doc demo_git_sync demo_git_set])
    (simp_all add: demo_record_def wf_Record_def is_i64_def rune_size_def)

text \<open>
  A missing lock file and an empty remote are not the same to the elector. A file that does
  not exist is reported as \<^verbatim>\<open>os.ErrNotExist\<close>, so that the elector creates it. An empty
  remote is reported as a Kubernetes "not found" error, which is not \<^verbatim>\<open>os.ErrNotExist\<close>: the
  attempt fails and nothing is ever written to it.
\<close>

theorem git_absent_record:
  assumes "lock le = git_Lock" and "Worktree (git_repo (lockState le)) (repo_state (lockState le)) = None"
    and "PullContext (git_repo (lockState le)) c (repo_state (lockState le)) = (perr, g)"
  shows "(if perr = None
          then errors_Is e ErrNotExist \<and> OpenFile (git_repo (lockState le)) (git_name (lockState le)) g = Some e \<longrightarrow>
               fst (tryAcquireOrRenew c le) =
                 (fst (git_set c (freshRecord le) ((lockState le)\<lparr>repo_state := g\<rparr>)) = None)
          else errorContains perr ''remote repository is empty'' \<and>
               \<not> errors_Is (the perr) NoErrAlreadyUpToDate \<longrightarrow>
               tryAcquireOrRenew c le = (False, after_Get ((lockState le)\<lparr>repo_state := g\<rparr>) le))"
proof (cases perr)
  case None
  then show ?thesis using assms
    by (auto simp: tryAcquireOrRenew_unfold git_Get_def git_pull_def split: prod.splits option.splits)
next
  case (Some x)
  then show ?thesis using assms
    by (simp add: tryAcquireOrRenew_unfold git_Get_def git_pull_def Let_def)
qed

definition empty_git :: "demo_tree GitRepo" where
  "empty_git = demo_git\<lparr>PullContext := (\<lambda>c g. (Some (ErrText ''remote repository is empty''), g))\<rparr>"

theorem git_absent_record_witness:
  "\<not> fst (tryAcquireOrRenew None (demo_elector git_Lock ((demo_git_lock None)\<lparr>git_repo := empty_git\<rparr>)))"
proof -
  let ?l = "(demo_git_lock None)\<lparr>git_repo := empty_git\<rparr>"
  have p: "PullContext (git_repo ?l) None (repo_state ?l) =
      (Some (ErrText ''remote repository is empty''), repo_state ?l)"
    and w: "Worktree (git_repo ?l) (repo_state ?l) = None"
    by (simp_all add: empty_git_def demo_git_def)
  have "errorContains (Some (ErrText ''remote repository is empty'')) ''remote repository is empty''"
    by (simp add: errorContains_def)
  then show ?thesis
    using git_absent_record [of "demo_elector git_Lock ?l" None "Some (ErrText ''remote repository is empty'')"
        "repo_state ?l" undefined] p w
    by (simp add: NoErrAlreadyUpToDate_def)
qed

text \<open>
  A lock file that holds the JSON value null is decoded into a nil record without an
  error, which the elector dereferences.
\<close>

theorem git_null_record:
  assumes "Worktree (git_repo l) (repo_state l) = None"
    and "PullContext (git_repo l) c (repo_state l) = (None, g)"
    and "OpenFile (git_repo l) (git_name l) g = None" and "ReadFile (git_repo l) (git_name l) g = Inr ''null''"
    and "CleanTree (git_repo l) g = (None, g')"
  shows "\<exists>r l'. git_Get c l = (Inr (r, ''null''), l') \<and> returned_nil l'"
proof -
  have "parse_json ''null'' = Some JNull" by code_simp
  then show ?thesis using assms by (simp add: git_Get_def git_pull_def git_decode_def)
qed

theorem git_null_record_witness:
  "\<exists>r l'. git_Get None (demo_git_lock (Some ''null'')) = (Inr (r, ''null''), l') \<and> returned_nil l'"
  by (rule git_null_record [where g = "repo_state (demo_git_lock (Some ''null''))" and
        g' = "repo_state (demo_git_lock (Some ''null''))"])
    (simp_all add: demo_git_lock_def demo_git_def)

end
