(* ===== verification/Gossip_Codec.thy ===== *)
theory Gossip_Codec
  imports Go_Time
begin

text \<open>
  \<^verbatim>\<open>gossip/action.go\<close> and the encoding half of \<^verbatim>\<open>gossip/kv.go\<close>: the messages that
  are broadcast and the entries of the push/pull state, with their binary encodings. A byte is a
  \<open>char\<close>. Decoding a malformed buffer panics in Go (an index or a slice out of range); a result
  is therefore \<open>Panic\<close> or \<open>Ok\<close>. The buffers are taken to have no spare capacity: with
  spare capacity the panic of a too long value comes one statement later, from the reslicing in
  \<^verbatim>\<open>MergeRemoteState\<close>.
\<close>

section \<open>Slices and integers\<close>

text \<open>\<^verbatim>\<open>buf[n:]\<close> and \<^verbatim>\<open>buf[lo:hi]\<close>.\<close>

definition slice_from :: "int \<Rightarrow> bytes \<Rightarrow> bytes outcome" where
  "slice_from n b =
     (if 0 \<le> n \<and> n \<le> int (length b) then Ok (drop (nat n) b) else Panic ''slice bounds out of range'')"

definition slice_range :: "int \<Rightarrow> int \<Rightarrow> bytes \<Rightarrow> bytes outcome" where
  "slice_range lo hi b =
     (if 0 \<le> lo \<and> lo \<le> hi \<and> hi \<le> int (length b) then Ok (take (nat (hi - lo)) (drop (nat lo) b))
      else Panic ''slice bounds out of range'')"

text \<open>\<^verbatim>\<open>uint64(x)\<close> of a signed value, and the eight bytes of the two orders.\<close>

definition u64 :: "int \<Rightarrow> nat" where
  "u64 x = nat (x mod 2 ^ 64)"

primrec le_bytes :: "nat \<Rightarrow> nat \<Rightarrow> bytes" where
  "le_bytes 0 n = []"
| "le_bytes (Suc k) n = char_of (n mod 256) # le_bytes k (n div 256)"

fun le_value :: "bytes \<Rightarrow> nat" where
  "le_value [] = 0"
| "le_value (b # bs) = of_char b + 256 * le_value bs"

definition LittleEndian_put :: "nat \<Rightarrow> bytes" where
  "LittleEndian_put n = le_bytes 8 n"

definition BigEndian_put :: "nat \<Rightarrow> bytes" where
  "BigEndian_put n = rev (le_bytes 8 n)"

definition LittleEndian_Uint64 :: "bytes \<Rightarrow> nat outcome" where
  "LittleEndian_Uint64 b =
     (if length b < 8 then Panic ''index out of range'' else Ok (le_value (take 8 b)))"

definition BigEndian_Uint64 :: "bytes \<Rightarrow> nat outcome" where
  "BigEndian_Uint64 b =
     (if length b < 8 then Panic ''index out of range'' else Ok (le_value (rev (take 8 b))))"

text \<open>
  \<^verbatim>\<open>unix.ByteSliceFromString\<close>, with \<^verbatim>\<open>must\<close>: a string with a NUL byte is an error and
  panics. \<^verbatim>\<open>unix.ByteSliceToString\<close>: the bytes before the first NUL.
\<close>

definition NUL :: char where
  "NUL = char_of (0 :: nat)"

definition must_ByteSliceFromString :: "string \<Rightarrow> bytes outcome" where
  "must_ByteSliceFromString s = (if NUL \<in> set s then Panic ''invalid argument'' else Ok (s @ [NUL]))"

definition ByteSliceToString :: "bytes \<Rightarrow> string" where
  "ByteSliceToString b = takeWhile (\<lambda>c. c \<noteq> NUL) b"

section \<open>Actions\<close>

definition actionTypeUnknown :: nat where "actionTypeUnknown = 0"

definition actionTypeSet :: nat where "actionTypeSet = 1"

definition actionTypeDelete :: nat where "actionTypeDelete = 2"

definition actionType_String :: "nat \<Rightarrow> string" where
  "actionType_String b =
     (if b = actionTypeSet then ''set'' else if b = actionTypeDelete then ''delete'' else ''unknown'')"

record action =
  a_typ :: nat
  a_time :: go_time
  a_key :: string
  a_value :: bytes

definition zero_action :: action where
  "zero_action = \<lparr>a_typ = actionTypeUnknown, a_time = zero_time, a_key = [], a_value = []\<rparr>"

definition action_Encode :: "action \<Rightarrow> bytes outcome" where
  "action_Encode a =
     bind_ok (must_ByteSliceFromString (a_key a)) (\<lambda>k.
       Ok (char_of (a_typ a) # LittleEndian_put (u64 (UnixMilli (a_time a))) @ k @ a_value a))"

definition action_Decode :: "bytes \<Rightarrow> action \<Rightarrow> action outcome" where
  "action_Decode buf a =
     (case buf of
        [] \<Rightarrow> Ok a
      | b0 # rest \<Rightarrow>
          bind_ok (LittleEndian_Uint64 rest) (\<lambda>t.
          bind_ok (slice_from 9 buf) (\<lambda>kb.
          let k = ByteSliceToString kb
          in bind_ok (slice_from (9 + 1 + int (length k)) buf) (\<lambda>v.
             Ok (a\<lparr>a_typ := of_char b0, a_time := time_UnixMilli (i64 (int t)), a_key := k,
                   a_value := v\<rparr>)))))"

section \<open>Entries\<close>

text \<open>An entry of the store; \<open>confirmed\<close> is the identity of its channel.\<close>

record kv =
  kv_key :: string
  kv_time :: go_time
  kv_value :: bytes
  confirmed :: nat

definition kv_Encode :: "kv \<Rightarrow> bytes outcome" where
  "kv_Encode k =
     bind_ok (must_ByteSliceFromString (kv_key k)) (\<lambda>kb.
       Ok (kb @ BigEndian_put (u64 (UnixMilli (kv_time k))) @
           BigEndian_put (u64 (int (length (kv_value k)))) @ kv_value k))"

definition kv_Decode :: "bytes \<Rightarrow> kv \<Rightarrow> (kv \<times> int) outcome" where
  "kv_Decode buf k =
     (if length buf < 1 then Ok (k, 0)
      else
        let key = ByteSliceToString buf; n = int (length key)
        in bind_ok (slice_from (1 + n) buf) (\<lambda>tb.
           bind_ok (BigEndian_Uint64 tb) (\<lambda>t.
           bind_ok (slice_from (1 + 8 + n) buf) (\<lambda>lb.
           bind_ok (BigEndian_Uint64 lb) (\<lambda>l.
           let off = 1 + 8 + 8 + n; len = i64 (int l); hi = i64 (off + len)
           in bind_ok (slice_range off hi buf) (\<lambda>v.
              Ok (k\<lparr>kv_key := key, kv_time := time_UnixMilli (i64 (int t)), kv_value := v\<rparr>, hi)))))))"

section \<open>Lemmas\<close>

named_theorems codec_defs \<comment> \<open>the definitions of the encodings\<close>

lemmas [codec_defs] = action_Encode_def action_Decode_def kv_Encode_def kv_Decode_def
  must_ByteSliceFromString_def

lemma length_le_bytes [simp]: "length (le_bytes k n) = k"
  by (induction k arbitrary: n) simp_all

lemma length_put [simp]: "length (LittleEndian_put n) = 8" "length (BigEndian_put n) = 8"
  by (simp_all add: LittleEndian_put_def BigEndian_put_def)

lemma le_value_le_bytes: "n < 256 ^ k \<Longrightarrow> le_value (le_bytes k n) = n"
proof (induction k arbitrary: n)
  case (Suc k)
  have "n div 256 < 256 ^ k" using Suc.prems by (simp add: less_mult_imp_div_less mult.commute)
  then show ?case using Suc.IH by (simp add: of_char_mod_256 mod_mult_div_eq)
qed simp

lemma u64_less: "u64 x < 256 ^ 8"
proof -
  have "x mod 2 ^ 64 < 2 ^ 64" by simp
  then have "nat (x mod 2 ^ 64) < nat (2 ^ 64)" by (subst nat_less_eq_zless) simp_all
  then show ?thesis by (simp add: u64_def)
qed

lemma Uint64_put [simp]:
  "LittleEndian_Uint64 (LittleEndian_put (u64 x) @ r) = Ok (u64 x)"
  "BigEndian_Uint64 (BigEndian_put (u64 x) @ r) = Ok (u64 x)"
  using le_value_le_bytes [OF u64_less, of x]
  by (simp_all add: LittleEndian_Uint64_def BigEndian_Uint64_def)
    (simp_all add: LittleEndian_put_def BigEndian_put_def)

lemma i64_u64 [simp]: "i64 (int (u64 x)) = i64 x"
  by (rule i64_cong) (simp add: u64_def)

lemma ByteSliceToString_append [simp]:
  "NUL \<notin> set k \<Longrightarrow> ByteSliceToString (k @ NUL # r) = k"
  unfolding ByteSliceToString_def by (rule takeWhile_append_stop) auto

lemma slice_from_append [simp]:
  "n = int (length xs) \<Longrightarrow> slice_from n (xs @ ys) = Ok ys"
  by (simp add: slice_from_def)

lemma slice_append [simp]:
  "lo = int (length xs) \<Longrightarrow> hi = int (length xs + length ys) \<Longrightarrow> slice_range lo hi (xs @ ys @ zs) = Ok ys"
  by (simp add: slice_range_def)

lemma ByteSliceToString_le: "length (ByteSliceToString b) \<le> length b"
  by (simp add: ByteSliceToString_def length_takeWhile_le)

lemma ByteSliceToString_less: "length (ByteSliceToString b) < length b \<longleftrightarrow> NUL \<in> set b"
  unfolding ByteSliceToString_def by (induction b) auto

text \<open>A decoded entry consumes at least seventeen bytes and not more than there are.\<close>

lemma kv_Decode_progress:
  assumes "kv_Decode buf k = Ok (k', n)" and "buf \<noteq> []"
  shows "17 \<le> n" and "n \<le> int (length buf)"
proof -
  obtain v where "slice_range (1 + 8 + 8 + int (length (ByteSliceToString buf))) n buf = Ok v"
    using assms by (auto simp: kv_Decode_def Let_def split: if_splits)
  then show "17 \<le> n" "n \<le> int (length buf)" by (auto simp: slice_range_def split: if_splits)
qed

lemma kv_Decode_append:
  assumes "kv_Encode k = Ok b" and "int (length b) < 2 ^ 63"
  shows "kv_Decode (b @ r) k0 =
           Ok (k0\<lparr>kv_key := kv_key k, kv_time := time_UnixMilli (UnixMilli (kv_time k)),
                  kv_value := kv_value k\<rparr>, int (length b))"
proof -
  let ?t = "BigEndian_put (u64 (UnixMilli (kv_time k)))" and ?l = "BigEndian_put (u64 (int (length (kv_value k))))"
  have nul: "NUL \<notin> set (kv_key k)" and b: "b = kv_key k @ [NUL] @ ?t @ ?l @ kv_value k"
    using assms(1) by (auto simp: kv_Encode_def must_ByteSliceFromString_def split: if_splits)
  have len: "int (length b) = 1 + 8 + 8 + int (length (kv_key k)) + int (length (kv_value k))"
    by (simp add: b)
  have i: "i64 (int (length (kv_value k))) = int (length (kv_value k))"
    "i64 (1 + 8 + 8 + int (length (kv_key k)) + int (length (kv_value k))) = int (length b)"
    using assms(2) len by (auto intro!: i64_id simp: is_i64_def)
  have s1: "slice_from (1 + int (length (kv_key k))) (b @ r) = Ok (?t @ ?l @ kv_value k @ r)"
    using slice_from_append [of _ "kv_key k @ [NUL]" "?t @ ?l @ kv_value k @ r"] by (simp add: b)
  have s2: "slice_from (1 + 8 + int (length (kv_key k))) (b @ r) = Ok (?l @ kv_value k @ r)"
    using slice_from_append [of _ "kv_key k @ [NUL] @ ?t" "?l @ kv_value k @ r"] by (simp add: b add.commute)
  have s3: "slice_range (1 + 8 + 8 + int (length (kv_key k))) (int (length b)) (b @ r) = Ok (kv_value k)"
  proof -
    have "slice_range (1 + 8 + 8 + int (length (kv_key k))) (int (length b))
        ((kv_key k @ [NUL] @ ?t @ ?l) @ kv_value k @ r) = Ok (kv_value k)"
      by (rule slice_append) (simp_all add: len)
    then show ?thesis by (simp add: b)
  qed
  have key: "ByteSliceToString (b @ r) = kv_key k"
    using ByteSliceToString_append [OF nul, of "?t @ ?l @ kv_value k @ r"] by (simp add: b)
  have ne: "\<not> length (b @ r) < 1" by (simp add: b)
  have um: "i64 (UnixMilli t) = UnixMilli t" for t by (simp add: UnixMilli_def)
  show ?thesis
    unfolding kv_Decode_def if_not_P [OF ne] Let_def key s1 s2 bind_ok.simps Uint64_put i64_u64 i s3 um ..
qed

lemma action_Decode_Encode:
  assumes "NUL \<notin> set (a_key a)" and "a_typ a < 256"
  shows "\<exists>b. action_Encode a = Ok b \<and>
           action_Decode b a0 = Ok (a\<lparr>a_time := time_UnixMilli (UnixMilli (a_time a))\<rparr>)"
proof -
  let ?t = "LittleEndian_put (u64 (UnixMilli (a_time a)))" and ?c = "char_of (a_typ a) :: char"
  let ?b = "?c # ?t @ (a_key a @ [NUL]) @ a_value a"
  have enc: "action_Encode a = Ok ?b"
    using assms(1) by (simp add: action_Encode_def must_ByteSliceFromString_def)
  have s1: "slice_from 9 ?b = Ok (a_key a @ NUL # a_value a)"
    using slice_from_append [of 9 "?c # ?t" "a_key a @ NUL # a_value a"] by simp
  have s2: "slice_from (9 + 1 + int (length (a_key a))) ?b = Ok (a_value a)"
    using slice_from_append [of _ "?c # ?t @ a_key a @ [NUL]" "a_value a"] by simp
  have um: "i64 (UnixMilli t) = UnixMilli t" for t by (simp add: UnixMilli_def)
  have ty: "of_char ?c = a_typ a" using assms(2) by simp
  have "action_Decode ?b a0 = Ok (a0\<lparr>a_typ := a_typ a, a_time := time_UnixMilli (UnixMilli (a_time a)),
      a_key := a_key a, a_value := a_value a\<rparr>)"
    unfolding action_Decode_def list.case Uint64_put bind_ok.simps s1
      ByteSliceToString_append [OF assms(1)] Let_def s2 i64_u64 um ty ..
  then show ?thesis using enc by simp
qed

section \<open>Round trips\<close>

text \<open>
  C33. A broadcast message survives its encoding: for a key without NUL bytes the receiver
  decodes type, key and value exactly, and the time in milliseconds. Encoding a key with a NUL
  byte panics.
\<close>

theorem action_roundtrip:
  assumes "a_typ a < 256"
  shows "if NUL \<in> set (a_key a) then \<exists>m. action_Encode a = Panic m
         else \<exists>b. action_Encode a = Ok b \<and>
           action_Decode b a0 = Ok (a\<lparr>a_time := time_UnixMilli (UnixMilli (a_time a))\<rparr>)"
  using action_Decode_Encode [OF _ assms]
  by (simp add: action_Encode_def must_ByteSliceFromString_def)

theorem action_roundtrip_witness:
  "\<exists>b. action_Encode \<lparr>a_typ = 1, a_time = time_UnixMilli 7, a_key = ''k'', a_value = ''v''\<rparr> = Ok b \<and>
     action_Decode b zero_action =
       Ok \<lparr>a_typ = 1, a_time = time_UnixMilli 7, a_key = ''k'', a_value = ''v''\<rparr>"
  using action_roundtrip [of "\<lparr>a_typ = 1, a_time = time_UnixMilli 7, a_key = ''k'', a_value = ''v''\<rparr>" zero_action]
  by (simp add: NUL_def char_of_eq_iff is_i64_def)

text \<open>
  C34. An entry of the state survives its encoding, also when other entries follow it, and
  the decoder reports exactly the number of bytes of the entry, so that the next one is found.
\<close>

theorem kv_roundtrip:
  assumes "NUL \<notin> set (kv_key k)" and "int (length (kv_key k) + length (kv_value k)) < 2 ^ 62"
  shows "\<exists>b. kv_Encode k = Ok b \<and>
           kv_Decode (b @ r) k0 =
             Ok (k0\<lparr>kv_key := kv_key k, kv_time := time_UnixMilli (UnixMilli (kv_time k)),
                    kv_value := kv_value k\<rparr>, int (length b))"
proof -
  obtain b where b: "kv_Encode k = Ok b" and
    len: "length b = length (kv_key k) + 1 + 8 + 8 + length (kv_value k)"
    using assms(1) by (auto simp: kv_Encode_def must_ByteSliceFromString_def)
  then have "int (length b) < 2 ^ 63" using assms(2) by simp
  with b show ?thesis using kv_Decode_append by blast
qed

theorem kv_roundtrip_witness:
  "\<exists>b. kv_Encode \<lparr>kv_key = ''k'', kv_time = time_UnixMilli 7, kv_value = ''v'', confirmed = 0\<rparr> = Ok b \<and>
     kv_Decode (b @ ''rest'') \<lparr>kv_key = [], kv_time = zero_time, kv_value = [], confirmed = 3\<rparr> =
       Ok (\<lparr>kv_key = ''k'', kv_time = time_UnixMilli 7, kv_value = ''v'', confirmed = 3\<rparr>, int (length b))"
  using kv_roundtrip [of "\<lparr>kv_key = ''k'', kv_time = time_UnixMilli 7, kv_value = ''v'', confirmed = 0\<rparr>"
      "''rest''" "\<lparr>kv_key = [], kv_time = zero_time, kv_value = [], confirmed = 3\<rparr>"]
  by (simp add: NUL_def char_of_eq_iff is_i64_def)

text \<open>
  Decoding a message panics exactly when the buffer is not empty and either too short for
  the type and the time, or has no NUL byte that ends the key. An empty buffer decodes to
  nothing.
\<close>

theorem action_Decode_panics:
  "((\<exists>m. action_Decode buf a = Panic m) \<longleftrightarrow>
      buf \<noteq> [] \<and> (length buf < 9 \<or> NUL \<notin> set (drop 9 buf))) \<and>
   action_Decode [] a = Ok a"
proof (cases buf)
  case (Cons c rest)
  have "length (ByteSliceToString (drop 9 buf)) + 10 \<le> length buf \<longleftrightarrow> 9 \<le> length buf \<and> NUL \<in> set (drop 9 buf)"
    using ByteSliceToString_less [of "drop 9 buf"] ByteSliceToString_le [of "drop 9 buf"] by auto
  then show ?thesis using Cons
    by (auto simp: action_Decode_def LittleEndian_Uint64_def slice_from_def Let_def)
qed (simp add: action_Decode_def)

end
