(* ===== verification/Gossip_Delegate.thy ===== *)
theory Gossip_Delegate
  imports Gossip_Codec
begin

text \<open>
  \<^verbatim>\<open>gossip/delegate.go\<close> and \<^verbatim>\<open>gossip/broadcast.go\<close>: the replicated key-value store
  behind the gossip lock. The transmit queue of \<^verbatim>\<open>memberlist\<close> is a parameter. A channel is a
  number, \<open>closed\<close> the set of closed ones; an entry is a pointer in Go, and its identity is
  that of its channel. Each section under the mutex is one function. A \<^verbatim>\<open>select\<close> that waits
  (in \<^verbatim>\<open>get\<close> and \<^verbatim>\<open>set\<close>) is a relation: it returns in any way that is ready.
\<close>

section \<open>Broadcasts\<close>

record broadcast =
  payload :: bytes
  b_action :: action

text \<open>The argument is another implementation of the interface (\<open>None\<close>) or a broadcast.\<close>

definition Invalidates :: "broadcast \<Rightarrow> broadcast option \<Rightarrow> bool" where
  "Invalidates b other =
     (case other of
        Some ob \<Rightarrow> a_key (b_action b) = a_key (b_action ob) \<and> a_typ (b_action b) = a_typ (b_action ob)
      | None \<Rightarrow> False)"

definition Message :: "broadcast \<Rightarrow> bytes" where
  "Message b = payload b"

section \<open>The delegate\<close>

record 'q Queue =
  QueueBroadcast :: "broadcast \<Rightarrow> 'q \<Rightarrow> 'q"
  NumNodes :: "'q \<Rightarrow> nat"
  queue_GetBroadcasts :: "int \<Rightarrow> int \<Rightarrow> 'q \<Rightarrow> bytes list \<times> 'q"

record 'q delegate =
  queue_ops :: "'q Queue"
  queue :: 'q
  d_kv :: "string \<Rightarrow> kv option"
  closed :: "nat set"
  next_chan :: nat
  d_meta :: bytes

definition newDelegate :: "'q Queue \<Rightarrow> 'q \<Rightarrow> 'q delegate" where
  "newDelegate Q q =
     \<lparr>queue_ops = Q, queue = q, d_kv = (\<lambda>_. None), closed = {}, next_chan = 0, d_meta = []\<rparr>"

definition setMeta :: "bytes \<Rightarrow> 'q delegate \<Rightarrow> 'q delegate" where
  "setMeta m d = d\<lparr>d_meta := m\<rparr>"

definition NodeMeta :: "int \<Rightarrow> 'q delegate \<Rightarrow> bytes outcome" where
  "NodeMeta s d =
     (if s \<le> int (length (d_meta d)) then slice_range 0 s (d_meta d) else Ok (d_meta d))"

definition make_chan :: "'q delegate \<Rightarrow> nat \<times> 'q delegate" where
  "make_chan d = (next_chan d, d\<lparr>next_chan := Suc (next_chan d)\<rparr>)"

definition maybeClose :: "nat \<Rightarrow> 'q delegate \<Rightarrow> bool \<times> 'q delegate" where
  "maybeClose c d =
     (if c \<in> closed d then (False, d) else (True, d\<lparr>closed := insert c (closed d)\<rparr>))"

definition enqueue :: "bytes \<Rightarrow> action \<Rightarrow> 'q delegate \<Rightarrow> 'q delegate" where
  "enqueue b a d =
     d\<lparr>queue := QueueBroadcast (queue_ops d) \<lparr>payload = b, b_action = a\<rparr> (queue d)\<rparr>"

text \<open>\<^verbatim>\<open>NotifyMsg\<close>: the part that applies an action that is neither old nor known.\<close>

definition apply_action :: "bytes \<Rightarrow> action \<Rightarrow> 'q delegate \<Rightarrow> 'q delegate" where
  "apply_action b a d =
     enqueue b a
       (if a_typ a = actionTypeSet
        then
          let (c, d) = make_chan d
          in d\<lparr>d_kv := (d_kv d)(a_key a \<mapsto>
                 \<lparr>kv_key = a_key a, kv_time = a_time a, kv_value = a_value a, confirmed = c\<rparr>),
               closed := insert c (closed d)\<rparr>
        else if a_typ a = actionTypeDelete then d\<lparr>d_kv := (d_kv d)(a_key a := None)\<rparr>
        else d)"

definition notify :: "bytes \<Rightarrow> action \<Rightarrow> 'q delegate \<Rightarrow> 'q delegate" where
  "notify b a d =
     (case d_kv d (a_key a) of
        Some v \<Rightarrow>
          if time_Before (a_time a) (kv_time v) then d
          else if kv_value v = a_value a then snd (maybeClose (confirmed v) d)
          else apply_action b a d
      | None \<Rightarrow> apply_action b a d)"

definition NotifyMsg :: "bytes \<Rightarrow> 'q delegate \<Rightarrow> 'q delegate outcome" where
  "NotifyMsg b d = bind_ok (action_Decode b zero_action) (\<lambda>a. Ok (notify b a d))"

definition GetBroadcasts :: "int \<Rightarrow> int \<Rightarrow> 'q delegate \<Rightarrow> bytes list \<times> 'q delegate" where
  "GetBroadcasts overhead limit d =
     (let (out, q) = queue_GetBroadcasts (queue_ops d) overhead limit (queue d)
      in (out, d\<lparr>queue := q\<rparr>))"

text \<open>\<^verbatim>\<open>LocalState\<close> for an iteration order \<open>ks\<close> of the map.\<close>

fun encode_all :: "kv list \<Rightarrow> bytes outcome" where
  "encode_all [] = Ok []"
| "encode_all (k # ks) = bind_ok (kv_Encode k) (\<lambda>b. bind_ok (encode_all ks) (\<lambda>r. Ok (b @ r)))"

definition LocalState :: "string list \<Rightarrow> 'q delegate \<Rightarrow> bytes outcome" where
  "LocalState ks d = encode_all (List.map_filter (d_kv d) ks)"

definition merge_entry :: "kv \<Rightarrow> 'q delegate \<Rightarrow> 'q delegate" where
  "merge_entry k d =
     (let put = snd (maybeClose (confirmed k) (d\<lparr>d_kv := (d_kv d)(kv_key k \<mapsto> k)\<rparr>))
      in case d_kv d (kv_key k) of
           Some v \<Rightarrow>
             if time_Before (kv_time k) (kv_time v) then d
             else if kv_value v = kv_value k then snd (maybeClose (confirmed v) d)
             else put
         | None \<Rightarrow> put)"

text \<open>The loop of \<^verbatim>\<open>MergeRemoteState\<close>; it ends because every entry has bytes.\<close>

function (sequential) MergeRemoteState :: "bytes \<Rightarrow> 'q delegate \<Rightarrow> 'q delegate outcome" where
  "MergeRemoteState [] d = Ok d"
| "MergeRemoteState (x # xs) d =
     (let (c, d1) = make_chan d
      in case kv_Decode (x # xs) \<lparr>kv_key = [], kv_time = zero_time, kv_value = [], confirmed = c\<rparr> of
           Panic m \<Rightarrow> Panic m
         | Ok (k, n) \<Rightarrow>
             if n \<le> int (length (x # xs)) \<and> 0 \<le> n
             then MergeRemoteState (drop (nat n) (x # xs)) (merge_entry k d1)
             else Panic ''slice bounds out of range'')"
  by pat_completeness auto

termination
proof (relation "measure (length \<circ> fst)")
  fix x xs and d :: "'q delegate" and c d1 p k n
  assume "kv_Decode (x # xs) \<lparr>kv_key = [], kv_time = zero_time, kv_value = [], confirmed = c\<rparr> = Ok p"
    and "(k, n) = p"
  then have "17 \<le> n" using kv_Decode_progress(1) [of "x # xs"] by (metis list.distinct(1))
  then show "((drop (nat n) (x # xs), merge_entry k d1), (x # xs, d)) \<in> measure (length \<circ> fst)"
    by simp
qed simp

section \<open>Reading, writing and deleting\<close>

text \<open>
  \<^verbatim>\<open>get\<close>: the entry is looked up under the lock; then the call waits for its channel or for
  the context. \<open>get_returns c v d x\<close>: with the context \<open>c\<close> and the store \<open>d\<close> at the moment of
  the return, \<open>x\<close> is returned for the entry \<open>v\<close> found at the start.
\<close>

inductive get_returns :: "ctx \<Rightarrow> kv option \<Rightarrow> 'q delegate \<Rightarrow> go_error + bytes option \<Rightarrow> bool" where
  absent: "get_returns c None d (Inr None)"
| found: "confirmed v \<in> closed d \<Longrightarrow> get_returns c (Some v) d (Inr (Some (kv_value v)))"
| cancelled: "get_returns (Some e) (Some v) d (Inl e)"

text \<open>
  \<^verbatim>\<open>set\<close>: the state of a call, waiting for a channel with or without the mutex held, or
  done. \<open>set_begin\<close> is the part up to the loop, at the time \<open>now\<close>; \<open>set_step\<close> is one
  \<^verbatim>\<open>select\<close> of the loop.
\<close>

datatype set_pc = LockedWait nat | Waiting nat | Done "go_error option"

definition set_begin :: "string \<Rightarrow> bytes \<Rightarrow> go_time \<Rightarrow> 'q delegate \<Rightarrow> (set_pc \<times> 'q delegate) outcome" where
  "set_begin key value now d =
     (let fresh =
        (let (c, d) = make_chan d;
             k = \<lparr>kv_key = key, kv_time = Truncate_ms now, kv_value = value, confirmed = c\<rparr>;
             d = d\<lparr>d_kv := (d_kv d)(key \<mapsto> k)\<rparr>;
             a = \<lparr>a_typ = actionTypeSet, a_time = kv_time k, a_key = key, a_value = value\<rparr>
         in bind_ok (action_Encode a) (\<lambda>b.
              let d = enqueue b a d;
                  d = (if NumNodes (queue_ops d) (queue d) = 1 then snd (maybeClose c d) else d)
              in Ok (Waiting c, d)))
      in case d_kv d key of
           Some v \<Rightarrow> if kv_value v = value then Ok (LockedWait (confirmed v), d) else fresh
         | None \<Rightarrow> fresh)"

inductive set_step :: "ctx \<Rightarrow> set_pc \<times> 'q delegate \<Rightarrow> set_pc \<times> 'q delegate \<Rightarrow> bool" where
  tick: "set_step c (Waiting ch, d)
    (Waiting ch, if NumNodes (queue_ops d) (queue d) = 1 then snd (maybeClose ch d) else d)"
| confirm: "ch \<in> closed d \<Longrightarrow> set_step c (Waiting ch, d) (Done None, d)"
| cancel: "set_step (Some e) (Waiting ch, d) (Done (Some e), d)"
| locked_confirm: "ch \<in> closed d \<Longrightarrow> set_step c (LockedWait ch, d) (Done None, d)"
| locked_cancel: "set_step (Some e) (LockedWait ch, d) (Done (Some e), d)"

inductive_cases set_step_WaitingE: "set_step c (Waiting ch, d) s"
inductive_cases set_step_LockedE: "set_step c (LockedWait ch, d) s"

definition delegate_delete :: "string \<Rightarrow> go_time \<Rightarrow> 'q delegate \<Rightarrow> 'q delegate outcome" where
  "delegate_delete key now d =
     (case d_kv d key of
        None \<Rightarrow> Ok d
      | Some _ \<Rightarrow>
          let d = d\<lparr>d_kv := (d_kv d)(key := None)\<rparr>;
              a = \<lparr>a_typ = actionTypeDelete, a_time = Truncate_ms now, a_key = key, a_value = []\<rparr>
          in bind_ok (action_Encode a) (\<lambda>b. Ok (enqueue b a d)))"

section \<open>The invariant\<close>

text \<open>
  Entries are stored under their own key, with a time that has no monotonic reading (so that
  times compare by the wall clock), and all channels were made by \<open>make_chan\<close>.
\<close>

definition entry_ok :: "nat \<Rightarrow> string \<Rightarrow> kv \<Rightarrow> bool" where
  "entry_ok n key k \<longleftrightarrow>
     kv_key k = key \<and> NUL \<notin> set key \<and> monotonic (kv_time k) = None \<and> confirmed k < n"

definition wf_delegate :: "'q delegate \<Rightarrow> bool" where
  "wf_delegate d \<longleftrightarrow>
     (\<forall>key k. d_kv d key = Some k \<longrightarrow> entry_ok (next_chan d) key k) \<and>
     (\<forall>c \<in> closed d. c < next_chan d)"

lemma wf_delegateD: "wf_delegate d \<Longrightarrow> d_kv d key = Some k \<Longrightarrow> entry_ok (next_chan d) key k"
  by (simp add: wf_delegate_def)

lemma entry_ok_mono: "entry_ok n key k \<Longrightarrow> n \<le> m \<Longrightarrow> entry_ok m key k"
  by (simp add: entry_ok_def)

lemma wf_newDelegate [simp]: "wf_delegate (newDelegate Q q)"
  by (simp add: wf_delegate_def newDelegate_def)

lemma wf_make_chan:
  "wf_delegate d \<Longrightarrow> wf_delegate (snd (make_chan d))"
  by (auto simp: wf_delegate_def make_chan_def entry_ok_def less_Suc_eq)

lemma wf_put:
  assumes "wf_delegate d" and "entry_ok (next_chan d) key k"
  shows "wf_delegate (d\<lparr>d_kv := (d_kv d)(key \<mapsto> k)\<rparr>)"
  using assms by (simp add: wf_delegate_def)

lemma wf_remove: "wf_delegate d \<Longrightarrow> wf_delegate (d\<lparr>d_kv := (d_kv d)(key := None)\<rparr>)"
  by (simp add: wf_delegate_def)

lemma wf_close: "wf_delegate d \<Longrightarrow> c < next_chan d \<Longrightarrow> wf_delegate (d\<lparr>closed := insert c (closed d)\<rparr>)"
  by (simp add: wf_delegate_def)

lemma maybeClose_snd: "snd (maybeClose c d) = d\<lparr>closed := insert c (closed d)\<rparr>"
  by (auto simp: maybeClose_def insert_absorb)

lemma wf_enqueue [simp]: "wf_delegate (enqueue b a d) = wf_delegate d"
  by (simp add: wf_delegate_def enqueue_def)

lemma enqueue_sel [simp]:
  "d_kv (enqueue b a d) = d_kv d" "closed (enqueue b a d) = closed d"
  "next_chan (enqueue b a d) = next_chan d" "queue_ops (enqueue b a d) = queue_ops d"
  by (simp_all add: enqueue_def)

text \<open>What a decoded action looks like.\<close>

lemma ByteSliceToString_nul: "NUL \<notin> set (ByteSliceToString b)"
  unfolding ByteSliceToString_def by (auto dest: set_takeWhileD)

lemma action_Decode_wf:
  assumes "action_Decode b a0 = Ok a" and "b \<noteq> []"
  shows "NUL \<notin> set (a_key a)" and "monotonic (a_time a) = None"
  using assms ByteSliceToString_nul
  by (auto simp: action_Decode_def Let_def time_UnixMilli_def split: list.splits)

lemma kv_Decode_wf:
  assumes "kv_Decode b k0 = Ok (k, n)" and "b \<noteq> []"
  shows "NUL \<notin> set (kv_key k)" and "monotonic (kv_time k) = None" and "confirmed k = confirmed k0"
  using assms ByteSliceToString_nul
  by (auto simp: kv_Decode_def Let_def time_UnixMilli_def split: if_splits)

definition wf_action :: "action \<Rightarrow> bool" where
  "wf_action a \<longleftrightarrow> NUL \<notin> set (a_key a) \<and> monotonic (a_time a) = None"

lemma wf_apply_action:
  assumes "wf_delegate d" and "wf_action a"
  shows "wf_delegate (apply_action b a d)"
proof -
  let ?k = "\<lparr>kv_key = a_key a, kv_time = a_time a, kv_value = a_value a, confirmed = next_chan d\<rparr>"
  let ?d = "snd (make_chan d)"
  have "entry_ok (next_chan ?d) (a_key a) ?k"
    using assms(2) by (simp add: entry_ok_def wf_action_def make_chan_def)
  from wf_close [OF wf_put [OF wf_make_chan [OF assms(1)] this], of "next_chan d"]
  have "wf_delegate (?d\<lparr>d_kv := (d_kv ?d)(a_key a \<mapsto> ?k), closed := insert (next_chan d) (closed ?d)\<rparr>)"
    by (simp add: make_chan_def)
  then show ?thesis using assms(1) wf_remove [of d]
    by (simp add: apply_action_def make_chan_def)
qed

lemma wf_notify:
  assumes "wf_delegate d" and "wf_action a"
  shows "wf_delegate (notify b a d)"
proof (cases "d_kv d (a_key a)")
  case (Some v)
  then have "confirmed v < next_chan d" using wf_delegateD [OF assms(1)] by (simp add: entry_ok_def)
  then show ?thesis using Some assms wf_apply_action [of d a b]
    by (simp add: notify_def maybeClose_snd wf_close)
qed (use assms wf_apply_action in \<open>simp add: notify_def\<close>)

lemma wf_merge_entry:
  assumes "wf_delegate d" and "entry_ok (next_chan d) (kv_key k) k"
  shows "wf_delegate (merge_entry k d)"
proof -
  have put: "wf_delegate (d\<lparr>d_kv := (d_kv d)(kv_key k \<mapsto> k), closed := insert (confirmed k) (closed d)\<rparr>)"
    using wf_close [OF wf_put [OF assms], of "confirmed k"] assms(2) by (simp add: entry_ok_def)
  show ?thesis
  proof (cases "d_kv d (kv_key k)")
    case (Some v)
    then have "confirmed v < next_chan d" using wf_delegateD [OF assms(1)] by (simp add: entry_ok_def)
    then show ?thesis using Some assms(1) put by (simp add: merge_entry_def Let_def maybeClose_snd wf_close)
  qed (use put in \<open>simp add: merge_entry_def Let_def maybeClose_snd\<close>)
qed

lemma wf_MergeRemoteState:
  "MergeRemoteState buf d = Ok d' \<Longrightarrow> wf_delegate d \<Longrightarrow> wf_delegate d'"
proof (induction buf d arbitrary: d' rule: MergeRemoteState.induct)
  case (2 x xs d)
  let ?k0 = "\<lparr>kv_key = [], kv_time = zero_time, kv_value = [], confirmed = next_chan d\<rparr>"
  obtain k n where dec: "kv_Decode (x # xs) ?k0 = Ok (k, n)" and n: "n \<le> int (length (x # xs)) \<and> 0 \<le> n"
    and rec: "MergeRemoteState (drop (nat n) (x # xs)) (merge_entry k (snd (make_chan d))) = Ok d'"
    using 2(2) by (auto simp: make_chan_def split: outcome.splits prod.splits if_splits)
  have "entry_ok (next_chan (snd (make_chan d))) (kv_key k) k"
    using kv_Decode_wf [OF dec] by (simp add: entry_ok_def make_chan_def)
  then have "wf_delegate (merge_entry k (snd (make_chan d)))"
    using wf_merge_entry wf_make_chan 2(3) by blast
  then show ?case using 2(1) [OF _ _ dec _ n rec] by (simp add: make_chan_def)
qed simp

lemma NotifyMsg_wf_action:
  assumes "action_Decode b zero_action = Ok a"
  shows "wf_action a"
  using assms action_Decode_wf [OF assms]
  by (cases "b = []") (auto simp: wf_action_def action_Decode_def zero_action_def zero_time_def)

lemma wf_set_begin:
  assumes "wf_delegate d" and "set_begin key v now d = Ok (pc, d')"
  shows "wf_delegate d' \<and> (case pc of Waiting c \<Rightarrow> c < next_chan d' | LockedWait c \<Rightarrow> c < next_chan d' | Done _ \<Rightarrow> True)"
proof (cases "\<exists>k. d_kv d key = Some k \<and> kv_value k = v")
  case True
  then show ?thesis using assms wf_delegateD [OF assms(1)]
    by (auto simp: set_begin_def entry_ok_def)
next
  case False
  let ?k = "\<lparr>kv_key = key, kv_time = Truncate_ms now, kv_value = v, confirmed = next_chan d\<rparr>"
  let ?d = "(snd (make_chan d))\<lparr>d_kv := (d_kv d)(key \<mapsto> ?k)\<rparr>"
  obtain b where b: "action_Encode \<lparr>a_typ = actionTypeSet, a_time = Truncate_ms now, a_key = key, a_value = v\<rparr> = Ok b"
    and pc: "pc = Waiting (next_chan d)"
    and d': "d' = (let e = enqueue b \<lparr>a_typ = actionTypeSet, a_time = Truncate_ms now, a_key = key, a_value = v\<rparr> ?d
        in if NumNodes (queue_ops e) (queue e) = 1 then snd (maybeClose (next_chan d) e) else e)"
    using assms(2) False
    by (auto simp: set_begin_def make_chan_def Let_def split: option.splits)
  have "NUL \<notin> set key" using b by (auto simp: action_Encode_def must_ByteSliceFromString_def split: if_splits)
  then have "entry_ok (next_chan (snd (make_chan d))) key ?k" by (simp add: entry_ok_def make_chan_def)
  then have "wf_delegate ?d"
    using wf_put [OF wf_make_chan [OF assms(1)]] by (simp add: make_chan_def)
  moreover have n: "next_chan ?d = Suc (next_chan d)" by (simp add: make_chan_def)
  ultimately have "wf_delegate (?d\<lparr>closed := insert (next_chan d) (closed ?d)\<rparr>)"
    by (intro wf_close) simp_all
  then show ?thesis using \<open>wf_delegate ?d\<close> n
    by (simp add: d' pc Let_def maybeClose_snd) (simp add: wf_delegate_def enqueue_def)
qed

text \<open>
  C27. The store is well formed in every state: an entry is found under its own key, which has
  no NUL byte (so that it can be encoded), its time has no monotonic reading (so that all
  comparisons are by wall time), and channels are never reused. Every operation, messages and
  remote states from the network included, keeps this.
\<close>

theorem delegate_invariant:
  assumes "wf_delegate d"
  shows "wf_delegate (newDelegate Q q) \<and>
         (\<forall>b d'. NotifyMsg b d = Ok d' \<longrightarrow> wf_delegate d') \<and>
         (\<forall>buf d'. MergeRemoteState buf d = Ok d' \<longrightarrow> wf_delegate d') \<and>
         (\<forall>key v now pc d'. set_begin key v now d = Ok (pc, d') \<longrightarrow> wf_delegate d') \<and>
         (\<forall>c ch pc d'. ch < next_chan d \<and> set_step c (Waiting ch, d) (pc, d') \<longrightarrow> wf_delegate d') \<and>
         (\<forall>key now d'. delegate_delete key now d = Ok d' \<longrightarrow> wf_delegate d')"
proof -
  have "wf_delegate d'" if "NotifyMsg b d = Ok d'" for b d'
    using that wf_notify [OF assms NotifyMsg_wf_action] by (auto simp: NotifyMsg_def)
  moreover have "wf_delegate d'" if "ch < next_chan d" "set_step c (Waiting ch, d) (pc, d')" for c ch pc d'
    using that(2) that(1) assms by (auto elim!: set_step_WaitingE simp: maybeClose_snd wf_close)
  moreover have "wf_delegate d'" if "delegate_delete key now d = Ok d'" for key now d'
    using that assms wf_remove [OF assms, of key] by (auto simp: delegate_delete_def Let_def split: option.splits)
  ultimately show ?thesis
    using wf_MergeRemoteState [OF _ assms] wf_set_begin [OF assms] by auto
qed

section \<open>Last writer wins\<close>

text \<open>The abstract cell of a key: the time (by the wall clock) and the value.\<close>

definition cell_of :: "'q delegate \<Rightarrow> string \<Rightarrow> (int \<times> bytes) option" where
  "cell_of d key = map_option (\<lambda>k. (wall (kv_time k), kv_value k)) (d_kv d key)"

fun lww :: "int \<times> bytes \<Rightarrow> (int \<times> bytes) option \<Rightarrow> (int \<times> bytes) option" where
  "lww (t, v) None = Some (t, v)"
| "lww (t, v) (Some (t0, v0)) = (if t < t0 \<or> v0 = v then Some (t0, v0) else Some (t, v))"

lemma time_Before_wf:
  "monotonic s = None \<Longrightarrow> time_Before s t = (wall s < wall t)"
  by (simp add: time_Before_def)

lemma notify_cell:
  assumes "wf_action a" and "a_typ a = actionTypeSet"
  shows "cell_of (notify b a d) key =
           (if key = a_key a then lww (wall (a_time a), a_value a) (cell_of d key) else cell_of d key)"
  using assms
  by (auto simp: notify_def cell_of_def apply_action_def make_chan_def maybeClose_snd wf_action_def
      time_Before_wf split: option.splits)

lemma merge_entry_cell:
  assumes "monotonic (kv_time k) = None"
  shows "cell_of (merge_entry k d) key =
           (if key = kv_key k then lww (wall (kv_time k), kv_value k) (cell_of d key) else cell_of d key)"
  using assms
  by (auto simp: merge_entry_def cell_of_def maybeClose_snd Let_def time_Before_wf split: option.splits)

text \<open>A sequence of writes with no two different ones of the same time or the same value.\<close>

definition consistent :: "(int \<times> bytes) set \<Rightarrow> bool" where
  "consistent X \<longleftrightarrow> (\<forall>x \<in> X. \<forall>y \<in> X. fst x = fst y \<or> snd x = snd y \<longrightarrow> x = y)"

lemma lww_latest:
  assumes "consistent (set xs)"
  shows "case fold lww xs None of
           None \<Rightarrow> xs = []
         | Some m \<Rightarrow> m \<in> set xs \<and> (\<forall>x \<in> set xs. fst x \<le> fst m)"
  using assms
proof (induction xs rule: rev_induct)
  case (snoc x xs)
  have "consistent (set xs)" using snoc.prems by (simp add: consistent_def)
  note IH = snoc.IH [OF this]
  show ?case
  proof (cases "fold lww xs None")
    case None
    then show ?thesis using IH by (cases x) simp
  next
    case (Some m)
    then have m: "m \<in> set xs" "\<forall>y \<in> set xs. fst y \<le> fst m" using IH by simp_all
    then have "snd x = snd m \<longrightarrow> x = m" using snoc.prems by (auto simp: consistent_def)
    then show ?thesis using Some m by (cases x; cases m) auto
  qed
qed simp

lemma lww_order_free:
  assumes "consistent (set xs)" and "set ys = set xs"
  shows "fold lww ys None = fold lww xs None"
proof -
  have y: "case fold lww ys None of None \<Rightarrow> ys = []
      | Some m \<Rightarrow> m \<in> set ys \<and> (\<forall>x \<in> set ys. fst x \<le> fst m)"
    using lww_latest [of ys] assms by simp
  have x: "case fold lww xs None of None \<Rightarrow> xs = []
      | Some m \<Rightarrow> m \<in> set xs \<and> (\<forall>x \<in> set xs. fst x \<le> fst m)"
    using lww_latest [OF assms(1)] .
  have e: "ys = [] \<longleftrightarrow> xs = []" using assms(2) by (metis set_empty)
  show ?thesis
  proof (cases "fold lww ys None"; cases "fold lww xs None")
    fix m m'
    assume f: "fold lww ys None = Some m" "fold lww xs None = Some m'"
    then have "m \<in> set xs" "m' \<in> set xs" "fst m \<le> fst m'" "fst m' \<le> fst m"
      using x y assms(2) by auto
    then have "m = m'" using assms(1) unfolding consistent_def by (meson order_antisym)
    then show ?thesis using f by simp
  qed (use x y e in auto)
qed

section \<open>Convergence\<close>

text \<open>The delivery of a sequence of messages.\<close>

fun notify_all :: "bytes list \<Rightarrow> 'q delegate \<Rightarrow> 'q delegate outcome" where
  "notify_all [] d = Ok d"
| "notify_all (b # bs) d = bind_ok (NotifyMsg b d) (notify_all bs)"

definition decoded :: "bytes \<Rightarrow> action" where
  "decoded b = (case action_Decode b zero_action of Ok a \<Rightarrow> a | Panic _ \<Rightarrow> zero_action)"

definition set_message :: "bytes \<Rightarrow> bool" where
  "set_message b \<longleftrightarrow> action_Decode b zero_action = Ok (decoded b) \<and> a_typ (decoded b) = actionTypeSet"

definition write_of :: "bytes \<Rightarrow> int \<times> bytes" where
  "write_of b = (wall (a_time (decoded b)), a_value (decoded b))"

definition writes_for :: "string \<Rightarrow> bytes list \<Rightarrow> (int \<times> bytes) list" where
  "writes_for key bs = map write_of (filter (\<lambda>b. a_key (decoded b) = key) bs)"

lemma notify_all_cells:
  assumes "\<forall>b \<in> set bs. set_message b"
  shows "\<exists>e. notify_all bs d = Ok e \<and>
           (\<forall>key. cell_of e key = fold lww (writes_for key bs) (cell_of d key))"
  using assms
proof (induction bs arbitrary: d)
  case (Cons b bs)
  then have dec: "action_Decode b zero_action = Ok (decoded b)" "a_typ (decoded b) = actionTypeSet"
    by (simp_all add: set_message_def)
  note cell = notify_cell [OF NotifyMsg_wf_action [OF dec(1)] dec(2), of b d]
  obtain e where e: "notify_all bs (notify b (decoded b) d) = Ok e"
      "\<forall>key. cell_of e key = fold lww (writes_for key bs) (cell_of (notify b (decoded b) d) key)"
    using Cons.IH [of "notify b (decoded b) d"] Cons.prems by auto
  then show ?case using dec cell by (simp add: NotifyMsg_def writes_for_def write_of_def)
qed (simp add: writes_for_def)

lemma cell_of_new [simp]: "cell_of (newDelegate Q q) key = None"
  by (simp add: cell_of_def newDelegate_def)

text \<open>
  C28. Convergence: two members that start empty and receive the same set messages, in any order
  and with any repetitions, hold the same time and value for every key, provided no two different
  writes of a key carry the same time or the same value.
\<close>

theorem gossip_converges:
  assumes "\<forall>b \<in> set bs. set_message b" and "\<forall>key. consistent (set (writes_for key bs))"
    and "set bs' = set bs"
  shows "\<exists>e e'. notify_all bs (newDelegate Q q) = Ok e \<and> notify_all bs' (newDelegate Q' q') = Ok e' \<and>
           (\<forall>key. cell_of e' key = cell_of e key)"
proof -
  have "set (writes_for key bs') = set (writes_for key bs)" for key
    using assms(3) by (simp add: writes_for_def)
  then have "fold lww (writes_for key bs') None = fold lww (writes_for key bs) None" for key
    using lww_order_free assms(2) by metis
  moreover have "\<forall>b \<in> set bs'. set_message b" using assms(1,3) by simp
  ultimately show ?thesis
    using notify_all_cells [OF assms(1), of "newDelegate Q q"] notify_all_cells [of bs' "newDelegate Q' q'"]
    by (metis cell_of_new)
qed

text \<open>Messages for the examples: the key \<open>k\<close> set to a value at a millisecond.\<close>

definition msg_action :: "int \<Rightarrow> bytes \<Rightarrow> action" where
  "msg_action ms v = \<lparr>a_typ = actionTypeSet, a_time = time_UnixMilli ms, a_key = ''k'', a_value = v\<rparr>"

definition msg :: "int \<Rightarrow> bytes \<Rightarrow> bytes" where
  "msg ms v = (case action_Encode (msg_action ms v) of Ok b \<Rightarrow> b | Panic _ \<Rightarrow> [])"

lemma msg_decoded:
  assumes "is_i64 ms"
  shows "action_Decode (msg ms v) zero_action = Ok (msg_action ms v)" and "set_message (msg ms v)"
    and "write_of (msg ms v) = (ms * 1000000, v)" and "a_key (decoded (msg ms v)) = ''k''"
proof -
  have "NUL \<notin> set (a_key (msg_action ms v))" "a_typ (msg_action ms v) < 256"
    by (simp_all add: msg_action_def NUL_def char_of_eq_iff actionTypeSet_def)
  from action_Decode_Encode [OF this, of zero_action]
  show d: "action_Decode (msg ms v) zero_action = Ok (msg_action ms v)"
    using assms by (auto simp: msg_def msg_action_def)
  then show "set_message (msg ms v)" "write_of (msg ms v) = (ms * 1000000, v)"
    "a_key (decoded (msg ms v)) = ''k''"
    by (simp_all add: set_message_def write_of_def decoded_def msg_action_def time_UnixMilli_def)
qed

definition demo_queue :: "nat \<Rightarrow> broadcast list Queue" where
  "demo_queue n =
     \<lparr>QueueBroadcast = (\<lambda>b q. q @ [b]), NumNodes = (\<lambda>q. n),
      queue_GetBroadcasts = (\<lambda>_ _ q. (map Message q, []))\<rparr>"

theorem gossip_converges_witness:
  "\<exists>e e'. notify_all [msg 1 ''a'', msg 2 ''b''] (newDelegate (demo_queue 2) []) = Ok e \<and>
     notify_all [msg 2 ''b'', msg 1 ''a'', msg 2 ''b''] (newDelegate (demo_queue 3) []) = Ok e' \<and>
     (\<forall>key. cell_of e' key = cell_of e key)"
proof (rule gossip_converges)
  have i: "is_i64 1" "is_i64 2" by (simp_all add: is_i64_def)
  show "\<forall>b \<in> set [msg 1 ''a'', msg 2 ''b'']. set_message b" using msg_decoded(2) i by simp
  show "\<forall>key. consistent (set (writes_for key [msg 1 ''a'', msg 2 ''b'']))"
    using msg_decoded(3,4) [OF i(1)] msg_decoded(3,4) [OF i(2)]
    by (auto simp: writes_for_def consistent_def)
qed auto


section \<open>Exchange of states\<close>

text \<open>An entry that can be encoded without loss.\<close>

definition sendable :: "kv \<Rightarrow> bool" where
  "sendable k \<longleftrightarrow>
     NUL \<notin> set (kv_key k) \<and> time_UnixMilli (UnixMilli (kv_time k)) = kv_time k \<and>
     int (length (kv_key k) + length (kv_value k)) < 2 ^ 62"

definition merge_copy :: "kv \<Rightarrow> 'q delegate \<Rightarrow> 'q delegate" where
  "merge_copy k d = merge_entry (k\<lparr>confirmed := next_chan d\<rparr>) (snd (make_chan d))"

lemma sendable_Encode:
  assumes "sendable k"
  obtains b where "kv_Encode k = Ok b" and "int (length b) < 2 ^ 63" and "17 \<le> length b"
  using assms by (auto simp: sendable_def kv_Encode_def must_ByteSliceFromString_def)

lemma MergeRemoteState_entry:
  assumes "sendable k" and "kv_Encode k = Ok b"
  shows "MergeRemoteState (b @ r) d = MergeRemoteState r (merge_copy k d)"
proof -
  have len: "int (length b) < 2 ^ 63" "17 \<le> length b"
    using sendable_Encode [OF assms(1)] assms(2) by (metis outcome.inject(2))+
  then obtain x xs where b: "b @ r = x # xs" by (cases "b @ r") auto
  let ?k0 = "\<lparr>kv_key = [], kv_time = zero_time, kv_value = [], confirmed = next_chan d\<rparr>"
  have "kv_Decode (x # xs) ?k0 = Ok (k\<lparr>confirmed := next_chan d\<rparr>, int (length b))"
    using kv_Decode_append [OF assms(2) len(1), of r ?k0] assms(1) by (simp add: b sendable_def)
  moreover have "length b \<le> length (x # xs)" "drop (length b) (x # xs) = r"
    unfolding b [symmetric] by simp_all
  ultimately have "MergeRemoteState (x # xs) d = MergeRemoteState r (merge_copy k d)"
    by (simp add: make_chan_def merge_copy_def)
  then show ?thesis by (simp add: b)
qed

lemma merge_encoded:
  assumes "\<forall>k \<in> set ks. sendable k"
  shows "\<exists>buf. encode_all ks = Ok buf \<and> MergeRemoteState buf d = Ok (fold merge_copy ks d)"
  using assms
proof (induction ks arbitrary: d)
  case (Cons k ks)
  obtain b where b: "kv_Encode k = Ok b"
    using sendable_Encode [of k] Cons.prems by (metis list.set_intros(1))
  obtain buf where "encode_all ks = Ok buf" "MergeRemoteState buf (merge_copy k d) = Ok (fold merge_copy ks (merge_copy k d))"
    using Cons by auto
  then show ?case using b MergeRemoteState_entry [OF _ b, of buf d] Cons.prems by simp
qed simp

lemma merge_copy_cell:
  assumes "monotonic (kv_time k) = None"
  shows "cell_of (merge_copy k d) key =
           (if key = kv_key k then lww (wall (kv_time k), kv_value k) (cell_of d key) else cell_of d key)"
  using assms merge_entry_cell [of "k\<lparr>confirmed := next_chan d\<rparr>" "snd (make_chan d)" key]
  by (simp add: merge_copy_def) (simp add: cell_of_def make_chan_def)

lemma fold_merge_cell:
  assumes "distinct (map kv_key ks)" and "\<forall>k \<in> set ks. monotonic (kv_time k) = None"
  shows "cell_of (fold merge_copy ks d) key =
           (case find (\<lambda>k. kv_key k = key) ks of
              None \<Rightarrow> cell_of d key
            | Some k \<Rightarrow> lww (wall (kv_time k), kv_value k) (cell_of d key))"
  using assms
proof (induction ks arbitrary: d)
  case (Cons k ks)
  note IH = Cons.IH [of "merge_copy k d"]
  have no: "find (\<lambda>k'. kv_key k' = kv_key k) ks = None"
    using Cons.prems(1) by (simp add: find_None_iff) (metis imageI)
  show ?case
    using IH Cons.prems no merge_copy_cell [of k d] by (auto split: option.splits)
qed simp

lemma map_filter_entries:
  assumes "wf_delegate d" and "distinct ks"
  shows "distinct (map kv_key (List.map_filter (d_kv d) ks))"
    and "find (\<lambda>k. kv_key k = key) (List.map_filter (d_kv d) ks) = (if key \<in> set ks then d_kv d key else None)"
proof -
  have key: "d_kv d x = Some k \<Longrightarrow> kv_key k = x" for x k
    using wf_delegateD [OF assms(1)] by (simp add: entry_ok_def)
  have "map kv_key (List.map_filter (d_kv d) ks) = filter (\<lambda>x. d_kv d x \<noteq> None) ks"
    by (induction ks) (auto simp: List.map_filter_simps key split: option.splits)
  then show "distinct (map kv_key (List.map_filter (d_kv d) ks))" using assms(2) by simp
  show "find (\<lambda>k. kv_key k = key) (List.map_filter (d_kv d) ks) = (if key \<in> set ks then d_kv d key else None)"
    by (induction ks) (auto simp: List.map_filter_simps key split: option.splits)
qed


definition demo_delegate :: "broadcast list delegate" where
  "demo_delegate =
     (newDelegate (demo_queue 1) [])\<lparr>d_kv := [''k'' \<mapsto>
        \<lparr>kv_key = ''k'', kv_time = time_UnixMilli 5, kv_value = ''v'', confirmed = 0\<rparr>],
        next_chan := 1\<rparr>"

lemma demo_delegate_wf: "wf_delegate demo_delegate"
  by (simp add: wf_delegate_def demo_delegate_def newDelegate_def entry_ok_def NUL_def char_of_eq_iff
      time_UnixMilli_def)

theorem delegate_invariant_witness:
  "\<exists>d'. NotifyMsg (msg 1 ''old'') demo_delegate = Ok d' \<and> wf_delegate d'"
proof -
  have "action_Decode (msg 1 ''old'') zero_action = Ok (msg_action 1 ''old'')"
    by (rule msg_decoded) (simp add: is_i64_def)
  then obtain d' where "NotifyMsg (msg 1 ''old'') demo_delegate = Ok d'" by (simp add: NotifyMsg_def)
  with delegate_invariant [OF demo_delegate_wf, of "demo_queue 1" "[]"] show ?thesis by blast
qed


section \<open>Set, get and delete\<close>

text \<open>
  On a single member a write returns at once and is read back: unless the same value is
  already waiting for its confirmation, \<^verbatim>\<open>set\<close> can return nil in its first round, and
  \<^verbatim>\<open>get\<close> then returns the value.
\<close>

theorem single_node_set_get:
  assumes "\<forall>q. NumNodes (queue_ops d) q = 1" and "NUL \<notin> set key"
    and "\<forall>k. d_kv d key = Some k \<and> kv_value k = v \<longrightarrow> confirmed k \<in> closed d"
  shows "\<exists>pc d' k. set_begin key v now d = Ok (pc, d') \<and> set_step c (pc, d') (Done None, d') \<and>
           d_kv d' key = Some k \<and> get_returns c' (Some k) d' (Inr (Some v))"
proof (cases "\<exists>k. d_kv d key = Some k \<and> kv_value k = v")
  case True
  then obtain k where k: "d_kv d key = Some k" "kv_value k = v" by blast
  then have "set_begin key v now d = Ok (LockedWait (confirmed k), d)" "confirmed k \<in> closed d"
    using assms(3) by (simp_all add: set_begin_def)
  then show ?thesis using k set_step.locked_confirm get_returns.found by metis
next
  case False
  let ?a = "\<lparr>a_typ = actionTypeSet, a_time = Truncate_ms now, a_key = key, a_value = v\<rparr>"
  let ?k = "\<lparr>kv_key = key, kv_time = Truncate_ms now, kv_value = v, confirmed = next_chan d\<rparr>"
  obtain b where b: "action_Encode ?a = Ok b"
    using assms(2) by (simp add: action_Encode_def must_ByteSliceFromString_def)
  let ?d = "snd (maybeClose (next_chan d) (enqueue b ?a ((snd (make_chan d))\<lparr>d_kv := (d_kv d)(key \<mapsto> ?k)\<rparr>)))"
  have "set_begin key v now d = Ok (Waiting (next_chan d), ?d)"
    using False b assms(1) by (auto simp: set_begin_def make_chan_def Let_def enqueue_def split: option.splits)
  moreover have "next_chan d \<in> closed ?d" "d_kv ?d key = Some ?k" by (simp_all add: maybeClose_snd)
  moreover have "get_returns c' (Some ?k) ?d (Inr (Some v))"
    using get_returns.found [of ?k ?d c'] by (simp add: maybeClose_snd)
  ultimately show ?thesis using set_step.confirm by metis
qed

theorem single_node_set_get_witness:
  "\<exists>pc d' k. set_begin ''k'' ''w'' zero_time demo_delegate = Ok (pc, d') \<and>
     set_step None (pc, d') (Done None, d') \<and>
     d_kv d' ''k'' = Some k \<and> get_returns None (Some k) d' (Inr (Some ''w''))"
  by (rule single_node_set_get)
    (simp_all add: demo_delegate_def newDelegate_def demo_queue_def NUL_def char_of_eq_iff)

text \<open>
  A deleted entry leaves no trace: any set message that arrives afterwards restores the
  key, however old it is.
\<close>

theorem delete_forgets:
  assumes "d_kv d key = Some k" and "delegate_delete key now d = Ok d1"
    and "set_message b" and "a_key (decoded b) = key"
  shows "cell_of d1 key = None \<and>
         (\<exists>d2. NotifyMsg b d1 = Ok d2 \<and> cell_of d2 key = Some (write_of b))"
proof -
  have none: "cell_of d1 key = None"
    using assms(1,2) by (auto simp: delegate_delete_def cell_of_def Let_def)
  have dec: "action_Decode b zero_action = Ok (decoded b)" "a_typ (decoded b) = actionTypeSet"
    using assms(3) by (simp_all add: set_message_def)
  show ?thesis
    using none notify_cell [OF NotifyMsg_wf_action [OF dec(1)] dec(2), of b d1 key] dec(1) assms(4)
    by (simp add: NotifyMsg_def write_of_def)
qed

theorem delete_forgets_witness:
  "\<exists>d1 d2. delegate_delete ''k'' zero_time demo_delegate = Ok d1 \<and> NotifyMsg (msg 1 ''old'') d1 = Ok d2 \<and>
     cell_of d2 ''k'' = Some (1000000, ''old'')"
proof -
  have i: "is_i64 1" by (simp add: is_i64_def)
  obtain d1 where d1: "delegate_delete ''k'' zero_time demo_delegate = Ok d1"
    by (simp add: delegate_delete_def demo_delegate_def action_Encode_def must_ByteSliceFromString_def
        NUL_def char_of_eq_iff Let_def)
  have "d_kv demo_delegate ''k'' = Some (the (d_kv demo_delegate ''k''))" by (simp add: demo_delegate_def)
  from delete_forgets [OF this d1 msg_decoded(2,4) [OF i]] d1 msg_decoded(3) [OF i] show ?thesis by simp
qed

section \<open>Superseded writes\<close>

text \<open>A channel that is open and that no entry refers to.\<close>

definition orphan :: "nat \<Rightarrow> 'q delegate \<Rightarrow> bool" where
  "orphan ch d \<longleftrightarrow>
     ch < next_chan d \<and> ch \<notin> closed d \<and> (\<forall>key k. d_kv d key = Some k \<longrightarrow> confirmed k \<noteq> ch)"

text \<open>What the network and other calls do to the store.\<close>

inductive store_step :: "'q delegate \<Rightarrow> 'q delegate \<Rightarrow> bool" where
  message: "NotifyMsg b d = Ok d' \<Longrightarrow> store_step d d'"
| merge: "MergeRemoteState buf d = Ok d' \<Longrightarrow> store_step d d'"
| setting: "set_begin key v now d = Ok (pc, d') \<Longrightarrow> store_step d d'"
| waiting: "set_step c (Waiting ch, d) (pc, d') \<Longrightarrow> store_step d d'"
| deleting: "delegate_delete key now d = Ok d' \<Longrightarrow> store_step d d'"

lemma orphan_apply_action: "orphan ch d \<Longrightarrow> orphan ch (apply_action b a d)"
  by (auto simp: orphan_def apply_action_def make_chan_def split: if_splits)

lemma orphan_close: "orphan ch d \<Longrightarrow> c \<noteq> ch \<Longrightarrow> orphan ch (d\<lparr>closed := insert c (closed d)\<rparr>)"
  by (simp add: orphan_def)

lemma orphan_notify: "orphan ch d \<Longrightarrow> orphan ch (notify b a d)"
  using orphan_apply_action [of ch d b a]
  by (auto simp: notify_def maybeClose_snd orphan_def split: option.splits)

lemma orphan_merge_entry:
  "orphan ch d \<Longrightarrow> confirmed k \<noteq> ch \<Longrightarrow> orphan ch (merge_entry k d)"
  by (auto simp: merge_entry_def maybeClose_snd orphan_def Let_def split: option.splits)

lemma orphan_Merge:
  "MergeRemoteState buf d = Ok d' \<Longrightarrow> orphan ch d \<Longrightarrow> orphan ch d' \<and> queue_ops d' = queue_ops d"
proof (induction buf d arbitrary: d' rule: MergeRemoteState.induct)
  case (2 x xs d)
  let ?k0 = "\<lparr>kv_key = [], kv_time = zero_time, kv_value = [], confirmed = next_chan d\<rparr>"
  obtain k n where dec: "kv_Decode (x # xs) ?k0 = Ok (k, n)" and n: "n \<le> int (length (x # xs)) \<and> 0 \<le> n"
    and rec: "MergeRemoteState (drop (nat n) (x # xs)) (merge_entry k (snd (make_chan d))) = Ok d'"
    using 2(2) by (auto simp: make_chan_def split: outcome.splits prod.splits if_splits)
  have "orphan ch (snd (make_chan d))" "next_chan d \<noteq> ch"
    using 2(3) by (auto simp: orphan_def make_chan_def)
  then have "orphan ch (merge_entry k (snd (make_chan d)))"
    using orphan_merge_entry [of ch "snd (make_chan d)" k] kv_Decode_wf(3) [OF dec] by simp
  moreover have "queue_ops (merge_entry k (snd (make_chan d))) = queue_ops d"
    by (simp add: merge_entry_def maybeClose_snd make_chan_def Let_def split: option.splits)
  ultimately show ?case using 2(1) [OF _ _ dec _ n rec] by (simp add: make_chan_def)
qed simp

lemma orphan_step:
  assumes "store_step d d'" and "orphan ch d" and "\<forall>q. NumNodes (queue_ops d) q \<noteq> 1"
  shows "orphan ch d' \<and> queue_ops d' = queue_ops d"
  using assms(1)
proof cases
  case (message b)
  have "queue_ops (notify b a d) = queue_ops d" for a
    by (simp add: notify_def maybeClose_snd apply_action_def make_chan_def enqueue_def split: option.splits)
  then show ?thesis using message orphan_notify [OF assms(2)] by (auto simp: NotifyMsg_def)
next
  case (merge buf)
  then show ?thesis using orphan_Merge assms(2) by blast
next
  case (setting key v now pc)
  let ?k = "\<lparr>kv_key = key, kv_time = Truncate_ms now, kv_value = v, confirmed = next_chan d\<rparr>"
  have "d' = d \<or> (\<exists>b a. d' = enqueue b a (d\<lparr>next_chan := Suc (next_chan d), d_kv := (d_kv d)(key \<mapsto> ?k)\<rparr>))"
    using setting assms(3)
    by (auto simp: set_begin_def make_chan_def Let_def enqueue_def split: option.splits if_splits)
  then show ?thesis using assms(2) by (auto simp: orphan_def split: if_splits) metis
next
  case (waiting c ch' pc)
  then show ?thesis using assms(2,3) by (auto elim!: set_step_WaitingE)
next
  case (deleting key now)
  then show ?thesis using assms(2)
    by (auto simp: delegate_delete_def Let_def orphan_def enqueue_def split: option.splits if_splits) metis
qed

lemma orphan_steps:
  assumes "store_step\<^sup>*\<^sup>* d d'" and "orphan ch d" and "\<forall>q. NumNodes (queue_ops d) q \<noteq> 1"
  shows "orphan ch d' \<and> queue_ops d' = queue_ops d"
  using assms by (induction rule: rtranclp_induct) (auto dest: orphan_step)

text \<open>
  C31. A write that is superseded before it is confirmed never returns by itself: once a newer
  message replaces its entry, nothing that happens to the store afterwards closes its channel
  as long as there is more than one member, so that \<^verbatim>\<open>set\<close> keeps waiting until its context
  is done.
\<close>

theorem superseded_set_waits:
  assumes "wf_delegate d" and "d_kv d key = Some k" and "confirmed k \<notin> closed d"
    and "\<forall>key' k'. d_kv d key' = Some k' \<and> confirmed k' = confirmed k \<longrightarrow> key' = key"
    and "set_message b" and "a_key (decoded b) = key" and "wall (kv_time k) \<le> wall (a_time (decoded b))"
    and "a_value (decoded b) \<noteq> kv_value k" and "\<forall>q. NumNodes (queue_ops d) q \<noteq> 1"
    and "NotifyMsg b d = Ok d1" and "store_step\<^sup>*\<^sup>* d1 d2"
    and "set_step None (Waiting (confirmed k), d2) (pc, d3)"
  shows "pc = Waiting (confirmed k)"
proof -
  have dec: "action_Decode b zero_action = Ok (decoded b)" "a_typ (decoded b) = actionTypeSet"
    using assms(5) by (simp_all add: set_message_def)
  have wfa: "wf_action (decoded b)" using NotifyMsg_wf_action [OF dec(1)] .
  have "d1 = notify b (decoded b) d" using assms(10) dec(1) by (simp add: NotifyMsg_def)
  also have "\<dots> = apply_action b (decoded b) d"
    using assms(2,6,7,8) wfa by (auto simp: notify_def wf_action_def time_Before_wf)
  finally have d1: "d1 = apply_action b (decoded b) d" .
  have "confirmed k < next_chan d" using wf_delegateD [OF assms(1,2)] by (simp add: entry_ok_def)
  then have "orphan (confirmed k) d1"
    using assms(3,4,6) dec(2) by (auto simp: d1 orphan_def apply_action_def make_chan_def split: if_splits)
  moreover have "queue_ops d1 = queue_ops d"
    by (simp add: d1 apply_action_def make_chan_def enqueue_def)
  ultimately have "orphan (confirmed k) d2" using orphan_steps [OF assms(11)] assms(9) by simp
  then show ?thesis using assms(12) by (auto elim!: set_step_WaitingE simp: orphan_def)
qed

theorem superseded_set_waits_witness:
  "\<exists>d1. NotifyMsg (msg 6 ''w'') (demo_delegate\<lparr>queue_ops := demo_queue 2\<rparr>) = Ok d1 \<and>
     \<not> set_step None (Waiting 0, d1) (Done None, d1)"
proof -
  let ?d = "demo_delegate\<lparr>queue_ops := demo_queue 2\<rparr>"
  let ?k = "\<lparr>kv_key = ''k'', kv_time = time_UnixMilli 5, kv_value = ''v'', confirmed = 0\<rparr>"
  have i: "is_i64 6" by (simp add: is_i64_def)
  have d: "decoded (msg 6 ''w'') = msg_action 6 ''w''" using msg_decoded(1) [OF i] by (simp add: decoded_def)
  obtain d1 where d1: "NotifyMsg (msg 6 ''w'') ?d = Ok d1"
    using msg_decoded(1) [OF i] by (simp add: NotifyMsg_def)
  have "\<not> set_step None (Waiting (confirmed ?k), d1) (Done None, d1)"
  proof
    assume s: "set_step None (Waiting (confirmed ?k), d1) (Done None, d1)"
    have "Done None = Waiting (confirmed ?k)"
    proof (rule superseded_set_waits [where d = ?d and b = "msg 6 ''w''" and k = ?k and key = "''k''",
          OF _ _ _ _ _ _ _ _ _ d1 rtranclp.rtrancl_refl s])
      show "wf_delegate ?d" using demo_delegate_wf by (simp add: wf_delegate_def)
      show "set_message (msg 6 ''w'')" using msg_decoded(2) [OF i] .
      show "a_key (decoded (msg 6 ''w'')) = ''k''" using msg_decoded(4) [OF i] .
    qed (simp_all add: d demo_delegate_def newDelegate_def demo_queue_def msg_action_def time_UnixMilli_def
        split: if_splits)
    then show False by simp
  qed
  then show ?thesis using d1 by simp
qed

end
