(* ===== verification/Gossip_Lock.thy ===== *)
theory Gossip_Lock
  imports Gossip_Delegate Elector_Properties
begin

text \<open>
  \<^verbatim>\<open>gossip/lock.go\<close>, the \<^verbatim>\<open>KV\<close> interface of \<^verbatim>\<open>gossip/kv.go\<close> and the
  \<^verbatim>\<open>kvstore\<close> of \<^verbatim>\<open>gossip/gossip.go\<close>. An interface value is the record of its methods.
  The locale \<open>kv_store\<close> is the contract that the lock relies on; the store of a cluster with
  a single member fulfils it.

  The calls that wait are resolved by the runtime: \<open>await c ch locked d\<close> is the way in which
  a call that waits for the channel \<open>ch\<close> returns, with the store at that moment. The mutex is
  held (\<open>locked\<close>) when \<^verbatim>\<open>set\<close> finds the same value.
\<close>

section \<open>The interface and the lock\<close>

record 'k KV =
  KV_Get :: "ctx \<Rightarrow> string \<Rightarrow> 'k \<Rightarrow> (go_error + bytes) \<times> 'k"
  KV_Set :: "ctx \<Rightarrow> string \<Rightarrow> bytes \<Rightarrow> 'k \<Rightarrow> go_error option \<times> 'k"
  KV_Delete :: "ctx \<Rightarrow> string \<Rightarrow> 'k \<Rightarrow> go_error option \<times> 'k"
  KV_Close :: "'k \<Rightarrow> go_error option \<times> 'k"

record 'k gossip_lock =
  g_kv :: "'k KV"
  g_name :: string
  g_id :: string
  g_state :: 'k

definition NewLock :: "'k KV \<Rightarrow> string \<Rightarrow> string \<Rightarrow> 'k \<Rightarrow> 'k gossip_lock" where
  "NewLock K name i s = \<lparr>g_kv = K, g_name = name, g_id = i, g_state = s\<rparr>"

definition gossip_Get ::
    "ctx \<Rightarrow> 'k gossip_lock \<Rightarrow> (go_error + Record \<times> bytes) \<times> 'k gossip_lock" where
  "gossip_Get c l =
     (let (x, s) = KV_Get (g_kv l) c (g_name l) (g_state l); l = l\<lparr>g_state := s\<rparr>
      in case x of
           Inl err \<Rightarrow> (Inl err, l)
         | Inr b \<Rightarrow>
             (case json_Unmarshal b zero_Record of
                Inl err \<Rightarrow> (Inl err, l)
              | Inr ler \<Rightarrow> (Inr (ler, b), l)))"

definition gossip_Create ::
    "ctx \<Rightarrow> Record \<Rightarrow> 'k gossip_lock \<Rightarrow> go_error option \<times> 'k gossip_lock" where
  "gossip_Create c ler l =
     (let (err, s) = KV_Set (g_kv l) c (g_name l) (json_bytes ler) (g_state l)
      in (err, l\<lparr>g_state := s\<rparr>))"

definition gossip_Update ::
    "ctx \<Rightarrow> Record \<Rightarrow> 'k gossip_lock \<Rightarrow> go_error option \<times> 'k gossip_lock" where
  "gossip_Update c ler l =
     (let (err, s) = KV_Set (g_kv l) c (g_name l) (json_bytes ler) (g_state l)
      in (err, l\<lparr>g_state := s\<rparr>))"

definition gossip_Lock :: "'k gossip_lock Lock" where
  "gossip_Lock =
     \<lparr>Get = gossip_Get, Create = gossip_Create, Update = gossip_Update, RecordEvent = (\<lambda>_ l. l),
      Identity = g_id, Describe = (\<lambda>l. ''gossip/'' @ g_name l)\<rparr>"

section \<open>The store\<close>

record 'q runtime =
  await :: "ctx \<Rightarrow> nat \<Rightarrow> bool \<Rightarrow> 'q delegate \<Rightarrow> go_error option \<times> 'q delegate"

text \<open>\<open>kv_panicked\<close> notes a panic (the encoding of a key with a NUL byte).\<close>

record 'q kvstore =
  kv_delegate :: "'q delegate"
  kv_clock :: clock
  kv_panicked :: bool

text \<open>\<^verbatim>\<open>delegate.get\<close>: the value, whether the key is there, and the error.\<close>

definition delegate_get ::
    "'q runtime \<Rightarrow> ctx \<Rightarrow> string \<Rightarrow> 'q delegate \<Rightarrow> (bytes \<times> bool \<times> go_error option) \<times> 'q delegate" where
  "delegate_get R c key d =
     (case d_kv d key of
        None \<Rightarrow> (([], False, None), d)
      | Some b \<Rightarrow>
          (case await R c (confirmed b) False d of
             (None, d) \<Rightarrow> ((kv_value b, True, None), d)
           | (Some e, d) \<Rightarrow> (([], False, Some e), d)))"

definition kvstore_Get ::
    "'q runtime \<Rightarrow> ctx \<Rightarrow> string \<Rightarrow> 'q kvstore \<Rightarrow> (go_error + bytes) \<times> 'q kvstore" where
  "kvstore_Get R c key g =
     (let ((b, ok, err), d) = delegate_get R c key (kv_delegate g);
          g = g\<lparr>kv_delegate := d\<rparr>
      in case err of
           Some e \<Rightarrow> (Inl e, g)
         | None \<Rightarrow> if \<not> ok then (Inl ErrNotExist, g) else (Inr b, g))"

definition kvstore_Set ::
    "'q runtime \<Rightarrow> ctx \<Rightarrow> string \<Rightarrow> bytes \<Rightarrow> 'q kvstore \<Rightarrow> go_error option \<times> 'q kvstore" where
  "kvstore_Set R c key value g =
     (let (now, clk) = clock_Now (kv_clock g)
      in case set_begin key value now (kv_delegate g) of
           Panic m \<Rightarrow> (Some (ErrText m), g\<lparr>kv_panicked := True\<rparr>)
         | Ok (LockedWait ch, d) \<Rightarrow>
             (let (e, d) = await R c ch True d in (e, g\<lparr>kv_delegate := d\<rparr>))
         | Ok (Waiting ch, d) \<Rightarrow>
             (let (e, d) = await R c ch False d in (e, g\<lparr>kv_delegate := d, kv_clock := clk\<rparr>))
         | Ok (Done e, d) \<Rightarrow> (e, g\<lparr>kv_delegate := d\<rparr>))"

definition kvstore_Delete ::
    "ctx \<Rightarrow> string \<Rightarrow> 'q kvstore \<Rightarrow> go_error option \<times> 'q kvstore" where
  "kvstore_Delete c key g =
     (let (now, clk) = clock_Now (kv_clock g)
      in case delegate_delete key now (kv_delegate g) of
           Panic m \<Rightarrow> (Some (ErrText m), g\<lparr>kv_panicked := True\<rparr>)
         | Ok d \<Rightarrow> (None, g\<lparr>kv_delegate := d, kv_clock := clk\<rparr>))"

text \<open>
  What the package \<^verbatim>\<open>memberlist\<close> does besides the queue is a parameter: its calls act on
  the delegate, whose callbacks they invoke, and on the state \<open>'q\<close> of the package. \<open>SetMeta\<close> is the
  assignment to the metadata of the local node, \<open>NewQueue\<close> the creation of the queue.
\<close>

record ml_Config =
  RetransmitMult :: int
  has_Logger :: bool

record 'q memberlist =
  ml_Create :: "ml_Config \<Rightarrow> 'q \<Rightarrow> go_error option \<times> 'q"
  SetMeta :: "bytes \<Rightarrow> 'q \<Rightarrow> 'q"
  NewQueue :: "int \<Rightarrow> 'q \<Rightarrow> 'q Queue \<times> 'q"
  queue_RetransmitMult :: "'q \<Rightarrow> int"
  set_RetransmitMult :: "int \<Rightarrow> 'q \<Rightarrow> 'q"
  Join :: "string list \<Rightarrow> 'q delegate \<Rightarrow> (int \<times> go_error option) \<times> 'q delegate"
  UpdateNode :: "int \<Rightarrow> 'q delegate \<Rightarrow> go_error option \<times> 'q delegate"
  Leave :: "int \<Rightarrow> 'q delegate \<Rightarrow> go_error option \<times> 'q delegate"
  Shutdown :: "'q delegate \<Rightarrow> go_error option \<times> 'q delegate"

text \<open>\<^verbatim>\<open>multierr.Combine\<close> is a parameter; \<^verbatim>\<open>time.Second\<close> is counted in nanoseconds.\<close>

definition kvstore_Close :: "multierr \<Rightarrow> 'q memberlist \<Rightarrow> 'q kvstore \<Rightarrow> go_error option \<times> 'q kvstore" where
  "kvstore_Close Combine ml g =
     (let (e1, d) = Leave ml 1000000000 (kv_delegate g);
          (e2, d) = Shutdown ml d
      in (Combine e1 e2, g\<lparr>kv_delegate := d\<rparr>))"

definition kvstore_KV :: "'q runtime \<Rightarrow> multierr \<Rightarrow> 'q memberlist \<Rightarrow> 'q kvstore KV" where
  "kvstore_KV R Combine ml =
     \<lparr>KV_Get = kvstore_Get R, KV_Set = kvstore_Set R, KV_Delete = kvstore_Delete,
      KV_Close = kvstore_Close Combine ml\<rparr>"

section \<open>The contract of the store\<close>

locale kv_store =
  fixes K :: "'k KV"
    and kv_ok :: "'k \<Rightarrow> bool"
    and key_ok :: "string \<Rightarrow> bool"
  assumes Set_ok: "kv_ok s \<Longrightarrow> key_ok key \<Longrightarrow> kv_ok (snd (KV_Set K c key v s))"
    and Get_ok: "kv_ok s \<Longrightarrow> key_ok key \<Longrightarrow> kv_ok (snd (KV_Get K c key s))"
    and Set_Get: "kv_ok s \<Longrightarrow> key_ok key \<Longrightarrow> KV_Set K c key v s = (None, s') \<Longrightarrow>
      fst (KV_Get K None key s') = Inr v"
    and Set_total: "kv_ok s \<Longrightarrow> key_ok key \<Longrightarrow> fst (KV_Set K None key v s) = None"
begin

text \<open>A lock over such a store reads back what it wrote, and every write succeeds.\<close>

lemma gossip_read_back:
  assumes "g_kv l = K" and "kv_ok (g_state l)" and "key_ok (g_name l)"
    and "gossip_Update c r l = (None, l')" and "wf_Record r" and "valid_utf8 (HolderIdentity r)"
  shows "fst (gossip_Get None l') = Inr (r, json_bytes r)"
proof -
  obtain s where s: "KV_Set K c (g_name l) (json_bytes r) (g_state l) = (None, s)" and "l' = l\<lparr>g_state := s\<rparr>"
    using assms(1,4) by (auto simp: gossip_Update_def split: prod.splits)
  then show ?thesis
    using Set_Get [OF assms(2,3) s] json_Unmarshal_Marshal [OF assms(5,6), of zero_Record] assms(1)
    by (simp add: gossip_Get_def split_beta Let_def)
qed

lemma gossip_write_succeeds:
  assumes "g_kv l = K" and "kv_ok (g_state l)" and "key_ok (g_name l)"
  shows "fst (gossip_Update None r l) = None"
  using assms Set_total by (simp add: gossip_Update_def split_beta)

end

section \<open>A cluster with a single member\<close>

text \<open>
  A runtime that prefers a closed channel to a done context; while it waits, the ticker of
  \<^verbatim>\<open>set\<close> confirms the entry, because there is no other member.
\<close>

definition single_runtime :: "'q runtime" where
  "single_runtime =
     \<lparr>await = (\<lambda>c ch locked d.
        if ch \<in> closed d then (None, d)
        else case c of Some e \<Rightarrow> (Some e, d) | None \<Rightarrow> (None, snd (maybeClose ch d)))\<rparr>"

definition single_ok :: "'q kvstore \<Rightarrow> bool" where
  "single_ok g \<longleftrightarrow>
     wf_delegate (kv_delegate g) \<and> (\<forall>q. NumNodes (queue_ops (kv_delegate g)) q = 1) \<and>
     (\<forall>key k. d_kv (kv_delegate g) key = Some k \<longrightarrow> confirmed k \<in> closed (kv_delegate g))"

lemma single_set_begin:
  assumes "wf_delegate d" and "\<forall>q. NumNodes (queue_ops d) q = 1" and "NUL \<notin> set key"
    and "\<forall>key k. d_kv d key = Some k \<longrightarrow> confirmed k \<in> closed d"
  obtains (known) k where "set_begin key v now d = Ok (LockedWait (confirmed k), d)"
      and "d_kv d key = Some k" and "kv_value k = v"
  | (fresh) d' k where "set_begin key v now d = Ok (Waiting (next_chan d), d')"
      and "d_kv d' = (d_kv d)(key \<mapsto> k)" and "kv_value k = v" and "confirmed k = next_chan d"
      and "closed d' = insert (next_chan d) (closed d)" and "queue_ops d' = queue_ops d" and "wf_delegate d'"
proof (cases "\<exists>k. d_kv d key = Some k \<and> kv_value k = v")
  case True
  then show thesis using known by (auto simp: set_begin_def)
next
  case False
  let ?a = "\<lparr>a_typ = actionTypeSet, a_time = Truncate_ms now, a_key = key, a_value = v\<rparr>"
  let ?k = "\<lparr>kv_key = key, kv_time = Truncate_ms now, kv_value = v, confirmed = next_chan d\<rparr>"
  obtain b where b: "action_Encode ?a = Ok b"
    using assms(3) by (simp add: action_Encode_def must_ByteSliceFromString_def)
  let ?d = "snd (maybeClose (next_chan d) (enqueue b ?a ((snd (make_chan d))\<lparr>d_kv := (d_kv d)(key \<mapsto> ?k)\<rparr>)))"
  have start: "set_begin key v now d = Ok (Waiting (next_chan d), ?d)"
    using False b assms(2) by (auto simp: set_begin_def make_chan_def Let_def enqueue_def split: option.splits)
  show thesis
    by (rule fresh [OF start, of ?k])
      (use wf_set_begin [OF assms(1) start] in \<open>simp_all add: maybeClose_snd make_chan_def\<close>)
qed

lemma single_Set:
  assumes "single_ok g" and "NUL \<notin> set key"
  shows "\<exists>g'. kvstore_Set single_runtime c key v g = (None, g') \<and> single_ok g' \<and>
           (\<exists>k. d_kv (kv_delegate g') key = Some k \<and> kv_value k = v)"
proof -
  let ?d = "kv_delegate g"
  have ok: "wf_delegate ?d" "\<forall>q. NumNodes (queue_ops ?d) q = 1"
    "\<forall>key k. d_kv ?d key = Some k \<longrightarrow> confirmed k \<in> closed ?d"
    using assms(1) by (simp_all add: single_ok_def)
  show ?thesis
  proof (rule single_set_begin [OF ok(1,2) assms(2) ok(3), of v "fst (clock_Now (kv_clock g))"])
    fix k
    assume "set_begin key v (fst (clock_Now (kv_clock g))) ?d = Ok (LockedWait (confirmed k), ?d)"
      and k: "d_kv ?d key = Some k" "kv_value k = v"
    then have "kvstore_Set single_runtime c key v g = (None, g)"
      using ok(3) by (simp add: kvstore_Set_def split_beta single_runtime_def Let_def)
    then show ?thesis using assms(1) k by blast
  next
    fix d' k
    assume b: "set_begin key v (fst (clock_Now (kv_clock g))) ?d = Ok (Waiting (next_chan ?d), d')"
      and d': "d_kv d' = (d_kv ?d)(key \<mapsto> k)" "kv_value k = v" "confirmed k = next_chan ?d"
        "closed d' = insert (next_chan ?d) (closed ?d)" "queue_ops d' = queue_ops ?d" "wf_delegate d'"
    let ?g = "g\<lparr>kv_delegate := d', kv_clock := snd (clock_Now (kv_clock g))\<rparr>"
    have "kvstore_Set single_runtime c key v g = (None, ?g)"
      using b d'(4) by (simp add: kvstore_Set_def split_beta single_runtime_def Let_def)
    moreover have "single_ok ?g" using ok d' by (auto simp: single_ok_def)
    ultimately show ?thesis using d'(1,2) by auto
  qed
qed

lemma single_Get:
  assumes "single_ok g"
  shows "kvstore_Get single_runtime c key g =
           (case d_kv (kv_delegate g) key of None \<Rightarrow> Inl ErrNotExist | Some k \<Rightarrow> Inr (kv_value k), g)"
  using assms by (simp add: kvstore_Get_def delegate_get_def single_ok_def single_runtime_def split: option.splits)

interpretation single: kv_store "kvstore_KV single_runtime Combine ml" single_ok "\<lambda>key. NUL \<notin> set key"
  for Combine ml
proof
  fix s s' :: "'a kvstore" and key c v
  assume ok: "single_ok s" and key: "NUL \<notin> set key"
  obtain g where g: "kvstore_Set single_runtime c key v s = (None, g)" "single_ok g"
      "\<exists>k. d_kv (kv_delegate g) key = Some k \<and> kv_value k = v"
    using single_Set [OF ok key] by blast
  then show "single_ok (snd (KV_Set (kvstore_KV single_runtime Combine ml) c key v s))"
    by (simp add: kvstore_KV_def)
  show "single_ok (snd (KV_Get (kvstore_KV single_runtime Combine ml) c key s))"
    using single_Get [OF ok] ok by (simp add: kvstore_KV_def)
  show "KV_Set (kvstore_KV single_runtime Combine ml) c key v s = (None, s') \<Longrightarrow>
      fst (KV_Get (kvstore_KV single_runtime Combine ml) None key s') = Inr v"
    using g single_Get [of s' None key] by (auto simp: kvstore_KV_def)
  show "fst (KV_Set (kvstore_KV single_runtime Combine ml) None key v s) = None"
    using single_Set [OF ok key, of None v] by (auto simp: kvstore_KV_def)
qed

lemma gossip_Lock_sel [simp]:
  "Get gossip_Lock = gossip_Get" "Create gossip_Lock = gossip_Create" "Update gossip_Lock = gossip_Update"
  "RecordEvent gossip_Lock m l = l" "Identity gossip_Lock = g_id"
  by (simp_all add: gossip_Lock_def)

interpretation gossip: lock_identity gossip_Lock
  by unfold_locales
    (simp_all add: gossip_Get_def gossip_Create_def gossip_Update_def split_beta Let_def split: sum.splits)

text \<open>
  C32. The gossip lock on a single member: every write succeeds and is read back with the same
  bytes. But there is no compare: a client that never read the record replaces the record that
  another client has just written, and both were told that their write succeeded.
\<close>

theorem gossip_write_replaces:
  assumes "g_kv l = kvstore_KV single_runtime Combine ml" and "single_ok (g_state l)"
    and "NUL \<notin> set (g_name l)" and "wf_Record r1" and "wf_Record r2"
    and "valid_utf8 (HolderIdentity r1)" and "valid_utf8 (HolderIdentity r2)"
  shows "let (e1, l1) = gossip_Create None r1 l;
             (e2, l2) = gossip_Update None r2 (l1\<lparr>g_id := i\<rparr>)
         in e1 = None \<and> e2 = None \<and>
            fst (gossip_Get None l1) = Inr (r1, json_bytes r1) \<and>
            fst (gossip_Get None l2) = Inr (r2, json_bytes r2)"
proof -
  have cu: "gossip_Create = (gossip_Update :: ctx \<Rightarrow> Record \<Rightarrow> 'a kvstore gossip_lock \<Rightarrow> _)"
    by (simp add: gossip_Create_def gossip_Update_def fun_eq_iff)
  obtain l1 where w1: "gossip_Update None r1 l = (None, l1)"
    using single.gossip_write_succeeds [OF assms(1-3)] by (metis prod.collapse)
  have l1: "g_kv (l1\<lparr>g_id := i\<rparr>) = kvstore_KV single_runtime Combine ml"
    "single_ok (g_state (l1\<lparr>g_id := i\<rparr>))" "NUL \<notin> set (g_name (l1\<lparr>g_id := i\<rparr>))"
    using w1 assms(1-3) single.Set_ok [OF assms(2,3), of Combine ml None "json_bytes r1"]
    by (auto simp: gossip_Update_def split: prod.splits)
  obtain l2 where w2: "gossip_Update None r2 (l1\<lparr>g_id := i\<rparr>) = (None, l2)"
    using single.gossip_write_succeeds [OF l1] by (metis prod.collapse)
  show ?thesis
    using single.gossip_read_back [OF assms(1-3) w1 assms(4,6)] single.gossip_read_back [OF l1 w2 assms(5,7)]
      w1 w2 by (simp add: cu)
qed

definition demo_kvstore :: "broadcast list kvstore" where
  "demo_kvstore =
     \<lparr>kv_delegate = newDelegate (demo_queue 1) [], kv_clock = demo_clock, kv_panicked = False\<rparr>"

definition demo_Combine :: multierr where
  "demo_Combine a b = (case a of None \<Rightarrow> b | Some e \<Rightarrow> Some e)"

text \<open>A member list that is alone.\<close>

definition demo_memberlist :: "broadcast list memberlist" where
  "demo_memberlist =
     \<lparr>ml_Create = (\<lambda>conf q. (None, q)), SetMeta = (\<lambda>m q. q), NewQueue = (\<lambda>i q. (demo_queue 1, q)),
      queue_RetransmitMult = (\<lambda>q. 4), set_RetransmitMult = (\<lambda>i q. q),
      Join = (\<lambda>addrs d. ((0, None), d)), UpdateNode = (\<lambda>t d. (None, d)),
      Leave = (\<lambda>t d. (None, d)), Shutdown = (\<lambda>d. (None, d))\<rparr>"

definition demo_gossip :: "string \<Rightarrow> broadcast list kvstore gossip_lock" where
  "demo_gossip i = NewLock (kvstore_KV single_runtime demo_Combine demo_memberlist) ''lock'' i demo_kvstore"

theorem gossip_write_replaces_witness:
  "let (e1, l1) = gossip_Create None (demo_record ''a'') (demo_gossip ''a'');
       (e2, l2) = gossip_Update None (demo_record ''b'') (l1\<lparr>g_id := ''b''\<rparr>)
   in e1 = None \<and> e2 = None \<and>
      fst (gossip_Get None l1) = Inr (demo_record ''a'', json_bytes (demo_record ''a'')) \<and>
      fst (gossip_Get None l2) = Inr (demo_record ''b'', json_bytes (demo_record ''b''))"
proof (rule gossip_write_replaces)
  show "single_ok (g_state (demo_gossip ''a''))"
    by (simp add: single_ok_def demo_gossip_def NewLock_def demo_kvstore_def)
      (simp add: newDelegate_def demo_queue_def)
qed (simp_all add: demo_gossip_def NewLock_def NUL_def char_of_eq_iff demo_record_def wf_Record_def is_i64_def
    rune_size_def)

end
