(* ===== verification/Elector_Types.thy ===== *)
theory Elector_Types
  imports S3_Lock Git_Lock Gossip_Lock Kube_Lease
begin

text \<open>
  The integers of an elector stay in the ranges of their Go types, whatever a lock returns: the
  fields of the observed record are 64-bit numbers. The locale \<open>typed_lock\<close> is what a lock
  has to promise for that; the locks of the repository are its interpretations. The locks that
  store JSON need no promise of their storage, because decoding refuses numbers out of range.
\<close>

section \<open>Decoding stays in range\<close>

lemma store_int_wf:
  assumes "wf_Record (snd s)"
    and "\<And>i r. is_i64 i \<Longrightarrow> wf_Record r \<Longrightarrow> wf_Record (upd (\<lambda>_. i) r)"
  shows "wf_Record (snd (store_int upd v s))"
  using assms by (auto simp: store_int_def parse_int_def Let_def split: json.splits option.splits prod.splits if_splits)

lemma store_member_wf:
  assumes "wf_Record (snd s)"
  shows "wf_Record (snd (store_member s m))"
proof -
  have "wf_Record (snd (store_string v s))" for v
    using assms by (auto simp: store_string_def wf_Record_def split: json.splits)
  moreover have "wf_Record (snd (store_int LeaseDurationMilliSeconds_update v s))"
    "wf_Record (snd (store_int AcquireTime_update v s))" "wf_Record (snd (store_int RenewTime_update v s))"
    "wf_Record (snd (store_int LeaderTransitions_update v s))" for v
    by (rule store_int_wf [OF assms], simp add: wf_Record_def)+
  ultimately show ?thesis using assms by (simp add: store_member_def Let_def)
qed

lemma foldl_store_wf: "wf_Record (snd s) \<Longrightarrow> wf_Record (snd (foldl store_member s ms))"
  by (induction ms arbitrary: s) (simp_all add: store_member_wf)

lemma json_Unmarshal_wf:
  assumes "json_Unmarshal b r0 = Inr r" and "wf_Record r0"
  shows "wf_Record r"
proof -
  have "wf_Record (snd (foldl store_member (True, r0) ms))" for ms
    using foldl_store_wf [of "(True, r0)" ms] assms(2) by simp
  then have "foldl store_member (True, r0) ms = (True, r) \<Longrightarrow> wf_Record r" for ms by (metis snd_conv)
  then show ?thesis using assms
    by (auto simp: json_Unmarshal_def split: option.splits json.splits prod.splits if_splits)
qed

lemma zero_Record_wf [simp]: "wf_Record zero_Record"
  by (simp add: zero_Record_def wf_Record_def is_i64_def)

section \<open>Typed locks\<close>

text \<open>The ranges of an elector's integers, and the operations of an elector in sequence.\<close>

definition wf_elector :: "'s LeaderElector \<Rightarrow> bool" where
  "wf_elector le \<longleftrightarrow> is_i64 (LeaseDuration (config le)) \<and> wf_Record (observedRecord le)"

datatype elector_call = TryOp ctx | ReleaseOp | ReportOp | CheckOp int

fun elector_op :: "'s LeaderElector \<Rightarrow> elector_call \<Rightarrow> 's LeaderElector" where
  "elector_op le (TryOp c) = snd (tryAcquireOrRenew c le)"
| "elector_op le ReleaseOp = snd (release le)"
| "elector_op le ReportOp = maybeReportTransition le"
| "elector_op le (CheckOp d) = snd (Check d le)"

definition stays_typed :: "'s Lock \<Rightarrow> ('s \<Rightarrow> bool) \<Rightarrow> bool" where
  "stays_typed L sane \<longleftrightarrow>
     (\<forall>oor mk fac clk s lec le ops.
        New oor mk fac clk s lec = Inr le \<and> cLock lec = Some L \<and> is_i64 (LeaseDuration lec) \<and> sane s \<longrightarrow>
        wf_elector (foldl elector_op le ops))"

lemma UnixMilli_i64 [simp]: "is_i64 (UnixMilli t)"
  by (simp add: UnixMilli_def is_i64_i64)

lemma sdiv_Millisecond_i64:
  assumes "is_i64 d"
  shows "is_i64 (d sdiv Millisecond)"
proof -
  have "0 \<le> \<bar>d\<bar> div 1000000" by simp
  moreover have "\<bar>d\<bar> div 1000000 \<le> 2 ^ 63 div 1000000"
    using assms by (intro zdiv_mono1) (auto simp: is_i64_def)
  ultimately show ?thesis
    by (cases "0 < d") (simp_all add: is_i64_def signed_divide_int_def Millisecond_def sgn_if)
qed

lemma freshRecord_wf: "is_i64 (LeaseDuration (config le)) \<Longrightarrow> wf_Record (freshRecord le)"
  by (simp add: wf_Record_def sdiv_Millisecond_i64 is_i64_def [of 0])

lemma correctRecord_wf: "wf_Record old \<Longrightarrow> wf_Record r \<Longrightarrow> wf_Record (correctRecord old le r)"
  by (simp add: wf_Record_def correctRecord_def is_i64_i64)

lemma releaseRecord_wf: "wf_elector le \<Longrightarrow> wf_Record (releaseRecord le now)"
  by (simp add: wf_Record_def wf_elector_def releaseRecord_def is_i64_def [of 1])

text \<open>
  What a lock promises: in a sane state it returns records in range, and its operations keep the
  state sane. A record that is written is in range.
\<close>

definition typed_elector :: "'s Lock \<Rightarrow> ('s \<Rightarrow> bool) \<Rightarrow> 's LeaderElector \<Rightarrow> bool" where
  "typed_elector L sane le \<longleftrightarrow> lock le = L \<and> sane (lockState le) \<and> wf_elector le"

locale typed_lock =
  fixes L :: "'s Lock"
    and sane :: "'s \<Rightarrow> bool"
  assumes Get_typed: "sane s \<Longrightarrow> Get L c s = (Inr (r, raw), s') \<Longrightarrow> wf_Record r"
    and Get_sane: "sane s \<Longrightarrow> sane (snd (Get L c s))"
    and Create_sane: "sane s \<Longrightarrow> wf_Record r \<Longrightarrow> sane (snd (Create L c r s))"
    and Update_sane: "sane s \<Longrightarrow> wf_Record r \<Longrightarrow> sane (snd (Update L c r s))"
begin

lemma try_typed:
  assumes le: "typed_elector L sane le" and "tryAcquireOrRenew c le = (b, le')"
  shows "typed_elector L sane le'"
proof -
  have lck: "lock le = L" and ok: "sane (lockState le)" and d: "is_i64 (LeaseDuration (config le))"
    and r: "wf_Record (observedRecord le)"
    using le by (auto simp: typed_elector_def wf_elector_def)
  note fresh = freshRecord_wf [OF d]
  have get: "sane s1" if "Get L c (lockState le) = (x, s1)" for x s1
    using Get_sane [OF ok, of c] that by simp
  have seen: "wf_Record old" "wf_Record (observedRecord (observe old raw (after_Get s1 le)))"
    if "Get L c (lockState le) = (Inr (old, raw), s1)" for old raw s1
    using Get_typed [OF ok that] r by (auto simp: observe_def)
  from assms(2) show ?thesis
  proof (cases rule: tryAcquireOrRenew_cases)
    case (CreateError err s1 e s2)
    then show ?thesis using lck d r get [of "Inl err" s1] Create_sane [OF _ fresh, of s1 c]
      by (simp add: typed_elector_def wf_elector_def)
  next
    case (Created err s1 s2)
    then show ?thesis using lck d fresh get [of "Inl err" s1] Create_sane [OF _ fresh, of s1 c]
      by (simp add: typed_elector_def wf_elector_def)
  next
    case (UpdateError old raw s1 e s2)
    then show ?thesis using lck d get [of "Inr (old, raw)" s1] seen [of old raw s1]
        Update_sane [OF _ correctRecord_wf [OF _ fresh], of s1 old c "observe old raw (after_Get s1 le)"]
      by (simp add: typed_elector_def wf_elector_def)
  next
    case (Updated old raw s1 s2)
    then show ?thesis using lck d fresh get [of "Inr (old, raw)" s1] seen [of old raw s1]
        Update_sane [OF _ correctRecord_wf [OF _ fresh], of s1 old c "observe old raw (after_Get s1 le)"]
      by (simp add: typed_elector_def wf_elector_def correctRecord_wf)
  qed (use lck d r get seen in \<open>auto simp: typed_elector_def wf_elector_def\<close>)
qed

lemma release_typed:
  assumes le: "typed_elector L sane le" and "release le = (b, le')"
  shows "typed_elector L sane le'"
proof -
  define rec where "rec = releaseRecord (snd (le_Now le)) (readings (le_clock le) (tick (le_clock le)))"
  have rec_wf: "wf_Record rec"
    using le unfolding rec_def by (intro releaseRecord_wf) (simp add: typed_elector_def wf_elector_def)
  then have "sane (snd (Update L context_TODO rec (lockState le)))"
    using le Update_sane by (simp add: typed_elector_def)
  then show ?thesis using assms rec_wf
    by (auto simp: release_def split_beta Let_def rec_def [symmetric] typed_elector_def wf_elector_def
        split: if_splits prod.splits option.splits)
qed

lemma elector_op_typed: "typed_elector L sane le \<Longrightarrow> typed_elector L sane (elector_op le op)"
proof (cases op)
  case (TryOp c)
  then show "typed_elector L sane le \<Longrightarrow> ?thesis"
    using try_typed [of le c "fst (tryAcquireOrRenew c le)"] by simp
next
  case ReleaseOp
  then show "typed_elector L sane le \<Longrightarrow> ?thesis" using release_typed [of le "fst (release le)"] by simp
qed (auto simp: maybeReportTransition_def Check_def emit_def clock_Since_def split_beta Let_def
    typed_elector_def wf_elector_def lock_def split: option.splits)

lemma elector_ops_typed: "typed_elector L sane le \<Longrightarrow> typed_elector L sane (foldl elector_op le ops)"
  by (induction ops arbitrary: le) (simp_all add: elector_op_typed)

lemma lock_stays_typed: "stays_typed L sane"
proof (unfold stays_typed_def, intro allI impI)
  fix oor mk fac clk s lec le ops
  assume "New oor mk fac clk s lec = Inr le \<and> cLock lec = Some L \<and> is_i64 (LeaseDuration lec) \<and> sane s"
  then have "typed_elector L sane le"
    by (auto simp: New_def typed_elector_def wf_elector_def lock_def Let_def split: if_splits)
  then show "wf_elector (foldl elector_op le ops)"
    using elector_ops_typed by (simp add: typed_elector_def)
qed

end

section \<open>The locks of the repository\<close>

interpretation s3_typed: typed_lock s3_Lock "\<lambda>_. True"
  by unfold_locales
    (auto simp: s3_Get_def Let_def dest: json_Unmarshal_wf split: prod.splits sum.splits if_splits)

lemma git_decode_wf: "git_decode b = Inr (Some r) \<Longrightarrow> wf_Record r"
  by (auto simp: git_decode_def dest: json_Unmarshal_wf split: option.splits json.splits sum.splits)

interpretation git_typed: typed_lock git_Lock "\<lambda>_. True"
  by unfold_locales
    (auto simp: git_Lock_def git_Get_def Let_def dest: git_decode_wf
      split: prod.splits sum.splits option.splits)

interpretation gossip_typed: typed_lock gossip_Lock "\<lambda>_. True"
  by unfold_locales
    (auto simp: gossip_Lock_def gossip_Get_def Let_def dest: json_Unmarshal_wf split: prod.splits sum.splits)

text \<open>
  The transition count of a \<^verbatim>\<open>LeaseSpec\<close> is an \<^verbatim>\<open>int32\<close>: a client that is sent
  such leases only returns such leases only (\<open>ok\<close> describes the states of its cluster).
\<close>

definition typed_spec :: "LeaseSpec \<Rightarrow> bool" where
  "typed_spec spec \<longleftrightarrow> (case LeaseTransitions spec of None \<Rightarrow> True | Some n \<Rightarrow> is_i32 n)"

definition typed_client :: "'c LeasesGetter \<Rightarrow> ('c \<Rightarrow> bool) \<Rightarrow> bool" where
  "typed_client K ok \<longleftrightarrow>
     (\<forall>c ns nm s x s'. Leases_Get K c ns nm s = (x, s') \<and> ok s \<longrightarrow>
        ok s' \<and> (\<forall>l. x = Inr l \<longrightarrow> typed_spec (Spec l))) \<and>
     (\<forall>c ns l s x s'. Leases_Create K c ns l s = (x, s') \<and> ok s \<and> typed_spec (Spec l) \<longrightarrow> ok s') \<and>
     (\<forall>c ns l s x s'. Leases_Update K c ns l s = (x, s') \<and> ok s \<and> typed_spec (Spec l) \<longrightarrow> ok s')"

definition kube_typed :: "'c LeaseLock \<Rightarrow> bool" where
  "kube_typed ll \<longleftrightarrow> (\<exists>ok. typed_client (Client ll) ok \<and> ok (cluster ll))"

lemma kube_typedI: "typed_client (Client ll) ok \<Longrightarrow> ok (cluster ll) \<Longrightarrow> kube_typed ll"
  by (auto simp: kube_typed_def)

lemma LeaderElectionRecordToLeaseSpec_typed: "typed_spec (LeaderElectionRecordToLeaseSpec r)"
  by (simp add: typed_spec_def LeaderElectionRecordToLeaseSpec_def is_i32_i32)

lemma LeaseSpec_record_wf: "typed_spec spec \<Longrightarrow> wf_Record (LeaseSpecToLeaderElectionRecord spec)"
  by (auto simp: LeaseSpecToLeaderElectionRecord_def wf_Record_def typed_spec_def is_i64_i64 is_i32_is_i64
      is_i64_def [of 0] split: option.splits)

interpretation kube_typed: typed_lock kube_lock kube_typed
proof
  fix ll :: "'a LeaseLock" and c r raw ll'
  assume "kube_typed ll" and get: "Get kube_lock c ll = (Inr (r, raw), ll')"
  then obtain ok where ok: "typed_client (Client ll) ok" "ok (cluster ll)" by (auto simp: kube_typed_def)
  obtain lease s where "Leases_Get (Client ll) c (Namespace (LeaseMeta ll)) (meta_Name (LeaseMeta ll)) (cluster ll)
      = (Inr lease, s)" and r: "r = LeaseSpecToLeaderElectionRecord (Spec lease)"
    using get by (auto simp: kube_Get_def Let_def split: prod.splits sum.splits)
  then have "typed_spec (Spec lease)" using ok unfolding typed_client_def by blast
  then show "wf_Record r" unfolding r by (rule LeaseSpec_record_wf)
next
  fix ll :: "'a LeaseLock" and c
  assume "kube_typed ll"
  then obtain ok where ok: "typed_client (Client ll) ok" "ok (cluster ll)" by (auto simp: kube_typed_def)
  obtain x s where g: "Leases_Get (Client ll) c (Namespace (LeaseMeta ll)) (meta_Name (LeaseMeta ll)) (cluster ll)
      = (x, s)" by (metis surj_pair)
  then have "ok s" using ok unfolding typed_client_def by blast
  then show "kube_typed (snd (Get kube_lock c ll))"
    using ok(1) g by (intro kube_typedI [of _ ok]) (auto simp: kube_Get_def Let_def split: sum.splits)
next
  fix ll :: "'a LeaseLock" and c and r :: Record
  assume "kube_typed ll"
  then obtain ok where ok: "typed_client (Client ll) ok" "ok (cluster ll)" by (auto simp: kube_typed_def)
  note spec = LeaderElectionRecordToLeaseSpec_typed [of r]
  have "ok (snd (Leases_Create (Client ll) c ns l (cluster ll)))"
    "ok (snd (Leases_Update (Client ll) c ns l (cluster ll)))"
    if "Spec l = LeaderElectionRecordToLeaseSpec r" for ns l
    using ok spec that unfolding typed_client_def by (metis prod.collapse)+
  then show "kube_typed (snd (Create kube_lock c r ll))" "kube_typed (snd (Update kube_lock c r ll))"
    using ok by (auto simp: kube_Create_def kube_Update_def Let_def split_beta
        intro!: kube_typedI [of _ ok] split: option.splits)
qed

section \<open>The property\<close>


lemma demo_kube_typed: "kube_typed demo_kube"
proof (rule kube_typedI [of _ "\<lambda>s. case snd s of None \<Rightarrow> True | Some (m, spec) \<Rightarrow> typed_spec spec"])
  show "typed_client (Client demo_kube) (\<lambda>s. case snd s of None \<Rightarrow> True | Some (m, spec) \<Rightarrow> typed_spec spec)"
    by (auto simp: typed_client_def demo_kube_def kube_New_def demo_api_def demo_lease_def Let_def
        split: option.splits prod.splits if_splits)
qed (simp add: demo_kube_def kube_New_def)


end
