(* ===== verification/Dns_Lookup.thy ===== *)
theory Dns_Lookup
  imports Go_Strings
begin

text \<open>
  \<^verbatim>\<open>gossip/internal/dns/miekgdns\<close>: lookups over the servers and the search path of
  \<^verbatim>\<open>resolv.conf\<close>. The package \<^verbatim>\<open>github.com/miekg/dns\<close> is a parameter (\<open>dns_pkg\<close>);
  its calls act on the state \<open>'n\<close> of the network. An IP address is its text. A resolver is
  what the interface \<^verbatim>\<open>ipLookupResolver\<close> asks for, in \<open>Dns_Provider\<close>.

  The theorems describe the three outcomes of a lookup with the search path, and how far chains
  of CNAME records are followed.
\<close>

section \<open>Messages and the package\<close>

record SRV_rec =
  srv_Target :: string
  srv_Port :: nat
  srv_Priority :: nat
  srv_Weight :: nat

datatype RR =
    RR_A string
  | RR_AAAA string
  | RR_CNAME string
  | RR_SRV SRV_rec
  | RR_Other string

record Msg =
  Rcode :: nat
  Truncated :: bool
  Answer :: "RR list"

definition RcodeSuccess :: nat where "RcodeSuccess = 0"

definition RcodeNameError :: nat where "RcodeNameError = 3"

definition TypeA :: nat where "TypeA = 1"

definition TypeAAAA :: nat where "TypeAAAA = 28"

definition TypeSRV :: nat where "TypeSRV = 33"

definition ErrNoSuchHost :: go_error where
  "ErrNoSuchHost = ErrSentinel ''no such host''"

text \<open>A request: the question and whether it carries the EDNS0 option.\<close>

record Request =
  q_name :: string
  q_type :: nat
  q_edns :: bool

record ClientConfig =
  Servers :: "string list"
  conf_Port :: string
  Search :: "string list"
  Ndots :: nat

text \<open>
  \<^verbatim>\<open>Exchange\<close> sends a request to a server, over TCP or UDP; \<^verbatim>\<open>ClientConfigFromFile\<close>
  reads the configuration.
\<close>

record 'n dns_pkg =
  Exchange :: "bool \<Rightarrow> Request \<Rightarrow> string \<Rightarrow> 'n \<Rightarrow> (go_error + Msg) \<times> 'n"
  Fqdn :: "string \<Rightarrow> string"
  RR_String :: "RR \<Rightarrow> string"
  ClientConfigFromFile :: "string \<Rightarrow> 'n \<Rightarrow> go_error + ClientConfig"
  NameList :: "ClientConfig \<Rightarrow> string \<Rightarrow> string list"

record miekg_Resolver =
  ResolvConf :: string

text \<open>\<^verbatim>\<open>net.JoinHostPort\<close>: a host with a colon is put in brackets.\<close>

definition JoinHostPort :: "string \<Rightarrow> string \<Rightarrow> string" where
  "JoinHostPort host port =
     (if CHR '':'' \<in> set host then ''['' @ host @ '']:'' @ port else host @ '':'' @ port)"

section \<open>Lookups\<close>

definition fmtErrs :: "go_error list \<Rightarrow> string" where
  "fmtErrs errs = concat (map (\<lambda>err. '';'' @ err_Error err) errs)"

text \<open>
  \<^verbatim>\<open>askServerForName\<close> with the protocol of the client (\<open>tcp\<close>), which the fallback
  changes for good: the result, the protocol afterwards and the network.
\<close>

function askServerForName ::
    "'n dns_pkg \<Rightarrow> string \<Rightarrow> nat \<Rightarrow> bool \<Rightarrow> string \<Rightarrow> bool \<Rightarrow> 'n \<Rightarrow> (go_error + Msg) \<times> bool \<times> 'n" where
  "askServerForName P name qt tcp servAddr edns n =
     (case Exchange P tcp \<lparr>q_name = Fqdn P name, q_type = qt, q_edns = edns\<rparr> servAddr n of
        (Inl err, n) \<Rightarrow> (Inl (ErrWrap ''exchange'' err), tcp, n)
      | (Inr response, n) \<Rightarrow>
          if Truncated response then
            if tcp then (Inl (ErrText ''got truncated message on TCP (64kiB limit exceeded?)''), tcp, n)
            else askServerForName P name qt True servAddr False n
          else (Inr response, tcp, n))"
  by pat_completeness auto

termination
  by (relation "measure (\<lambda>(P, name, qt, tcp, servAddr, edns, n). if tcp then 0 else 1)") auto

declare askServerForName.simps [simp del]

fun any_server ::
    "'n dns_pkg \<Rightarrow> string \<Rightarrow> nat \<Rightarrow> string \<Rightarrow> string list \<Rightarrow> bool \<Rightarrow> go_error list \<Rightarrow> 'n \<Rightarrow>
     (go_error + Msg) \<times> 'n" where
  "any_server P name qt port [] tcp errs n =
     (Inl (ErrText (''could not resolve '' @ name @
        '': no servers returned a viable answer. Errs '' @ fmtErrs errs)), n)"
| "any_server P name qt port (server # servers) tcp errs n =
     (case askServerForName P name qt tcp (JoinHostPort server port) True n of
        (Inl err, tcp, n) \<Rightarrow>
          any_server P name qt port servers tcp
            (errs @ [ErrWrap (''resolution against server '' @ server @ '' for '' @ name) err]) n
      | (Inr msg, tcp, n) \<Rightarrow>
          if Rcode msg = RcodeSuccess \<or> Rcode msg = RcodeNameError then (Inr msg, n)
          else any_server P name qt port servers tcp errs n)"

definition lookupFromAnyServer ::
    "'n dns_pkg \<Rightarrow> string \<Rightarrow> nat \<Rightarrow> ClientConfig \<Rightarrow> 'n \<Rightarrow> (go_error + Msg) \<times> 'n" where
  "lookupFromAnyServer P name qt conf n =
     any_server P name qt (conf_Port conf) (Servers conf) False [] n"

definition search_failure :: "string \<Rightarrow> go_error list \<Rightarrow> go_error" where
  "search_failure name errs =
     (if errs = [] then ErrNoSuchHost
      else ErrText (''could not resolve '' @ quoted name @
             '': all servers responded with errors to at least one search domain. Errs '' @
             fmtErrs errs))"

fun search_names ::
    "'n dns_pkg \<Rightarrow> nat \<Rightarrow> ClientConfig \<Rightarrow> string \<Rightarrow> string list \<Rightarrow> go_error list \<Rightarrow> 'n \<Rightarrow>
     (go_error + Msg) \<times> 'n" where
  "search_names P qt conf name [] errs n =
     (Inl (search_failure name errs), n)"
| "search_names P qt conf name (lname # lnames) errs n =
     (case lookupFromAnyServer P lname qt conf n of
        (Inl err, n) \<Rightarrow> search_names P qt conf name lnames (errs @ [err]) n
      | (Inr response, n) \<Rightarrow>
          if Rcode response = RcodeSuccess then (Inr response, n)
          else search_names P qt conf name lnames errs n)"

definition lookupWithSearchPath ::
    "'n dns_pkg \<Rightarrow> miekg_Resolver \<Rightarrow> string \<Rightarrow> nat \<Rightarrow> 'n \<Rightarrow> (go_error + Msg) \<times> 'n" where
  "lookupWithSearchPath P r name qt n =
     (case ClientConfigFromFile P (ResolvConf r) n of
        Inl err \<Rightarrow> (Inl (ErrWrap (''could not load resolv.conf: '' @ err_Error err) err), n)
      | Inr conf \<Rightarrow> search_names P qt conf name (NameList P conf name) [] n)"

text \<open>
  The answers of an address lookup; \<open>again\<close> is the recursive lookup of a CNAME target.
\<close>

fun collect_ips ::
    "(RR \<Rightarrow> string) \<Rightarrow> (string \<Rightarrow> 'n \<Rightarrow> (go_error + string list) \<times> 'n) \<Rightarrow> RR list \<Rightarrow>
     string list \<Rightarrow> 'n \<Rightarrow> (go_error + string list) \<times> 'n" where
  "collect_ips txt again [] resp n = (Inr resp, n)"
| "collect_ips txt again (RR_A a # rs) resp n = collect_ips txt again rs (resp @ [a]) n"
| "collect_ips txt again (RR_AAAA a # rs) resp n = collect_ips txt again rs (resp @ [a]) n"
| "collect_ips txt again (RR_CNAME t # rs) resp n =
     (case again t n of
        (Inl err, n) \<Rightarrow> (Inl (ErrWrap (''recursively resolve '' @ t) err), n)
      | (Inr addrs, n) \<Rightarrow> collect_ips txt again rs (resp @ addrs) n)"
| "collect_ips txt again (r # rs) resp n =
     (Inl (ErrText (''invalid A, AAAA or CNAME response record '' @ txt r)), n)"

definition too_deep :: "nat \<Rightarrow> go_error" where
  "too_deep maxIterations =
     ErrText (''maximum number of recursive iterations reached ('' @ show_nat maxIterations @ '')'')"

function lookupIPAddr ::
    "'n dns_pkg \<Rightarrow> miekg_Resolver \<Rightarrow> string \<Rightarrow> nat \<Rightarrow> nat \<Rightarrow> 'n \<Rightarrow> (go_error + string list) \<times> 'n" where
  "lookupIPAddr P r host currIteration maxIterations n =
     (if maxIterations < currIteration then (Inl (too_deep maxIterations), n)
      else
        let (x6, n) = lookupWithSearchPath P r host TypeAAAA n;
            (x, n) = (case x6 of
                Inr m \<Rightarrow> if Answer m = [] then lookupWithSearchPath P r host TypeA n else (Inr m, n)
              | Inl err \<Rightarrow> lookupWithSearchPath P r host TypeA n)
        in case x of
             Inl err \<Rightarrow> (Inl err, n)
           | Inr response \<Rightarrow>
               collect_ips (RR_String P)
                 (\<lambda>t. lookupIPAddr P r t (currIteration + 1) maxIterations) (Answer response) [] n)"
  by pat_completeness auto

termination
  by (relation "measure (\<lambda>(P, r, host, curr, maxi, n). Suc maxi - curr)") auto

declare lookupIPAddr.simps [simp del]

definition LookupIPAddr_miekg ::
    "'n dns_pkg \<Rightarrow> miekg_Resolver \<Rightarrow> string \<Rightarrow> 'n \<Rightarrow> (go_error + string list) \<times> 'n" where
  "LookupIPAddr_miekg P r host n = lookupIPAddr P r host 1 8 n"

fun collect_srv ::
    "(RR \<Rightarrow> string) \<Rightarrow> (string \<Rightarrow> 'n \<Rightarrow> (go_error + SRV_rec list) \<times> 'n) \<Rightarrow> RR list \<Rightarrow>
     SRV_rec list \<Rightarrow> 'n \<Rightarrow> (go_error + SRV_rec list) \<times> 'n" where
  "collect_srv txt again [] addrs n = (Inr addrs, n)"
| "collect_srv txt again (RR_SRV s # rs) addrs n = collect_srv txt again rs (addrs @ [s]) n"
| "collect_srv txt again (RR_CNAME t # rs) addrs n =
     (case again t n of
        (Inl err, n) \<Rightarrow> (Inl (ErrWrap (''recursively resolve '' @ t) err), n)
      | (Inr resp, n) \<Rightarrow> collect_srv txt again rs (addrs @ resp) n)"
| "collect_srv txt again (r # rs) addrs n =
     (Inl (ErrText (''invalid SRV response record '' @ txt r)), n)"

definition srv_target :: "string \<Rightarrow> string \<Rightarrow> string \<Rightarrow> string" where
  "srv_target service proto name =
     (if service = [] \<and> proto = [] then name
      else ''_'' @ service @ ''._'' @ proto @ ''.'' @ name)"

function lookupSRV ::
    "'n dns_pkg \<Rightarrow> miekg_Resolver \<Rightarrow> string \<Rightarrow> string \<Rightarrow> string \<Rightarrow> nat \<Rightarrow> nat \<Rightarrow> 'n \<Rightarrow>
     (go_error + SRV_rec list) \<times> 'n" where
  "lookupSRV P r service proto name currIteration maxIterations n =
     (if maxIterations < currIteration then (Inl (too_deep maxIterations), n)
      else
        case lookupWithSearchPath P r (srv_target service proto name) TypeSRV n of
          (Inl err, n) \<Rightarrow> (Inl err, n)
        | (Inr response, n) \<Rightarrow>
            collect_srv (RR_String P)
              (\<lambda>t. lookupSRV P r [] [] t (currIteration + 1) maxIterations) (Answer response) [] n)"
  by pat_completeness auto

termination
  by (relation "measure (\<lambda>(P, r, service, proto, name, curr, maxi, n). Suc maxi - curr)") auto

declare lookupSRV.simps [simp del]

definition LookupSRV_miekg ::
    "'n dns_pkg \<Rightarrow> miekg_Resolver \<Rightarrow> string \<Rightarrow> string \<Rightarrow> string \<Rightarrow> 'n \<Rightarrow>
     (go_error + SRV_rec list) \<times> 'n" where
  "LookupSRV_miekg P r service proto name n = lookupSRV P r service proto name 1 8 n"

text \<open>\<^verbatim>\<open>errors.Cause\<close> and the test for a name that does not exist.\<close>

fun errors_Cause :: "go_error \<Rightarrow> go_error" where
  "errors_Cause (ErrWrap m e) = errors_Cause e"
| "errors_Cause e = e"

definition miekg_IsNotFound :: "go_error \<Rightarrow> bool" where
  "miekg_IsNotFound err = errors_Is (errors_Cause err) ErrNoSuchHost"

section \<open>Answers of the servers\<close>

definition viable :: "Msg \<Rightarrow> bool" where
  "viable m \<longleftrightarrow> \<not> Truncated m \<and> (Rcode m = RcodeSuccess \<or> Rcode m = RcodeNameError)"

text \<open>A message is what a configured server replied to a request for the name.\<close>

definition replied :: "'n dns_pkg \<Rightarrow> ClientConfig \<Rightarrow> string \<Rightarrow> nat \<Rightarrow> Msg \<Rightarrow> bool" where
  "replied P conf lname qt m \<longleftrightarrow>
     (\<exists>server \<in> set (Servers conf). \<exists>tcp edns n n'.
        Exchange P tcp \<lparr>q_name = Fqdn P lname, q_type = qt, q_edns = edns\<rparr>
          (JoinHostPort server (conf_Port conf)) n = (Inr m, n'))"

lemma askServerForName_reply:
  assumes "askServerForName P name qt tcp addr edns n = (Inr m, tcp', n')"
  shows "\<not> Truncated m \<and>
     (\<exists>tcp edns n n'. Exchange P tcp \<lparr>q_name = Fqdn P name, q_type = qt, q_edns = edns\<rparr> addr n = (Inr m, n'))"
  using assms
proof (induction P name qt tcp addr edns n rule: askServerForName.induct)
  case (1 P name qt tcp addr edns n)
  then show ?case
    by (subst (asm) (2) askServerForName.simps) (auto split: prod.splits sum.splits if_splits)
qed

lemma any_server_reply:
  assumes "any_server P name qt port servers tcp errs n = (Inr m, n')"
  shows "viable m \<and>
     (\<exists>server \<in> set servers. \<exists>tcp edns n n'.
        Exchange P tcp \<lparr>q_name = Fqdn P name, q_type = qt, q_edns = edns\<rparr> (JoinHostPort server port) n = (Inr m, n'))"
  using assms
proof (induction servers arbitrary: tcp errs n)
  case (Cons s ss)
  show ?case
  proof (cases "\<exists>tcp' n1. askServerForName P name qt tcp (JoinHostPort s port) True n = (Inr m, tcp', n1) \<and>
      (Rcode m = RcodeSuccess \<or> Rcode m = RcodeNameError)")
    case True
    then show ?thesis using askServerForName_reply by (fastforce simp: viable_def)
  next
    case False
    then obtain tcp' errs' n1 where "any_server P name qt port ss tcp' errs' n1 = (Inr m, n')"
      using Cons.prems by (auto split: prod.splits sum.splits if_splits)
    from Cons.IH [OF this] show ?thesis by auto
  qed
qed simp

lemma lookupFromAnyServer_reply:
  "lookupFromAnyServer P name qt conf n = (Inr m, n') \<Longrightarrow> viable m \<and> replied P conf name qt m"
  unfolding lookupFromAnyServer_def replied_def by (rule any_server_reply)

section \<open>The search path\<close>

text \<open>The answers for the names of the search path, asked for one after the other.\<close>

primrec outcomes ::
    "'n dns_pkg \<Rightarrow> nat \<Rightarrow> ClientConfig \<Rightarrow> string list \<Rightarrow> 'n \<Rightarrow> (go_error + Msg) list" where
  "outcomes P qt conf [] n = []"
| "outcomes P qt conf (x # xs) n =
     (let (r, n) = lookupFromAnyServer P x qt conf n in r # outcomes P qt conf xs n)"

definition gold :: "go_error + Msg \<Rightarrow> bool" where
  "gold x \<longleftrightarrow> (case x of Inl err \<Rightarrow> False | Inr m \<Rightarrow> Rcode m = RcodeSuccess)"

definition nxdomain :: "go_error + Msg \<Rightarrow> bool" where
  "nxdomain x \<longleftrightarrow> (case x of Inl err \<Rightarrow> False | Inr m \<Rightarrow> Rcode m = RcodeNameError)"

lemma length_outcomes [simp]: "length (outcomes P qt conf names n) = length names"
  by (induction names arbitrary: n) (simp_all add: split_beta Let_def)

lemma outcomes_nth:
  "i < length names \<Longrightarrow>
   \<exists>n1 n2. lookupFromAnyServer P (names ! i) qt conf n1 = (outcomes P qt conf names n ! i, n2)"
proof (induction names arbitrary: i n)
  case (Cons a names)
  show ?case
  proof (cases i)
    case 0
    then show ?thesis by (auto simp: split_beta Let_def intro: prod.collapse [symmetric])
  next
    case (Suc j)
    then show ?thesis
      using Cons.IH [of j "snd (lookupFromAnyServer P a qt conf n)"] Cons.prems
      by (simp add: split_beta Let_def)
  qed
qed simp

lemma outcome_reply:
  assumes "i < length names" and "outcomes P qt conf names n ! i = Inr m"
  shows "viable m \<and> replied P conf (names ! i) qt m"
  using outcomes_nth [OF assms(1), of P qt conf n] assms(2) lookupFromAnyServer_reply by metis

lemma outcome_kinds:
  assumes "x \<in> set (outcomes P qt conf names n)"
  shows "isl x \<or> gold x \<or> nxdomain x"
proof -
  obtain i where i: "i < length names" "outcomes P qt conf names n ! i = x"
    using assms by (metis in_set_conv_nth length_outcomes)
  then show ?thesis
    using outcome_reply [OF i(1), of P qt conf n]
    by (cases x) (auto simp: gold_def nxdomain_def viable_def)
qed

lemma search_names_result:
  "fst (search_names P qt conf name names errs n) =
     (case find gold (outcomes P qt conf names n) of
        Some x \<Rightarrow> x
      | None \<Rightarrow> Inl (search_failure name (errs @ map projl (filter isl (outcomes P qt conf names n)))))"
  by (induction names arbitrary: errs n)
    (auto simp: gold_def split_beta split: sum.splits option.split)

lemma search_failure_NoSuchHost: "search_failure name errs = ErrNoSuchHost \<longleftrightarrow> errs = []"
  by (simp add: search_failure_def ErrNoSuchHost_def)

text \<open>
  C35. The outcomes of a lookup with the search path. The answer is a message exactly when
  the DNS recognised one of the names, and then it is the first such message, not truncated
  and sent by a configured server. The error is "no such host" exactly when every name was
  answered with NXDOMAIN; when no name was recognised and a name was answered with errors only,
  the error is another one.
\<close>

theorem search_path_outcomes:
  assumes "ClientConfigFromFile P (ResolvConf r) n = Inr conf"
    and "lookupWithSearchPath P r name qt n = (x, n')"
    and "outs = outcomes P qt conf (NameList P conf name) n"
  shows "(isl x \<longleftrightarrow> (\<forall>y \<in> set outs. \<not> gold y)) \<and>
     (\<forall>m. x = Inr m \<longrightarrow>
        (\<exists>i < length outs. outs ! i = Inr m \<and> Rcode m = RcodeSuccess \<and> \<not> Truncated m \<and>
           (\<forall>j < i. \<not> gold (outs ! j)) \<and> replied P conf (NameList P conf name ! i) qt m)) \<and>
     (x = Inl ErrNoSuchHost \<longleftrightarrow> (\<forall>y \<in> set outs. nxdomain y))"
proof -
  have x: "x = (case find gold outs of Some x \<Rightarrow> x
      | None \<Rightarrow> Inl (search_failure name (map projl (filter isl outs))))"
    using assms search_names_result [of P qt conf name "NameList P conf name" "[]" n]
    by (auto simp: lookupWithSearchPath_def split: option.split)
  have kinds: "isl y \<or> gold y \<or> nxdomain y" if "y \<in> set outs" for y
    using that unfolding assms(3) by (rule outcome_kinds)
  have excl: "\<not> gold y" "\<not> isl y" if "nxdomain y" for y
    using that by (auto simp: gold_def nxdomain_def RcodeSuccess_def RcodeNameError_def split: sum.splits)
  show ?thesis
  proof (cases "find gold outs")
    case None
    then have none: "\<forall>y \<in> set outs. \<not> gold y" by (simp add: find_None_iff)
    have "filter isl outs = [] \<longleftrightarrow> (\<forall>y \<in> set outs. nxdomain y)"
      using none kinds excl by (auto simp: filter_empty_conv)
    then show ?thesis using x None none by (simp add: search_failure_NoSuchHost)
  next
    case (Some y)
    then obtain i where i: "i < length outs" "gold (outs ! i)" "y = outs ! i" "\<forall>j < i. \<not> gold (outs ! j)"
      by (auto simp: find_Some_iff)
    then obtain m where m: "outs ! i = Inr m" "Rcode m = RcodeSuccess"
      by (auto simp: gold_def split: sum.splits)
    have "viable m \<and> replied P conf (NameList P conf name ! i) qt m"
      using outcome_reply [of i "NameList P conf name" P qt conf n m] i(1) m(1) assms(3) by simp
    moreover have "\<not> nxdomain (outs ! i)" using i(2) excl by blast
    ultimately show ?thesis using x Some i m nth_mem [OF i(1)] by (auto simp: viable_def)
  qed
qed

text \<open>
  Example zone: the name \<^verbatim>\<open>node\<close> of the domain \<^verbatim>\<open>local\<close> has an address,
  \<^verbatim>\<open>www\<close> is an alias of it, \<^verbatim>\<open>loop\<close> an alias of itself. Any other name does not exist.
\<close>

definition demo_zone :: "string \<Rightarrow> nat \<Rightarrow> Msg" where
  "demo_zone name qt =
     (if name = ''node.local'' \<and> qt = 28
      then \<lparr>Rcode = 0, Truncated = False, Answer = [RR_AAAA ''fd00::7'']\<rparr>
      else if name = ''www.local'' \<and> qt = 28
      then \<lparr>Rcode = 0, Truncated = False, Answer = [RR_CNAME ''node'']\<rparr>
      else if name = ''loop.local'' \<and> qt = 28
      then \<lparr>Rcode = 0, Truncated = False, Answer = [RR_CNAME ''loop'']\<rparr>
      else \<lparr>Rcode = 3, Truncated = False, Answer = []\<rparr>)"

definition demo_conf :: ClientConfig where
  "demo_conf = \<lparr>Servers = [''10.0.0.1''], conf_Port = ''53'', Search = [''local''], Ndots = 1\<rparr>"

definition demo_dns :: "unit dns_pkg" where
  "demo_dns =
     \<lparr>Exchange = (\<lambda>tcp q addr n. (Inr (demo_zone (q_name q) (q_type q)), n)),
      Fqdn = (\<lambda>name. name), RR_String = (\<lambda>r. ''record''),
      ClientConfigFromFile = (\<lambda>f n. Inr demo_conf),
      NameList = (\<lambda>conf name. [name, name @ ''.local''])\<rparr>"

definition demo_resolver :: miekg_Resolver where
  "demo_resolver = \<lparr>ResolvConf = ''/etc/resolv.conf''\<rparr>"

lemma demo_lookup:
  "lookupFromAnyServer demo_dns name qt demo_conf n = (Inr (demo_zone name qt), n)"
  by (simp add: lookupFromAnyServer_def demo_conf_def demo_dns_def askServerForName.simps demo_zone_def
      RcodeSuccess_def RcodeNameError_def)

lemma demo_search:
  "lookupWithSearchPath demo_dns demo_resolver name qt n =
     (let m = demo_zone name qt; m' = demo_zone (name @ ''.local'') qt
      in (if Rcode m = 0 then Inr m else if Rcode m' = 0 then Inr m' else Inl ErrNoSuchHost, n))"
proof -
  have "ClientConfigFromFile demo_dns f n = Inr demo_conf"
    "NameList demo_dns conf name = [name, name @ ''.local'']" for f conf
    by (simp_all add: demo_dns_def)
  then show ?thesis
    by (simp add: lookupWithSearchPath_def demo_lookup RcodeSuccess_def search_failure_def Let_def)
qed

theorem search_path_outcomes_witness:
  "fst (lookupWithSearchPath demo_dns demo_resolver ''gone'' TypeA ()) = Inl ErrNoSuchHost \<and>
   list_all nxdomain (outcomes demo_dns TypeA demo_conf [''gone'', ''gone.local''] ())"
proof -
  have gone: "lookupWithSearchPath demo_dns demo_resolver ''gone'' TypeA () = (Inl ErrNoSuchHost, ())"
    by (simp add: demo_search demo_zone_def)
  have names: "NameList demo_dns demo_conf ''gone'' = [''gone'', ''gone.local'']"
    "ClientConfigFromFile demo_dns (ResolvConf demo_resolver) () = Inr demo_conf"
    by (simp_all add: demo_dns_def)
  from search_path_outcomes [OF names(2) gone refl] have
    "list_all nxdomain (outcomes demo_dns TypeA demo_conf [''gone'', ''gone.local''] ())"
    unfolding names list_all_iff by blast
  then show ?thesis using gone by simp
qed

section \<open>Chains of aliases\<close>

definition alias_of :: "'n dns_pkg \<Rightarrow> miekg_Resolver \<Rightarrow> string \<Rightarrow> string \<Rightarrow> bool" where
  "alias_of P r host target \<longleftrightarrow>
     (\<forall>n. \<exists>m n'. lookupWithSearchPath P r host TypeAAAA n = (Inr m, n') \<and> Answer m = [RR_CNAME target])"

definition has_addresses :: "'n dns_pkg \<Rightarrow> miekg_Resolver \<Rightarrow> string \<Rightarrow> string list \<Rightarrow> bool" where
  "has_addresses P r host addrs \<longleftrightarrow>
     addrs \<noteq> [] \<and>
     (\<forall>n. \<exists>m n'. lookupWithSearchPath P r host TypeAAAA n = (Inr m, n') \<and> Answer m = map RR_AAAA addrs)"

lemma collect_AAAA: "collect_ips txt again (map RR_AAAA addrs) resp n = (Inr (resp @ addrs), n)"
  by (induction addrs arbitrary: resp) simp_all

lemma lookupIPAddr_addresses:
  assumes "has_addresses P r host addrs" and "c \<le> k"
  shows "fst (lookupIPAddr P r host c k n) = Inr addrs"
proof -
  obtain m n' where "lookupWithSearchPath P r host TypeAAAA n = (Inr m, n')" "Answer m = map RR_AAAA addrs"
    using assms(1) unfolding has_addresses_def by blast
  then show ?thesis
    using assms by (simp add: lookupIPAddr.simps [of P r host] has_addresses_def collect_AAAA)
qed

lemma lookupIPAddr_alias:
  assumes "alias_of P r host target" and "c \<le> k"
  shows "\<exists>n'. fst (lookupIPAddr P r host c k n) =
    map_sum (ErrWrap (''recursively resolve '' @ target)) id (fst (lookupIPAddr P r target (Suc c) k n'))"
proof -
  obtain m n' where "lookupWithSearchPath P r host TypeAAAA n = (Inr m, n')" "Answer m = [RR_CNAME target]"
    using assms(1) unfolding alias_of_def by blast
  then have "fst (lookupIPAddr P r host c k n) =
      map_sum (ErrWrap (''recursively resolve '' @ target)) id (fst (lookupIPAddr P r target (Suc c) k n'))"
    using assms(2) by (simp add: lookupIPAddr.simps [of P r host] split: prod.splits sum.splits)
  then show ?thesis ..
qed

lemma follow_chain:
  assumes "\<forall>i < k. alias_of P r (h i) (h (Suc i))" and "c \<le> Suc maxi"
  shows "k + c \<le> maxi \<Longrightarrow> has_addresses P r (h k) addrs \<Longrightarrow>
      fst (lookupIPAddr P r (h 0) c maxi n) = Inr addrs"
    and "maxi < k + c \<Longrightarrow> \<exists>e. fst (lookupIPAddr P r (h 0) c maxi n) = Inl e \<and> errors_Cause e = too_deep maxi"
  using assms
proof (induction k arbitrary: h c n)
  case 0
  {
    case 1
    then show ?case by (simp add: lookupIPAddr_addresses)
  next
    case 2
    then show ?case by (simp add: lookupIPAddr.simps too_deep_def)
  }
next
  case (Suc k)
  {
    case 1
    obtain n' where "fst (lookupIPAddr P r (h 0) c maxi n) =
        map_sum (ErrWrap (''recursively resolve '' @ h 1)) id (fst (lookupIPAddr P r (h 1) (Suc c) maxi n'))"
      using lookupIPAddr_alias [of P r "h 0" "h 1" c maxi n] 1 by auto
    then show ?case using Suc.IH(1) [of "Suc c" "\<lambda>i. h (Suc i)" n'] 1 by simp
  next
    case 2
    show ?case
    proof (cases "c \<le> maxi")
      case True
      obtain n' where "fst (lookupIPAddr P r (h 0) c maxi n) =
          map_sum (ErrWrap (''recursively resolve '' @ h 1)) id (fst (lookupIPAddr P r (h 1) (Suc c) maxi n'))"
        using lookupIPAddr_alias [of P r "h 0" "h 1" c maxi n] 2 True by auto
      then show ?thesis using Suc.IH(2) [of "Suc c" "\<lambda>i. h (Suc i)" n'] 2 True by auto
    next
      case False
      then show ?thesis by (simp add: lookupIPAddr.simps too_deep_def)
    qed
  }
qed

text \<open>
  C36. An address lookup follows chains of CNAME records of at most seven aliases to the
  addresses at their end; a longer chain, and so every loop of aliases, ends with the error about
  the number of iterations.
\<close>

theorem cname_chain:
  assumes "\<forall>i < k. alias_of P r (h i) (h (Suc i))"
  shows "(k < 8 \<and> has_addresses P r (h k) addrs \<longrightarrow> fst (LookupIPAddr_miekg P r (h 0) n) = Inr addrs) \<and>
     (8 \<le> k \<longrightarrow> (\<exists>e. fst (LookupIPAddr_miekg P r (h 0) n) = Inl e \<and> errors_Cause e = too_deep 8))"
  using follow_chain [OF assms, of 1 8] by (simp add: LookupIPAddr_miekg_def)

lemma demo_aliases:
  "alias_of demo_dns demo_resolver ''www'' ''node''" "alias_of demo_dns demo_resolver ''loop'' ''loop''"
  "has_addresses demo_dns demo_resolver ''node'' [''fd00::7'']"
  by (simp_all add: alias_of_def has_addresses_def demo_search demo_zone_def TypeAAAA_def)

theorem cname_chain_witness:
  "fst (LookupIPAddr_miekg demo_dns demo_resolver ''www'' ()) = Inr [''fd00::7''] \<and>
   (\<exists>e. fst (LookupIPAddr_miekg demo_dns demo_resolver ''loop'' ()) = Inl e \<and> errors_Cause e = too_deep 8)"
  using cname_chain [of 1 demo_dns demo_resolver "\<lambda>i. if i = 0 then ''www'' else ''node''" "[''fd00::7'']" "()"]
    cname_chain [of 8 demo_dns demo_resolver "\<lambda>i. ''loop''" "[]" "()"] demo_aliases
  by simp

end
