(* ===== verification/Dns_Provider.thy ===== *)
theory Dns_Provider
  imports Dns_Lookup
begin

text \<open>
  \<^verbatim>\<open>gossip/internal/dns\<close>: \<^verbatim>\<open>resolver.go\<close>, \<^verbatim>\<open>provider.go\<close> and
  \<^verbatim>\<open>godns/resolver.go\<close>. The interface \<^verbatim>\<open>ipLookupResolver\<close> is the record of its
  methods over the state \<open>'n\<close> of the network, and the locale \<open>ip_resolver\<close> is the contract that
  the service discovery relies on; the resolver of \<open>Dns_Lookup\<close> fulfils it. The interface
  \<^verbatim>\<open>Resolver\<close> has one method and is that function. Log output is not modelled.
\<close>

section \<open>Splitting addresses\<close>

definition addrErr :: "string \<Rightarrow> string \<Rightarrow> go_error" where
  "addrErr addr why = ErrText (''address '' @ addr @ '': '' @ why)"

text \<open>
  \<^verbatim>\<open>net.SplitHostPort\<close>. The text is divided at its last colon; in the bracketed form the
  first closing bracket has to stand right before that colon.
\<close>

definition LastIndexByte :: "string \<Rightarrow> char \<Rightarrow> nat option" where
  "LastIndexByte s c =
     (if c \<in> set s then Some (length s - 1 - length (takeWhile (\<lambda>x. x \<noteq> c) (rev s))) else None)"

definition IndexByte :: "string \<Rightarrow> char \<Rightarrow> nat option" where
  "IndexByte s c = (if c \<in> set s then Some (length (takeWhile (\<lambda>x. x \<noteq> c) s)) else None)"

definition check_brackets ::
    "string \<Rightarrow> nat \<Rightarrow> nat \<Rightarrow> string \<Rightarrow> string \<Rightarrow> go_error + string \<times> string" where
  "check_brackets hostport j k host port =
     (if CHR ''['' \<in> set (drop j hostport) then Inl (addrErr hostport ''unexpected '[' in address'')
      else if CHR '']'' \<in> set (drop k hostport) then Inl (addrErr hostport ''unexpected ']' in address'')
      else Inr (host, port))"

definition SplitHostPort :: "string \<Rightarrow> go_error + string \<times> string" where
  "SplitHostPort hostport =
     (case LastIndexByte hostport CHR '':'' of
        None \<Rightarrow> Inl (addrErr hostport ''missing port in address'')
      | Some i \<Rightarrow>
          if hd hostport = CHR ''['' then
            (case IndexByte hostport CHR '']'' of
               None \<Rightarrow> Inl (addrErr hostport ''missing ']' in address'')
             | Some e \<Rightarrow>
                 if e + 1 = length hostport then Inl (addrErr hostport ''missing port in address'')
                 else if e + 1 = i
                 then check_brackets hostport 1 (e + 1) (take (e - 1) (drop 1 hostport)) (drop (i + 1) hostport)
                 else if hostport ! (e + 1) = CHR '':''
                 then Inl (addrErr hostport ''too many colons in address'')
                 else Inl (addrErr hostport ''missing port in address''))
          else if CHR '':'' \<in> set (take i hostport)
          then Inl (addrErr hostport ''too many colons in address'')
          else check_brackets hostport 0 0 (take i hostport) (drop (i + 1) hostport))"

lemma LastIndexByte_append:
  "c \<notin> set b \<Longrightarrow> LastIndexByte (a @ c # b) c = Some (length a)"
  by (simp add: LastIndexByte_def takeWhile_append)

lemma IndexByte_append: "c \<notin> set a \<Longrightarrow> IndexByte (a @ c # b) c = Some (length a)"
  by (simp add: IndexByte_def takeWhile_append)

definition plain :: "string \<Rightarrow> bool" where
  "plain s \<longleftrightarrow> CHR ''['' \<notin> set s \<and> CHR '']'' \<notin> set s"

lemma SplitHostPort_Join:
  assumes "plain host" and "plain port" and "CHR '':'' \<notin> set port"
  shows "SplitHostPort (JoinHostPort host port) = Inr (host, port)"
proof (cases "CHR '':'' \<in> set host")
  case True
  let ?s = "(CHR ''['' # host @ [CHR '']'']) @ CHR '':'' # port"
  have "LastIndexByte ?s CHR '':'' = Some (length host + 2)"
    using LastIndexByte_append [OF assms(3), of "CHR ''['' # host @ [CHR '']'']"] by simp
  moreover have "IndexByte ?s CHR '']'' = Some (length host + 1)"
    using IndexByte_append [of "CHR '']''" "CHR ''['' # host" "CHR '':'' # port"] assms(1)
    by (simp add: plain_def)
  ultimately have "SplitHostPort ?s = Inr (host, port)"
    using assms by (simp add: SplitHostPort_def check_brackets_def plain_def)
  then show ?thesis using True by (simp add: JoinHostPort_def)
next
  case False
  have "LastIndexByte (host @ CHR '':'' # port) CHR '':'' = Some (length host)"
    by (rule LastIndexByte_append [OF assms(3)])
  moreover have "hd (host @ CHR '':'' # port) \<noteq> CHR ''[''"
    using assms(1) by (cases host) (auto simp: plain_def)
  ultimately show ?thesis
    using False assms by (simp add: SplitHostPort_def check_brackets_def plain_def JoinHostPort_def)
qed

lemma SplitHostPort_no_port: "CHR '':'' \<notin> set s \<Longrightarrow> isl (SplitHostPort s)"
  by (simp add: SplitHostPort_def LastIndexByte_def)

section \<open>The resolvers\<close>

record 'n ipLookupResolver =
  LookupIPAddr :: "ctx \<Rightarrow> string \<Rightarrow> 'n \<Rightarrow> (string list \<times> go_error option) \<times> 'n"
  LookupSRV :: "ctx \<Rightarrow> string \<Rightarrow> string \<Rightarrow> string \<Rightarrow> 'n \<Rightarrow> (SRV_rec list \<times> go_error option) \<times> 'n"
  res_IsNotFound :: "go_error \<Rightarrow> bool"

definition results :: "(go_error + 'a list) \<times> 'n \<Rightarrow> ('a list \<times> go_error option) \<times> 'n" where
  "results x = (case x of (Inl e, n) \<Rightarrow> (([], Some e), n) | (Inr xs, n) \<Rightarrow> ((xs, None), n))"

definition miekg :: "'n dns_pkg \<Rightarrow> miekg_Resolver \<Rightarrow> 'n ipLookupResolver" where
  "miekg P r =
     \<lparr>LookupIPAddr = (\<lambda>c host n. results (LookupIPAddr_miekg P r host n)),
      LookupSRV = (\<lambda>c service proto name n. results (LookupSRV_miekg P r service proto name n)),
      res_IsNotFound = miekg_IsNotFound\<rparr>"

text \<open>
  \<^verbatim>\<open>godns\<close>: the resolver of the standard library, whose lookups are parameters, with its own
  test for a name that does not exist.
\<close>

definition godns_IsNotFound :: "go_error option \<Rightarrow> bool" where
  "godns_IsNotFound err =
     (case err of
        None \<Rightarrow> False
      | Some e \<Rightarrow> (case errors_Cause e of ErrDNS m b \<Rightarrow> b | _ \<Rightarrow> False))"

record 'n net_Resolver =
  net_LookupIPAddr :: "ctx \<Rightarrow> string \<Rightarrow> 'n \<Rightarrow> (string list \<times> go_error option) \<times> 'n"
  net_LookupSRV :: "ctx \<Rightarrow> string \<Rightarrow> string \<Rightarrow> string \<Rightarrow> 'n \<Rightarrow> (SRV_rec list \<times> go_error option) \<times> 'n"

definition godns :: "'n net_Resolver \<Rightarrow> 'n ipLookupResolver" where
  "godns R =
     \<lparr>LookupIPAddr = net_LookupIPAddr R, LookupSRV = net_LookupSRV R,
      res_IsNotFound = (\<lambda>e. godns_IsNotFound (Some e))\<rparr>"

definition appendScheme :: "string \<Rightarrow> string \<Rightarrow> string" where
  "appendScheme scheme host = (if scheme = [] then host else scheme @ ''//'' @ host)"

text \<open>The loop over the SRV records.\<close>

fun resolve_recs ::
    "'n ipLookupResolver \<Rightarrow> ctx \<Rightarrow> string \<Rightarrow> string \<Rightarrow> string \<Rightarrow> string \<Rightarrow> SRV_rec list \<Rightarrow> string list \<Rightarrow> 'n \<Rightarrow>
     (go_error + string list) \<times> 'n" where
  "resolve_recs R c scheme host port qtype [] res n = (Inr res, n)"
| "resolve_recs R c scheme host port qtype (rec # recs) res n =
     (let resPort = (if port = [] then show_nat (srv_Port rec) else port)
      in if qtype = ''dnssrvnoa'' then
           resolve_recs R c scheme host port qtype recs
             (res @ [appendScheme scheme (JoinHostPort (srv_Target rec) resPort)]) n
         else
           let ((resIPs, err), n) = LookupIPAddr R c (srv_Target rec) n
           in case err of
                Some e \<Rightarrow>
                  if \<not> res_IsNotFound R e
                  then (Inl (ErrWrap (''lookup IP addresses '' @ quoted host) e), n)
                  else resolve_recs R c scheme host port qtype recs
                         (res @ map (\<lambda>ip. appendScheme scheme (JoinHostPort ip resPort)) resIPs) n
              | None \<Rightarrow>
                  resolve_recs R c scheme host port qtype recs
                    (res @ map (\<lambda>ip. appendScheme scheme (JoinHostPort ip resPort)) resIPs) n)"

definition split_scheme :: "string \<Rightarrow> string \<times> string" where
  "split_scheme name =
     (case strings_Split ''//'' name of
        scheme # rest # _ \<Rightarrow> (scheme, rest)
      | _ \<Rightarrow> ([], name))"

definition split_port :: "string \<Rightarrow> string \<times> string" where
  "split_port name = (case SplitHostPort name of Inl err \<Rightarrow> (name, []) | Inr hp \<Rightarrow> hp)"

definition dnsSD_Resolve ::
    "'n ipLookupResolver \<Rightarrow> ctx \<Rightarrow> string \<Rightarrow> string \<Rightarrow> 'n \<Rightarrow> (go_error + string list) \<times> 'n" where
  "dnsSD_Resolve R c name qtype n =
     (let (scheme, name) = split_scheme name;
          (host, port) = split_port name
      in if qtype = ''dns'' then
           if port = [] then
             (Inl (ErrText (''missing port in address given for dns lookup: '' @ name)), n)
           else
             let ((ips, err), n) = LookupIPAddr R c host n
             in case err of
                  Some e \<Rightarrow>
                    if \<not> res_IsNotFound R e
                    then (Inl (ErrWrap (''lookup IP addresses '' @ quoted host) e), n)
                    else (Inr (map (\<lambda>ip. appendScheme scheme (JoinHostPort ip port)) ips), n)
                | None \<Rightarrow> (Inr (map (\<lambda>ip. appendScheme scheme (JoinHostPort ip port)) ips), n)
         else if qtype = ''dnssrv'' \<or> qtype = ''dnssrvnoa'' then
           let ((recs, err), n) = LookupSRV R c [] [] host n
           in case err of
                Some e \<Rightarrow>
                  if \<not> res_IsNotFound R e
                  then (Inl (ErrWrap (''lookup SRV records '' @ quoted host) e), n)
                  else resolve_recs R c scheme host port qtype recs [] n
              | None \<Rightarrow> resolve_recs R c scheme host port qtype recs [] n
         else (Inl (ErrText (''invalid lookup scheme '' @ quoted qtype)), n))"

section \<open>The provider\<close>

type_synonym 'n Resolver = "ctx \<Rightarrow> string \<Rightarrow> string \<Rightarrow> 'n \<Rightarrow> (go_error + string list) \<times> 'n"

record 'n Provider =
  resolver :: "'n Resolver"
  resolved :: "string \<rightharpoonup> string list"

definition ToResolver :: "'n net_Resolver \<Rightarrow> 'n dns_pkg \<Rightarrow> string \<Rightarrow> 'n ipLookupResolver" where
  "ToResolver net P t =
     (if t = ''golang'' then godns net
      else if t = ''miekgdns'' then miekg P \<lparr>ResolvConf = ''/etc/resolv.conf''\<rparr>
      else godns net)"

definition NewResolver :: "'n ipLookupResolver \<Rightarrow> 'n Resolver" where
  "NewResolver R = dnsSD_Resolve R"

definition NewProvider :: "'n net_Resolver \<Rightarrow> 'n dns_pkg \<Rightarrow> string \<Rightarrow> 'n Provider" where
  "NewProvider net P resolverType =
     \<lparr>resolver = NewResolver (ToResolver net P resolverType), resolved = (\<lambda>_. None)\<rparr>"

definition Clone :: "'n Provider \<Rightarrow> 'n Provider" where
  "Clone p = \<lparr>resolver = resolver p, resolved = (\<lambda>_. None)\<rparr>"

definition GetQTypeName :: "string \<Rightarrow> string \<times> string" where
  "GetQTypeName addr =
     (case strings_SplitN2 ''+'' addr of [qtype, name] \<Rightarrow> (qtype, name) | _ \<Rightarrow> ([], addr))"

definition IsDynamicNode :: "string \<Rightarrow> bool" where
  "IsDynamicNode addr \<longleftrightarrow> fst (GetQTypeName addr) \<noteq> []"

text \<open>
  \<^verbatim>\<open>multierr.Append\<close> is a parameter. The loop over the addresses returns the new map, the
  collected error and the network.
\<close>

fun resolve_addrs ::
    "multierr \<Rightarrow> 'n Provider \<Rightarrow> ctx \<Rightarrow> string list \<Rightarrow> (string \<rightharpoonup> string list) \<Rightarrow> go_error option \<Rightarrow> 'n \<Rightarrow>
     (string \<rightharpoonup> string list) \<times> go_error option \<times> 'n" where
  "resolve_addrs Append p c [] resolvedAddrs errs n = (resolvedAddrs, errs, n)"
| "resolve_addrs Append p c (addr # addrs) resolvedAddrs errs n =
     (let (qtype, name) = GetQTypeName addr
      in if qtype = [] then
           resolve_addrs Append p c addrs (resolvedAddrs(name \<mapsto> [name])) errs n
         else
           case resolver p c name qtype n of
             (Inl err, n) \<Rightarrow>
               (let cached = (case resolved p addr of None \<Rightarrow> [] | Some l \<Rightarrow> l)
                in resolve_addrs Append p c addrs (resolvedAddrs(addr \<mapsto> cached)) (Append errs (Some err)) n)
           | (Inr l, n) \<Rightarrow> resolve_addrs Append p c addrs (resolvedAddrs(addr \<mapsto> l)) errs n)"

definition Provider_Resolve ::
    "multierr \<Rightarrow> ctx \<Rightarrow> string list \<Rightarrow> 'n Provider \<Rightarrow> 'n \<Rightarrow> go_error option \<times> 'n Provider \<times> 'n" where
  "Provider_Resolve Append c addrs p n =
     (let (resolvedAddrs, errs, n) = resolve_addrs Append p c addrs (\<lambda>_. None) None n
      in (errs, p\<lparr>resolved := resolvedAddrs\<rparr>, n))"

text \<open>The order in which the runtime visits the map is an argument.\<close>

definition Addresses :: "string list \<Rightarrow> 'n Provider \<Rightarrow> string list" where
  "Addresses order p = concat (List.map_filter (resolved p) order)"

section \<open>Service discovery\<close>

lemma strings_Cut_first:
  assumes "sep \<noteq> []" and "hd sep \<notin> set a"
  shows "strings_Cut sep (a @ sep @ b) = Some (a, b)"
  using assms(2)
proof (induction a)
  case Nil
  then show ?case using assms(1) by (cases sep) (auto simp: has_prefix_iff)
next
  case (Cons x a)
  then have "\<not> has_prefix sep (x # a @ sep @ b)"
    using assms(1) by (cases sep) auto
  then show ?case using Cons by simp
qed

lemma no_slashes: "CHR ''/'' \<notin> set s \<Longrightarrow> strings_Split ''//'' s = [s]"
  using strings_Cut_Some [of "''//''" s]
  by (cases "strings_Cut ''//'' s") (auto simp: strings_Split.simps)

lemma split_scheme_append:
  assumes "CHR ''/'' \<notin> set scheme" and "CHR ''/'' \<notin> set s"
  shows "split_scheme (appendScheme scheme s) = (scheme, s)"
proof (cases "scheme = []")
  case False
  have "strings_Cut ''//'' (scheme @ ''//'' @ s) = Some (scheme, s)"
    by (rule strings_Cut_first) (use assms(1) in simp_all)
  then have "strings_Split ''//'' (scheme @ ''//'' @ s) = [scheme, s]"
    using no_slashes [OF assms(2)] strings_Split.simps [of "''//''" "scheme @ ''//'' @ s"] by simp
  then show ?thesis using False by (simp add: split_scheme_def appendScheme_def)
qed (simp add: split_scheme_def appendScheme_def no_slashes assms(2))

definition host_ok :: "string \<Rightarrow> bool" where
  "host_ok s \<longleftrightarrow> plain s \<and> CHR ''/'' \<notin> set s"

definition port_ok :: "string \<Rightarrow> bool" where
  "port_ok s \<longleftrightarrow> host_ok s \<and> CHR '':'' \<notin> set s"

lemma split_address:
  assumes "CHR ''/'' \<notin> set scheme" and "host_ok host" and "port_ok port"
  shows "split_scheme (appendScheme scheme (JoinHostPort host port)) = (scheme, JoinHostPort host port)"
    and "split_port (JoinHostPort host port) = (host, port)"
proof -
  have "CHR ''/'' \<notin> set (JoinHostPort host port)"
    using assms(2,3) by (simp add: JoinHostPort_def host_ok_def port_ok_def)
  then show "split_scheme (appendScheme scheme (JoinHostPort host port)) = (scheme, JoinHostPort host port)"
    by (rule split_scheme_append [OF assms(1)])
  show "split_port (JoinHostPort host port) = (host, port)"
    using SplitHostPort_Join [of host port] assms by (simp add: split_port_def host_ok_def port_ok_def)
qed

locale ip_resolver =
  fixes R :: "'n ipLookupResolver"
  assumes no_addresses: "LookupIPAddr R c host n = ((ips, Some e), n') \<Longrightarrow> ips = []"
    and no_records: "LookupSRV R c service proto host n = ((recs, Some e), n') \<Longrightarrow> recs = []"
begin

lemma resolve_host:
  assumes "CHR ''/'' \<notin> set scheme" and "host_ok host" and "port_ok port" and "port \<noteq> []"
    and "LookupIPAddr R c host n = ((ips, err), n')"
  shows "dnsSD_Resolve R c (appendScheme scheme (JoinHostPort host port)) ''dns'' n =
     (case err of
        None \<Rightarrow> Inr (map (\<lambda>ip. appendScheme scheme (JoinHostPort ip port)) ips)
      | Some e \<Rightarrow>
          if res_IsNotFound R e then Inr []
          else Inl (ErrWrap (''lookup IP addresses '' @ quoted host) e), n')"
  using split_address [OF assms(1-3)] assms(4,5) no_addresses [of c host n ips _ n']
  by (auto simp: dnsSD_Resolve_def split: option.splits)

lemma resolve_recs_noa:
  "resolve_recs R c scheme host port ''dnssrvnoa'' recs res n =
     (Inr (res @ map (\<lambda>rec. appendScheme scheme (JoinHostPort (srv_Target rec)
        (if port = [] then show_nat (srv_Port rec) else port))) recs), n)"
  by (induction recs arbitrary: res) (simp_all add: Let_def)

lemma resolve_services:
  assumes "CHR ''/'' \<notin> set scheme" and "host_ok host" and "CHR '':'' \<notin> set host"
    and "LookupSRV R c [] [] host n = ((recs, err), n')"
  shows "dnsSD_Resolve R c (appendScheme scheme host) ''dnssrvnoa'' n =
     (case err of
        None \<Rightarrow>
          Inr (map (\<lambda>rec. appendScheme scheme (JoinHostPort (srv_Target rec) (show_nat (srv_Port rec)))) recs)
      | Some e \<Rightarrow>
          if res_IsNotFound R e then Inr []
          else Inl (ErrWrap (''lookup SRV records '' @ quoted host) e), n')"
proof -
  have "split_scheme (appendScheme scheme host) = (scheme, host)"
    using split_scheme_append assms(1,2) by (simp add: host_ok_def)
  moreover have "split_port host = (host, [])"
    using SplitHostPort_no_port [OF assms(3)] by (auto simp: split_port_def split: sum.splits)
  ultimately show ?thesis
    using assms(4) no_records [of c "[]" "[]" host n recs _ n']
    by (auto simp: dnsSD_Resolve_def resolve_recs_noa split: option.splits)
qed

end

lemma miekg_sel [simp]:
  "LookupIPAddr (miekg P r) c host n = results (LookupIPAddr_miekg P r host n)"
  "LookupSRV (miekg P r) c service proto host n = results (LookupSRV_miekg P r service proto host n)"
  "res_IsNotFound (miekg P r) = miekg_IsNotFound"
  by (simp_all add: miekg_def)

interpretation miekg: ip_resolver "miekg P r" for P :: "'n dns_pkg" and r
  by unfold_locales (auto simp: results_def split: prod.splits sum.splits)

text \<open>
  C37. The address lookup of a node, on the resolver that the gossip store uses. The host
  and the port of an address \<^verbatim>\<open>scheme//host:port\<close> are found again, also for an IPv6 host in
  brackets; every address that the lookup yields comes back with the same scheme and port. A host
  that does not exist gives no address and no error, another error is passed on. A host without
  a port is refused.
\<close>

theorem resolve_node:
  assumes "CHR ''/'' \<notin> set scheme" and "host_ok host" and "port_ok port" and "port \<noteq> []"
    and "LookupIPAddr_miekg P r host n = (x, n')"
  shows "dnsSD_Resolve (miekg P r) c (appendScheme scheme (JoinHostPort host port)) ''dns'' n =
     (case x of
        Inr ips \<Rightarrow> Inr (map (\<lambda>ip. appendScheme scheme (JoinHostPort ip port)) ips)
      | Inl e \<Rightarrow>
          if miekg_IsNotFound e then Inr []
          else Inl (ErrWrap (''lookup IP addresses '' @ quoted host) e), n') \<and>
     (CHR '':'' \<notin> set host \<longrightarrow>
        isl (fst (dnsSD_Resolve (miekg P r) c (appendScheme scheme host) ''dns'' n)))"
proof
  obtain ips err where "results (x, n') = ((ips, err), n')"
    by (cases x) (simp_all add: results_def)
  then show "dnsSD_Resolve (miekg P r) c (appendScheme scheme (JoinHostPort host port)) ''dns'' n =
     (case x of
        Inr ips \<Rightarrow> Inr (map (\<lambda>ip. appendScheme scheme (JoinHostPort ip port)) ips)
      | Inl e \<Rightarrow>
          if miekg_IsNotFound e then Inr []
          else Inl (ErrWrap (''lookup IP addresses '' @ quoted host) e), n')"
    using miekg.resolve_host [OF assms(1-4), of P r c n ips err n'] assms(5)
    by (cases x) (auto simp: results_def)
  show "CHR '':'' \<notin> set host \<longrightarrow>
        isl (fst (dnsSD_Resolve (miekg P r) c (appendScheme scheme host) ''dns'' n))"
  proof
    assume "CHR '':'' \<notin> set host"
    then have "split_port host = (host, [])"
      using SplitHostPort_no_port [of host] by (auto simp: split_port_def split: sum.splits)
    moreover have "split_scheme (appendScheme scheme host) = (scheme, host)"
      using split_scheme_append assms(1,2) by (simp add: host_ok_def)
    ultimately show "isl (fst (dnsSD_Resolve (miekg P r) c (appendScheme scheme host) ''dns'' n))"
      by (simp add: dnsSD_Resolve_def)
  qed
qed

lemma demo_node: "LookupIPAddr_miekg demo_dns demo_resolver ''node'' () = (Inr [''fd00::7''], ())"
  using lookupIPAddr_addresses [OF demo_aliases(3), of 1 8 "()"]
  by (simp add: LookupIPAddr_miekg_def prod_eq_iff)

theorem resolve_node_witness:
  "dnsSD_Resolve (miekg demo_dns demo_resolver) None ''http://node:7946'' ''dns'' () =
     (Inr [''http://[fd00::7]:7946''], ())"
  using resolve_node [of "''http:''" "''node''" "''7946''" demo_dns demo_resolver "()" _ _ None, OF _ _ _ _ demo_node]
  by (simp add: host_ok_def port_ok_def plain_def appendScheme_def JoinHostPort_def)

section \<open>The cache of the provider\<close>

text \<open>The documented behaviour of \<^verbatim>\<open>multierr.Append\<close>: nil exactly when both arguments are.\<close>

definition multierr_doc :: "multierr \<Rightarrow> bool" where
  "multierr_doc Append \<longleftrightarrow> (\<forall>a b. Append a b = None \<longleftrightarrow> a = None \<and> b = None)"

text \<open>The answers of the resolver do not change during the call.\<close>

definition steady :: "'n Provider \<Rightarrow> ctx \<Rightarrow> (string \<Rightarrow> string \<Rightarrow> go_error + string list) \<Rightarrow> bool" where
  "steady p c ans \<longleftrightarrow> (\<forall>name qtype n. fst (resolver p c name qtype n) = ans name qtype)"

text \<open>What an address is resolved to: itself, the answer, or what the cache has.\<close>

definition target_of ::
    "'n Provider \<Rightarrow> (string \<Rightarrow> string \<Rightarrow> go_error + string list) \<Rightarrow> string \<Rightarrow> string list" where
  "target_of p ans addr =
     (if \<not> IsDynamicNode addr then [addr]
      else case GetQTypeName addr of (qtype, name) \<Rightarrow>
        (case ans name qtype of
           Inr l \<Rightarrow> l
         | Inl err \<Rightarrow> (case resolved p addr of None \<Rightarrow> [] | Some l \<Rightarrow> l)))"

definition fails :: "(string \<Rightarrow> string \<Rightarrow> go_error + string list) \<Rightarrow> string \<Rightarrow> bool" where
  "fails ans addr \<longleftrightarrow> IsDynamicNode addr \<and> (case GetQTypeName addr of (qtype, name) \<Rightarrow> isl (ans name qtype))"

definition named :: "string \<Rightarrow> bool" where
  "named addr \<longleftrightarrow> (case addr of [] \<Rightarrow> True | x # xs \<Rightarrow> x \<noteq> CHR ''+'')"

lemma GetQTypeName_cases:
  assumes "named addr"
  obtains (static) "CHR ''+'' \<notin> set addr" "GetQTypeName addr = ([], addr)" "\<not> IsDynamicNode addr"
  | (dynamic) qtype name where "GetQTypeName addr = (qtype, name)" "qtype \<noteq> []" "IsDynamicNode addr"
      "addr = qtype @ ''+'' @ name"
proof (cases "strings_Cut ''+'' addr")
  case None
  then have "\<not> strings_Contains addr ''+''" by (simp add: strings_Cut_None)
  then have "CHR ''+'' \<notin> set addr"
    using split_list [of "CHR ''+''" addr] by (auto simp: strings_Contains_iff)
  then show thesis
    using None static by (simp add: GetQTypeName_def strings_SplitN2_def IsDynamicNode_def)
next
  case (Some ab)
  obtain qtype name where ab: "ab = (qtype, name)" by (cases ab)
  have "addr = qtype @ ''+'' @ name" using strings_Cut_Some [of "''+''" addr] Some ab by simp
  moreover have "qtype \<noteq> []" using assms calculation by (auto simp: named_def)
  ultimately show thesis
    using Some ab dynamic by (simp add: GetQTypeName_def strings_SplitN2_def IsDynamicNode_def)
qed

lemma resolve_addrs_result:
  assumes "\<forall>a \<in> set addrs. named a" and "steady p c ans" and "multierr_doc Append"
  shows "\<exists>e' n'. resolve_addrs Append p c addrs m e n =
     (\<lambda>k. if k \<in> set addrs then Some (target_of p ans k) else m k, e', n') \<and>
     (e' = None \<longleftrightarrow> e = None \<and> (\<forall>a \<in> set addrs. \<not> fails ans a))"
  using assms(1)
proof (induction addrs arbitrary: m e n)
  case (Cons a addrs)
  have rest: "\<forall>a \<in> set addrs. named a" using Cons.prems by simp
  have upd: "(\<lambda>k. if k \<in> set addrs then Some (target_of p ans k) else (m(a \<mapsto> target_of p ans a)) k) =
      (\<lambda>k. if k \<in> set (a # addrs) then Some (target_of p ans k) else m k)"
    by auto
  have "\<exists>e1 n1. resolve_addrs Append p c (a # addrs) m e n =
        resolve_addrs Append p c addrs (m(a \<mapsto> target_of p ans a)) e1 n1 \<and>
      (e1 = None \<longleftrightarrow> e = None \<and> \<not> fails ans a)"
  proof (rule GetQTypeName_cases [of a])
    show "named a" using Cons.prems by simp
  next
    assume "GetQTypeName a = ([], a)" and "\<not> IsDynamicNode a"
    then show ?thesis by (auto simp: target_of_def fails_def)
  next
    fix qtype name
    assume a: "GetQTypeName a = (qtype, name)" "qtype \<noteq> []" "IsDynamicNode a"
    obtain x n1 where x: "resolver p c name qtype n = (x, n1)" by (metis surj_pair)
    then have ans: "ans name qtype = x" using assms(2) unfolding steady_def by (metis fst_conv)
    show ?thesis
    proof (cases x)
      case (Inl err)
      have "Append e (Some err) \<noteq> None" using assms(3) by (simp add: multierr_doc_def)
      then show ?thesis
        using a x ans Inl by (auto simp: target_of_def fails_def Let_def)
    next
      case (Inr l)
      then show ?thesis using a x ans by (auto simp: target_of_def fails_def)
    qed
  qed
  then obtain e1 n1 where s1: "resolve_addrs Append p c (a # addrs) m e n =
        resolve_addrs Append p c addrs (m(a \<mapsto> target_of p ans a)) e1 n1"
      "e1 = None \<longleftrightarrow> e = None \<and> \<not> fails ans a"
    by blast
  obtain e' n' where s2: "resolve_addrs Append p c addrs (m(a \<mapsto> target_of p ans a)) e1 n1 =
        (\<lambda>k. if k \<in> set addrs then Some (target_of p ans k) else (m(a \<mapsto> target_of p ans a)) k, e', n')"
      "e' = None \<longleftrightarrow> e1 = None \<and> (\<forall>a \<in> set addrs. \<not> fails ans a)"
    using Cons.IH [of "m(a \<mapsto> target_of p ans a)" e1 n1] rest by blast
  have "resolve_addrs Append p c (a # addrs) m e n =
      (\<lambda>k. if k \<in> set (a # addrs) then Some (target_of p ans k) else m k, e', n')"
    unfolding s1(1) s2(1) upd ..
  moreover have "e' = None \<longleftrightarrow> e = None \<and> (\<forall>a \<in> set (a # addrs). \<not> fails ans a)"
    using s1(2) s2(2) by auto
  ultimately show ?case by blast
qed simp


text \<open>Example: a provider whose lookups fail, with a cached answer.\<close>

definition demo_provider :: "unit Provider" where
  "demo_provider =
     \<lparr>resolver = (\<lambda>c name qtype n. (Inl (ErrText ''refused''), n)),
      resolved = [''dns+node:7946'' \<mapsto> [''10.0.0.7:7946'']]\<rparr>"

definition demo_Append :: multierr where
  "demo_Append a b = (case a of None \<Rightarrow> b | Some e \<Rightarrow> Some e)"


end
