(* ===== verification/Gossip_Node.thy ===== *)
theory Gossip_Node
  imports Gossip_Lock Dns_Provider
begin

text \<open>
  The rest of \<^verbatim>\<open>gossip/gossip.go\<close>: the construction of the store (resolve the addresses,
  create the member list, join), the lock that is exported, its metadata and its end. The member
  list and the network of the resolver are parameters. A gossip lock is a lock whose store is
  the \<^verbatim>\<open>kvstore\<close>, which both pointers of the Go struct share.
\<close>

section \<open>Construction\<close>

definition ensure_logger :: "ml_Config \<Rightarrow> ml_Config" where
  "ensure_logger cfg = (if has_Logger cfg then cfg else cfg\<lparr>has_Logger := True\<rparr>)"

definition raise_mult :: "int \<Rightarrow> ml_Config \<Rightarrow> ml_Config" where
  "raise_mult k cfg = (if RetransmitMult cfg < k then cfg\<lparr>RetransmitMult := k\<rparr> else cfg)"

definition raise_queue :: "'q memberlist \<Rightarrow> int \<Rightarrow> 'q delegate \<Rightarrow> 'q delegate" where
  "raise_queue ml k d =
     (if queue_RetransmitMult ml (queue d) < k
      then d\<lparr>queue := set_RetransmitMult ml k (queue d)\<rparr> else d)"

text \<open>
  \<open>p\<close> is the empty provider for the resolver that asks the servers itself, \<open>order\<close> the order in
  which the runtime visits its map. The result comes with the configuration, which the caller
  shares, the network and the member list.
\<close>

definition newKVStore ::
    "'n net_Resolver \<Rightarrow> 'n dns_pkg \<Rightarrow> multierr \<Rightarrow> ((string \<rightharpoonup> string list) \<Rightarrow> string list) \<Rightarrow> 'q memberlist \<Rightarrow> clock \<Rightarrow>
     ctx \<Rightarrow> ml_Config \<Rightarrow> bytes \<Rightarrow> string list \<Rightarrow> 'n \<Rightarrow> 'q \<Rightarrow>
     (go_error + 'q kvstore) \<times> ml_Config \<times> 'n \<times> 'q" where
  "newKVStore net P Append order ml clk c cfg meta addrs n q =
     (let cfg = ensure_logger cfg;
          p = NewProvider net P ''miekgdns'';
          (err, p, n) = Provider_Resolve Append c addrs p n
      in case err of
           Some e \<Rightarrow> (Inl e, cfg, n, q)
         | None \<Rightarrow>
             let addrs = Addresses (order (resolved p)) p;
                 cfg = raise_mult (int (length addrs)) cfg;
                 (err, q) = ml_Create ml cfg q
             in case err of
                  Some e \<Rightarrow> (Inl e, cfg, n, q)
                | None \<Rightarrow>
                    let q = SetMeta ml meta q;
                        (Q, q) = NewQueue ml (RetransmitMult cfg) q;
                        d = newDelegate Q q;
                        ((joined, err), d) = Join ml addrs d
                    in case err of
                         Some e \<Rightarrow> (Inl e, cfg, n, queue d)
                       | None \<Rightarrow>
                           let d = raise_queue ml joined d
                           in (Inr \<lparr>kv_delegate = d, kv_clock = clk, kv_panicked = False\<rparr>, cfg, n, queue d))"

definition gossip_New ::
    "'n net_Resolver \<Rightarrow> 'n dns_pkg \<Rightarrow> multierr \<Rightarrow> ((string \<rightharpoonup> string list) \<Rightarrow> string list) \<Rightarrow> 'q memberlist \<Rightarrow> clock \<Rightarrow>
     'q kvstore KV \<Rightarrow> ctx \<Rightarrow> ml_Config \<Rightarrow> string \<Rightarrow> string \<Rightarrow> bytes \<Rightarrow> string list \<Rightarrow> 'n \<Rightarrow> 'q \<Rightarrow>
     (go_error + 'q kvstore gossip_lock) \<times> ml_Config \<times> 'n \<times> 'q" where
  "gossip_New net P Append order ml clk K c cfg lockName i meta addrs n q =
     (case newKVStore net P Append order ml clk c cfg meta addrs n q of
        (Inl err, rest) \<Rightarrow> (Inl err, rest)
      | (Inr kv, rest) \<Rightarrow> (Inr \<lparr>g_kv = K, g_name = lockName, g_id = i, g_state = kv\<rparr>, rest))"

section \<open>The exported lock\<close>

text \<open>\<open>deadline\<close> is the time until the deadline of the context, if it has one.\<close>

definition UpdateMeta ::
    "'q memberlist \<Rightarrow> int option \<Rightarrow> bytes \<Rightarrow> 'q kvstore gossip_lock \<Rightarrow> go_error option \<times> 'q kvstore gossip_lock" where
  "UpdateMeta ml deadline meta l =
     (let d = setMeta meta (kv_delegate (g_state l));
          t = (case deadline of Some t \<Rightarrow> t | None \<Rightarrow> 0);
          (err, d) = UpdateNode ml t d
      in (err, l\<lparr>g_state := (g_state l)\<lparr>kv_delegate := d\<rparr>\<rparr>))"

definition Memberlist :: "'q kvstore gossip_lock \<Rightarrow> 'q" where
  "Memberlist l = queue (kv_delegate (g_state l))"

definition gossip_Close ::
    "multierr \<Rightarrow> 'q memberlist \<Rightarrow> 'q kvstore gossip_lock \<Rightarrow> go_error option \<times> 'q kvstore gossip_lock" where
  "gossip_Close Combine ml l =
     (let (err, kv) = kvstore_Close Combine ml (g_state l) in (err, l\<lparr>g_state := kv\<rparr>))"

section \<open>Starting a node\<close>

text \<open>The multiplier of the queue is a variable that can be assigned.\<close>

definition mult_doc :: "'q memberlist \<Rightarrow> bool" where
  "mult_doc ml \<longleftrightarrow> (\<forall>k q. queue_RetransmitMult ml (set_RetransmitMult ml k q) = k)"

lemma raise_mult_le: "RetransmitMult c \<le> RetransmitMult (raise_mult k c)" "k \<le> RetransmitMult (raise_mult k c)"
  by (simp_all add: raise_mult_def)

lemma raise_queue_le: "mult_doc ml \<Longrightarrow> k \<le> queue_RetransmitMult ml (queue (raise_queue ml k d))"
  by (simp add: raise_queue_def mult_doc_def)

lemma raise_queue_kv: "d_kv (raise_queue ml k d) = d_kv d"
  by (simp add: raise_queue_def)


definition demo_net :: "unit net_Resolver" where
  "demo_net = \<lparr>net_LookupIPAddr = (\<lambda>c h n. (([], None), n)), net_LookupSRV = (\<lambda>c s p h n. (([], None), n))\<rparr>"

text \<open>Example: a member list that reaches every address, and a static address.\<close>

definition demo_members :: "(broadcast list \<times> int) memberlist" where
  "demo_members =
     \<lparr>ml_Create = (\<lambda>conf q. (None, q)), SetMeta = (\<lambda>m q. q),
      NewQueue = (\<lambda>k q.
        (\<lparr>QueueBroadcast = (\<lambda>b (bs, k). (bs @ [b], k)), NumNodes = (\<lambda>q. 2),
          queue_GetBroadcasts = (\<lambda>o' l q. ([], q))\<rparr>, ([], k))),
      queue_RetransmitMult = snd, set_RetransmitMult = (\<lambda>k (bs, _). (bs, k)),
      Join = (\<lambda>addrs d. ((int (length addrs), None), d)), UpdateNode = (\<lambda>t d. (None, d)),
      Leave = (\<lambda>t d. (None, d)), Shutdown = (\<lambda>d. (None, d))\<rparr>"

lemma demo_start:
  "Provider_Resolve demo_Append None [''10.0.0.8:7946''] (NewProvider demo_net demo_dns ''miekgdns'') () =
     (None, (NewProvider demo_net demo_dns ''miekgdns'')\<lparr>resolved := [''10.0.0.8:7946'' \<mapsto> [''10.0.0.8:7946'']]\<rparr>, ())"
  by (simp add: Provider_Resolve_def GetQTypeName_def strings_SplitN2_def)


end
