(* ===== verification/Signal.thy ===== *)
theory Signal
  imports Go_Prelude
begin

text \<open>
  \<^verbatim>\<open>signal.go\<close>, \<^verbatim>\<open>signal_posix.go\<close> and \<^verbatim>\<open>singal_windows.go\<close>: the process as a state
  machine. \<^verbatim>\<open>signal.Notify\<close> sends a registered signal to the channel without blocking, so a
  signal that finds the buffer of two full is dropped; the goroutine of the handler takes the
  signals from the buffer. Log output is not modelled.
\<close>

section \<open>The process\<close>

datatype os_signal = Interrupt | SIGTERM | OtherSignal nat

definition shutdownSignals_posix :: "os_signal list" where
  "shutdownSignals_posix = [Interrupt, SIGTERM]"

definition shutdownSignals_windows :: "os_signal list" where
  "shutdownSignals_windows = [Interrupt]"

text \<open>Where the goroutine is: before its first or its second receive, or past the exit.\<close>

datatype handler_pc = AwaitFirst | AwaitSecond | Terminated

record process =
  onlyOneSignalHandler_closed :: bool
  notified :: "os_signal list"
  sig_chan :: "os_signal list"
  handler :: "handler_pc option"
  sig_ctx :: ctx
  exit_code :: "int option"

definition fresh_process :: process where
  "fresh_process =
     \<lparr>onlyOneSignalHandler_closed = False, notified = [], sig_chan = [], handler = None, sig_ctx = None,
      exit_code = None\<rparr>"

definition SetupSignalHandler :: "os_signal list \<Rightarrow> process \<Rightarrow> process outcome" where
  "SetupSignalHandler shutdownSignals p =
     (if onlyOneSignalHandler_closed p then Panic ''close of closed channel''
      else Ok \<lparr>onlyOneSignalHandler_closed = True, notified = shutdownSignals, sig_chan = [],
               handler = Some AwaitFirst, sig_ctx = None, exit_code = exit_code p\<rparr>)"

definition deliver :: "os_signal \<Rightarrow> process \<Rightarrow> process" where
  "deliver s p =
     (if s \<in> set (notified p) \<and> length (sig_chan p) < 2 then p\<lparr>sig_chan := sig_chan p @ [s]\<rparr> else p)"

definition handle :: "process \<Rightarrow> process" where
  "handle p =
     (case (handler p, sig_chan p) of
        (Some AwaitFirst, s # ss) \<Rightarrow> p\<lparr>sig_chan := ss, handler := Some AwaitSecond, sig_ctx := Some Canceled\<rparr>
      | (Some AwaitSecond, s # ss) \<Rightarrow> p\<lparr>sig_chan := ss, handler := Some Terminated, exit_code := Some 1\<rparr>
      | _ \<Rightarrow> p)"

text \<open>
  The runs of a process after the call, with the number of shutdown signals sent so far. After
  the exit nothing happens any more.
\<close>

inductive signal_run :: "os_signal list \<Rightarrow> nat \<Rightarrow> process \<Rightarrow> bool" for sigs where
  start: "SetupSignalHandler sigs fresh_process = Ok p \<Longrightarrow> signal_run sigs 0 p"
| arrive: "signal_run sigs n p \<Longrightarrow> exit_code p = None \<Longrightarrow>
    signal_run sigs (if s \<in> set sigs then Suc n else n) (deliver s p)"
| run: "signal_run sigs n p \<Longrightarrow> exit_code p = None \<Longrightarrow> signal_run sigs n (handle p)"

section \<open>The life of a process\<close>

definition received :: "process \<Rightarrow> nat" where
  "received p = (case handler p of Some AwaitSecond \<Rightarrow> 1 | Some Terminated \<Rightarrow> 2 | _ \<Rightarrow> 0)"

definition sig_inv :: "os_signal list \<Rightarrow> nat \<Rightarrow> process \<Rightarrow> bool" where
  "sig_inv sigs n p \<longleftrightarrow>
     onlyOneSignalHandler_closed p \<and> notified p = sigs \<and> handler p \<noteq> None \<and>
     length (sig_chan p) \<le> 2 \<and> received p + length (sig_chan p) \<le> n \<and>
     min n 2 \<le> received p + length (sig_chan p) \<and>
     sig_ctx p = (if received p = 0 then None else Some Canceled) \<and>
     exit_code p = (if received p = 2 then Some 1 else None)"

lemma sig_inv_deliver:
  "sig_inv sigs n p \<Longrightarrow> sig_inv sigs (if s \<in> set sigs then Suc n else n) (deliver s p)"
  by (auto simp: sig_inv_def deliver_def received_def)

lemma sig_inv_handle:
  assumes "sig_inv sigs n p"
  shows "sig_inv sigs n (handle p)"
proof (cases "sig_chan p")
  case Nil
  then show ?thesis
    using assms by (auto simp: handle_def split: option.splits handler_pc.splits)
next
  case (Cons s ss)
  obtain h where h: "handler p = Some h" using assms by (auto simp: sig_inv_def)
  show ?thesis using assms Cons h by (cases h) (auto simp: sig_inv_def handle_def received_def)
qed

lemma signal_run_inv: "signal_run sigs n p \<Longrightarrow> sig_inv sigs n p"
proof (induction rule: signal_run.induct)
  case (start p)
  then show ?case by (auto simp: SetupSignalHandler_def fresh_process_def sig_inv_def received_def)
next
  case (arrive n p s)
  from arrive.IH show ?case by (rule sig_inv_deliver)
next
  case (run n p)
  from run.IH show ?case by (rule sig_inv_handle)
qed

lemma handle_progress:
  assumes "sig_inv sigs n p" and "exit_code p = None" and "sig_chan p \<noteq> []"
  shows "received (handle p) = Suc (received p)"
proof -
  obtain h where "handler p = Some h" using assms(1) by (auto simp: sig_inv_def)
  then show ?thesis
    using assms by (cases h; cases "sig_chan p") (auto simp: sig_inv_def handle_def received_def)
qed

text \<open>
  C40. The signal handler. A second call panics. The context is cancelled only after a
  shutdown signal was sent, the process exits only with code 1 and only after two; and no shutdown
  signal is lost before that: while the context is not yet cancelled after a signal, or the
  process not ended after two, the next step of the goroutine does it.
\<close>

theorem signal_lifecycle:
  assumes "signal_run sigs n p"
  shows "(\<exists>m. SetupSignalHandler sigs' p = Panic m) \<and>
     (sig_ctx p \<noteq> None \<longrightarrow> 1 \<le> n) \<and>
     (\<forall>code. exit_code p = Some code \<longrightarrow> code = 1 \<and> 2 \<le> n \<and> sig_ctx p \<noteq> None) \<and>
     (1 \<le> n \<longrightarrow> sig_ctx p \<noteq> None \<or> sig_ctx (handle p) \<noteq> None) \<and>
     (2 \<le> n \<longrightarrow> exit_code p = Some 1 \<or> exit_code (handle p) = Some 1 \<or> exit_code (handle (handle p)) = Some 1)"
proof -
  have inv: "sig_inv sigs n p" using assms by (rule signal_run_inv)
  note invs = inv sig_inv_handle [OF inv] sig_inv_handle [OF sig_inv_handle [OF inv]]
  have recv: "received q \<le> 2" for q by (auto simp: received_def split: option.splits handler_pc.splits)
  have step: "received (handle q) = Suc (received q)" if "sig_inv sigs n q" "received q < n" "received q < 2" for q
    using that handle_progress [OF that(1)] by (cases "sig_chan q") (auto simp: sig_inv_def)
  have "received p = 0 \<longrightarrow> 1 \<le> n \<longrightarrow> received (handle p) = 1" using step [OF inv] by auto
  moreover have "2 \<le> n \<longrightarrow> received p = 2 \<or> received (handle p) = 2 \<or> received (handle (handle p)) = 2"
    using step [OF inv] step [OF invs(2)] recv [of p] recv [of "handle p"] by force
  ultimately show ?thesis
    using invs by (auto simp: sig_inv_def SetupSignalHandler_def split: if_splits)
qed

definition demo_process :: "process outcome" where
  "demo_process = SetupSignalHandler shutdownSignals_posix fresh_process"

theorem signal_lifecycle_witness:
  "\<exists>p. demo_process = Ok p \<and> (\<exists>m. SetupSignalHandler [] (deliver SIGTERM p) = Panic m) \<and>
     (sig_ctx (deliver SIGTERM p) \<noteq> None \<or> sig_ctx (handle (deliver SIGTERM p)) \<noteq> None)"
proof -
  obtain p where p: "demo_process = Ok p"
    by (simp add: demo_process_def SetupSignalHandler_def fresh_process_def)
  then have run: "signal_run shutdownSignals_posix 0 p" "exit_code p = None"
    by (auto simp: demo_process_def SetupSignalHandler_def fresh_process_def intro: signal_run.start)
  have "signal_run shutdownSignals_posix 1 (deliver SIGTERM p)"
    using signal_run.arrive [OF run, of SIGTERM] by (simp add: shutdownSignals_posix_def)
  from signal_lifecycle [OF this, of "[]"] p show ?thesis by auto
qed

end
