(* ===== verification/Gossip_Logger.thy ===== *)
theory Gossip_Logger
  imports Go_Strings
begin

text \<open>
  \<^verbatim>\<open>gossip/logger.go\<close>: the writer that passes the lines of the member list to the logger at
  the level that their prefix names. \<open>logw_Write\<close> returns what is logged and the number of bytes
  that it reports as written.
\<close>

datatype log_level = LDebug | LInfo | LWarn | LError

definition logw_Write :: "bytes \<Rightarrow> (log_level \<times> string) \<times> nat" where
  "logw_Write b =
     (let b = TrimRight CHR 0x0A b
      in (if has_prefix ''[DEBUG]'' b then (LDebug, TrimPrefix ''[DEBUG] '' b)
          else if has_prefix ''[INFO]'' b then (LInfo, TrimPrefix ''[INFO] '' b)
          else if has_prefix ''[WARN]'' b then (LWarn, TrimPrefix ''[WARN] '' b)
          else if has_prefix ''[ERROR]'' b then (LError, TrimPrefix ''[ERROR] '' b)
          else (LInfo, b),
          length b))"

definition log_tag :: "log_level \<Rightarrow> string" where
  "log_tag l = (case l of LDebug \<Rightarrow> ''[DEBUG] '' | LInfo \<Rightarrow> ''[INFO] '' | LWarn \<Rightarrow> ''[WARN] '' | LError \<Rightarrow> ''[ERROR] '')"

lemma TrimRight_newline [simp]: "TrimRight c (b @ [c]) = TrimRight c b"
  by (simp add: TrimRight_def)

lemma TrimRight_id: "b = [] \<or> last b \<noteq> c \<Longrightarrow> TrimRight c b = b"
  by (cases b rule: rev_cases) (simp_all add: TrimRight_def)

lemma length_TrimRight_le: "length (TrimRight c b) \<le> length b"
  unfolding TrimRight_def by (metis length_dropWhile_le length_rev)

text \<open>A line with a level is logged at that level without the level and without the end of the line.\<close>

lemma logw_Write_level:
  assumes "msg = [] \<or> last msg \<noteq> CHR 0x0A"
  shows "fst (logw_Write (log_tag l @ msg @ [CHR 0x0A])) = (l, msg)"
proof -
  have "TrimRight CHR 0x0A (log_tag l @ msg @ [CHR 0x0A]) = log_tag l @ msg"
    using TrimRight_newline [of "CHR 0x0A" "log_tag l @ msg"] TrimRight_id [of "log_tag l @ msg" "CHR 0x0A"] assms
    by (auto simp: log_tag_def split: log_level.splits)
  then show ?thesis
    by (simp add: logw_Write_def Let_def TrimPrefix_def log_tag_def split: log_level.splits)
qed

text \<open>
  The reported number of bytes does not count the end of the line, so it is below the length
  of every line that has one, while no error is returned.
\<close>

lemma logw_Write_short: "snd (logw_Write (b @ [CHR 0x0A])) < length (b @ [CHR 0x0A])"
  using length_TrimRight_le [of "CHR 0x0A" b] by (simp add: logw_Write_def Let_def)

end
