(* ===== verification/Go_Json_Fuel.thy ===== *)
theory Go_Json_Fuel
  imports Go_Json_Decode
begin

text \<open>
  The fuel of the JSON parser is never used up: with more than twice the length of the input,
  more fuel gives the same result, so a parse that fails is a syntax error.
\<close>

section \<open>What a parse leaves\<close>

lemma length_skip_ws: "length (skip_ws bs) \<le> length bs"
  by (simp add: skip_ws_def length_dropWhile_le)

lemma skip_ws_Cons: "skip_ws bs = c # cs \<Longrightarrow> length cs < length bs"
  using length_skip_ws [of bs] by simp

lemma length_scan_string: "scan_string bs = Some (t, r) \<Longrightarrow> length r < length bs"
proof (induction bs arbitrary: t rule: scan_string.induct)
  case (2 c cs)
  then show ?case by (fastforce split: if_splits list.splits)
qed simp

lemma length_scan_digits: "scan_digits bs = Some (t, r) \<Longrightarrow> length r \<le> length bs"
  by (auto simp: scan_digits_def length_dropWhile_le split: if_splits)

lemma length_scan_number:
  assumes "scan_number bs = Some (t, r)"
  shows "length r \<le> length bs"
proof -
  obtain sg r0 i r1 f r2 e where parts: "scan_sign bs = (sg, r0)" "scan_int r0 = Some (i, r1)"
      "scan_frac r1 = Some (f, r2)" "scan_exp r2 = Some (e, r)"
    using assms by (auto simp: scan_number_def split: prod.splits option.splits)
  have "length r0 \<le> length bs" using parts(1) by (auto simp: scan_sign_def split: list.splits if_splits)
  moreover have "length r1 \<le> length r0"
    using parts(2) length_scan_digits by (fastforce simp: scan_int_def split: list.splits if_splits)
  moreover have "length r2 \<le> length r1"
    using parts(3) length_scan_digits by (fastforce simp: scan_frac_def split: list.splits if_splits)
  moreover have "length r \<le> length r2"
    using parts(4) length_scan_digits by (fastforce simp: scan_exp_def split: list.splits if_splits)
  ultimately show ?thesis by simp
qed

lemma length_literal: "literal w v bs = Some (u, r) \<Longrightarrow> length r \<le> length bs"
  by (auto simp: literal_def split: if_splits)

lemmas shorter = skip_ws_Cons length_scan_string length_scan_number length_literal

lemma p_rest:
  "p_value n d bs = Some (v, r) \<Longrightarrow> length r \<le> length bs"
  "p_members n d bs = Some (ms, r) \<Longrightarrow> length r \<le> length bs"
  "p_elements n d bs = Some (vs, r) \<Longrightarrow> length r \<le> length bs"
proof (induction n arbitrary: d bs v ms vs r)
  case (Suc n)
  {
    case 1
    then show ?case
      by (auto simp: p_value.simps split: list.splits if_splits dest!: shorter Suc.IH)
  next
    case 2
    then show ?case
      by (auto simp: p_members.simps split: list.splits if_splits option.splits dest!: shorter Suc.IH)
  next
    case 3
    then show ?case
      by (auto simp: p_elements.simps split: list.splits if_splits option.splits dest!: shorter Suc.IH)
  }
qed (simp_all add: p_value.simps p_members.simps p_elements.simps)

section \<open>More fuel changes nothing\<close>

lemma p_value_arg:
  assumes "\<And>x r. length (x # r) < length bs \<Longrightarrow> p_members n (Suc d) (x # r) = p_members m (Suc d) (x # r)"
    and "\<And>x r. length (x # r) < length bs \<Longrightarrow> p_elements n (Suc d) (x # r) = p_elements m (Suc d) (x # r)"
  shows "p_value (Suc n) d bs = p_value (Suc m) d bs"
proof (cases "skip_ws bs")
  case (Cons c cs)
  have "length cs < length bs" using Cons by (rule skip_ws_Cons)
  then have same: "p_members n (Suc d) (x # r) = p_members m (Suc d) (x # r)"
      "p_elements n (Suc d) (x # r) = p_elements m (Suc d) (x # r)" if "skip_ws cs = x # r" for x r
    using that assms length_skip_ws [of cs] by simp_all
  show ?thesis using Cons same by (simp add: p_value.simps split: list.split)
qed (simp add: p_value.simps)

lemma p_members_arg:
  assumes "\<And>r. length r < length bs \<Longrightarrow> p_value n d r = p_value m d r"
    and "\<And>r. length r < length bs \<Longrightarrow> p_members n d r = p_members m d r"
  shows "p_members (Suc n) d bs = p_members (Suc m) d bs"
proof (cases "skip_ws bs")
  case (Cons q cs)
  have cs: "length cs < length bs" using Cons by (rule skip_ws_Cons)
  show ?thesis
  proof (cases "scan_string cs")
    case (Some kr)
    obtain k r1 where kr: "kr = (k, r1)" by (cases kr)
    have r1: "length r1 < length cs" using Some kr length_scan_string by simp
    have val: "p_value n d r2 = p_value m d r2" if "skip_ws r1 = x # r2" for x r2
      using that assms(1) cs r1 skip_ws_Cons [of r1] by force
    have more: "p_members n d r4 = p_members m d r4"
      if "skip_ws r1 = x # r2" "p_value m d r2 = Some (v, r3)" "skip_ws r3 = y # r4" for x y v r2 r3 r4
      using that assms(2) [of r4] cs r1 skip_ws_Cons [of r1] skip_ws_Cons [of r3] p_rest(1) [of m d r2 v r3] by force
    show ?thesis
      using Cons Some kr val more by (simp add: p_members.simps split: list.split option.split)
  qed (simp add: p_members.simps Cons)
qed (simp add: p_members.simps)

lemma p_elements_arg:
  assumes "p_value n d bs = p_value m d bs"
    and "\<And>r. length r < length bs \<Longrightarrow> p_elements n d r = p_elements m d r"
  shows "p_elements (Suc n) d bs = p_elements (Suc m) d bs"
proof (cases "p_value m d bs")
  case (Some vr)
  obtain v r1 where vr: "vr = (v, r1)" by (cases vr)
  have "p_elements n d r2 = p_elements m d r2" if "skip_ws r1 = y # r2" for y r2
    using that assms(2) [of r2] skip_ws_Cons [of r1] p_rest(1) [of m d bs v r1] Some vr by force
  then show ?thesis using assms(1) Some vr by (simp add: p_elements.simps split: list.split)
qed (simp add: p_elements.simps assms(1))

lemma fuel_step:
  "2 * length bs < n \<Longrightarrow> p_value (Suc n) d bs = p_value n d bs"
  "2 * length bs < n \<Longrightarrow> p_members (Suc n) d bs = p_members n d bs"
  "2 * length bs + 1 < n \<Longrightarrow> p_elements (Suc n) d bs = p_elements n d bs"
proof (induction n arbitrary: d bs)
  case (Suc n)
  {
    case 1
    show ?case by (rule p_value_arg; rule Suc.IH; use 1 in simp)
  next
    case 2
    show ?case by (rule p_members_arg; rule Suc.IH; use 2 in simp)
  next
    case 3
    show ?case by (rule p_elements_arg; rule Suc.IH; use 3 in simp)
  }
qed simp_all

lemma p_value_fuel:
  assumes "2 * length bs < n"
  shows "p_value n d bs = p_value (2 * length bs + 1) d bs"
proof -
  have "p_value (2 * length bs + 1 + k) d bs = p_value (2 * length bs + 1) d bs" for k
    by (induction k) (simp_all add: fuel_step(1))
  from this [of "n - (2 * length bs + 1)"] show ?thesis using assms by simp
qed

text \<open>With any larger fuel the parser gives the same result.\<close>

lemma parse_json_fuel:
  assumes "2 * length bs < n"
  shows "parse_json bs =
     (case p_value n 0 bs of
        Some (v, r) \<Rightarrow> if skip_ws r = [] then Some v else None
      | None \<Rightarrow> None)"
  unfolding parse_json_def p_value_fuel [OF assms] ..

end
